(* ===== verification/Mette_Prelude.thy ===== *)
theory Mette_Prelude
  imports Main "HOL-Library.Word"
begin

unbundle bit_operations_syntax

text \<open>
  The prelude of the development: the names of the machine's integer types, the sum type
  that carries every way a run can stop, its sequencing operator, and the word lemmas and
  fact collections that the component theories share.

  The build that is modelled is the default one of \<open>src/Makefile\<close>:
  \<open>TARGET_ARCH=i386\<close>, \<open>TARGET_IS_BE=0\<close>, so \<open>int\<close>, \<open>unsigned\<close>, \<open>size_t\<close>, pointers and
  \<open>vm_operand_t\<close> (\<open>uintptr_t\<close>) are 32 bits wide and memory is little-endian.
\<close>

section \<open>Machine integers\<close>

type_synonym u8 = "8 word"
type_synonym u16 = "16 word"
type_synonym u32 = "32 word"

text \<open>Facts about byte layout, memory frames and the heap are collected for \<open>simp add:\<close>.\<close>

named_theorems mem_simps "reads after writes in the byte memory"
named_theorems result_simps "sequencing of fallible computations"

subsection \<open>Truth values as C stores them\<close>

definition c_bool :: "bool \<Rightarrow> u32" where
  "c_bool b = (if b then 1 else 0)"

lemma c_bool_eq_0 [simp]: "(c_bool b = 0) \<longleftrightarrow> \<not> b"
  by (simp add: c_bool_def)

lemma c_bool_eq_1 [simp]: "(c_bool b = 1) \<longleftrightarrow> b"
  by (simp add: c_bool_def)

subsection \<open>Rounding up to a power of two\<close>

text \<open>
  The macros \<open>ALIGN\<close> of \<open>rtl_memory.c\<close> and \<open>VMA_ALIGN\<close> of \<open>vma.h\<close> are the same
  expression; the addition wraps at 32 bits.
\<close>

definition c_align :: "u32 \<Rightarrow> u32 \<Rightarrow> u32" where
  "c_align x a = (x + a - 1) AND NOT (a - 1)"

lemma and_not_mask_diff: "x AND NOT (mask n) = x - (x AND mask n)" for x :: u32
proof -
  have "x - (x AND mask n) = x AND NOT (x AND mask n)"
    by (rule disjunctive_diff_eq_and_not) (rule bit_word_eqI, auto simp: bit_simps)
  also have "\<dots> = x AND NOT (mask n)"
    by (rule bit_word_eqI) (auto simp: bit_simps)
  finally show ?thesis by simp
qed

lemma unat_and_mask: "unat (x AND mask n) = unat x mod 2 ^ n" for x :: u32
proof -
  have "unat (x AND mask n) = take_bit n (unat x)"
    by (simp only: take_bit_eq_mask [symmetric] unsigned_take_bit_eq)
  then show ?thesis by (simp add: take_bit_eq_mod)
qed

lemma unat_mask_u32:
  assumes "n \<le> 32"
  shows "unat (mask n :: u32) = 2 ^ n - 1"
proof -
  have "unat (mask n :: u32) = take_bit n (unat (- 1 :: u32))"
    by (simp only: take_bit_minus_one_eq_mask [symmetric] unsigned_take_bit_eq)
  also have "\<dots> = take_bit n (mask 32)"
    by (subst unsigned_minus_1_eq_mask) simp
  also have "\<dots> = mask n"
    using assms by (simp only: take_bit_of_mask min_def if_True)
  finally show ?thesis by (simp only: mask_eq_exp_minus_1)
qed

lemma unat_and_not_mask: "unat (x AND NOT (mask n)) = unat x - unat x mod 2 ^ n" for x :: u32
  using word_and_le2 [of x "mask n"] by (simp add: and_not_mask_diff unat_sub unat_and_mask)

lemma unat_add_no_wrap: "unat x + unat y < 2 ^ 32 \<Longrightarrow> unat (x + y) = unat x + unat y" for x y :: u32
  by (simp add: unat_word_ariths)

lemma c_align_mask: "c_align x (2 ^ n) = (x + mask n) AND NOT (mask n)"
  by (simp add: c_align_def mask_eq_decr_exp algebra_simps)

text \<open>Without wrap-around the result is the least multiple of \<open>2 ^ n\<close> not below the argument.\<close>

lemma unat_c_align:
  assumes "unat x + (2 ^ n - 1) < 2 ^ 32" and "n < 32"
  shows "unat (c_align x (2 ^ n)) = (unat x + (2 ^ n - 1)) div 2 ^ n * 2 ^ n"
proof -
  have m: "unat (mask n :: u32) = 2 ^ n - 1"
    using assms(2) by (simp add: unat_mask_u32)
  have "unat (x + mask n) = unat x + (2 ^ n - 1)"
    using assms(1) by (simp add: unat_add_no_wrap m)
  then show ?thesis
    by (simp add: c_align_mask unat_and_not_mask minus_mod_eq_div_mult)
qed

subsection \<open>Small word comparisons the simplifier leaves open\<close>

lemma word_numeral_le_1 [simp]: "(numeral n \<le> (1 :: u32)) \<longleftrightarrow> unat (numeral n :: u32) \<le> 1"
  by (simp add: word_le_nat_alt)

lemma word_numeral_less_1 [simp]: "(numeral n < (1 :: u32)) \<longleftrightarrow> unat (numeral n :: u32) < 1"
  by (simp add: word_less_nat_alt)

subsection \<open>Widening\<close>

lemma unat_ucast16: "unat (ucast w :: u32) = unat w" for w :: u16
proof -
  have "unat w < 2 ^ 16" using unsigned_less [of w, where ?'a = nat] by simp
  then show ?thesis by (simp add: unsigned_ucast_eq take_bit_nat_eq_self)
qed

lemma unat_ucast8: "unat (ucast w :: u32) = unat w" for w :: u8
proof -
  have "unat w < 2 ^ 8" using unsigned_less [of w, where ?'a = nat] by simp
  then show ?thesis by (simp add: unsigned_ucast_eq take_bit_nat_eq_self)
qed

section \<open>Results\<close>

text \<open>
  How a run of the virtual machine can stop: \<open>vm_panic\<close> with its message, the exit system
  call, the processor's divide error, an expression that C leaves undefined (a shift by 32 or
  more), a jump to an address that is no thunk, or a loop of the runtime that does not return.
\<close>

datatype stop =
    Panic string
  | Exit_process u32
  | Divide_error
  | Undefined_shift
  | Wild_call u32
  | Diverges

text \<open>Sequencing: the first stop wins, as \<open>noreturn\<close> calls do.\<close>

definition bind_res :: "'e + 'a \<Rightarrow> ('a \<Rightarrow> 'e + 'b) \<Rightarrow> 'e + 'b" where
  "bind_res r f = (case r of Inl e \<Rightarrow> Inl e | Inr x \<Rightarrow> f x)"

lemma bind_res_simps [simp, result_simps]:
  "bind_res (Inl e) f = Inl e"
  "bind_res (Inr x) f = f x"
  by (simp_all add: bind_res_def)

lemma bind_res_eq_Inr [result_simps]:
  "bind_res r f = Inr y \<longleftrightarrow> (\<exists>x. r = Inr x \<and> f x = Inr y)"
  by (cases r) auto

lemma bind_res_eq_Inl [result_simps]:
  "bind_res r f = Inl e \<longleftrightarrow> r = Inl e \<or> (\<exists>x. r = Inr x \<and> f x = Inl e)"
  by (cases r) auto

lemma bind_res_assoc: "bind_res (bind_res r f) g = bind_res r (\<lambda>x. bind_res (f x) g)"
  by (cases r) auto

lemma bind_res_cong [fundef_cong]:
  "r = r' \<Longrightarrow> (\<And>x. r' = Inr x \<Longrightarrow> f x = g x) \<Longrightarrow> bind_res r f = bind_res r' g"
  by (cases r') auto

text \<open>A loop that does not return stops the machine in \<open>Diverges\<close>.\<close>

definition returns :: "'a option \<Rightarrow> stop + 'a" where
  "returns r = (case r of None \<Rightarrow> Inl Diverges | Some x \<Rightarrow> Inr x)"

lemma returns_simps [simp, result_simps]:
  "returns None = Inl Diverges"
  "returns (Some x) = Inr x"
  by (simp_all add: returns_def)

end
