(* ===== verification/Mette_Memory.thy ===== *)
theory Mette_Memory
  imports Mette_Prelude
begin

text \<open>
  The byte-addressed memory of the process, typed loads and stores as the little-endian
  i386 performs them, the byte routines of \<open>src/sysdep/xstring.c\<close> and the unaligned
  fetches and byte swaps of \<open>src/vm/vm_misc.h\<close>. Every address is readable and writable:
  page protection is not modelled, so each routine comes with the exact set of bytes it
  may change.
\<close>

section \<open>Memory and its regions\<close>

type_synonym memory = "u32 \<Rightarrow> u8"

text \<open>The \<open>n\<close> bytes from \<open>a\<close> on, modulo the size of the address space.\<close>

definition region :: "u32 \<Rightarrow> u32 \<Rightarrow> u32 set" where
  "region a n = {x. x - a < n}"

definition aligned :: "nat \<Rightarrow> u32 \<Rightarrow> bool" where
  "aligned n a \<longleftrightarrow> n dvd unat a"

lemma mem_region: "x \<in> region a n \<longleftrightarrow> x - a < n"
  by (simp add: region_def)

lemma region_empty [simp]: "region a 0 = {}"
  by (simp add: region_def)

section \<open>Typed loads and stores\<close>

definition ld16 :: "memory \<Rightarrow> u32 \<Rightarrow> u16" where
  "ld16 m a = ucast (m a) OR push_bit 8 (ucast (m (a + 1)))"

definition ld32 :: "memory \<Rightarrow> u32 \<Rightarrow> u32" where
  "ld32 m a = ucast (m a) OR push_bit 8 (ucast (m (a + 1)))
     OR push_bit 16 (ucast (m (a + 2))) OR push_bit 24 (ucast (m (a + 3)))"

definition st16 :: "memory \<Rightarrow> u32 \<Rightarrow> u16 \<Rightarrow> memory" where
  "st16 m a v = m(a := ucast v, a + 1 := ucast (drop_bit 8 v))"

definition st32 :: "memory \<Rightarrow> u32 \<Rightarrow> u32 \<Rightarrow> memory" where
  "st32 m a v = m(a := ucast v, a + 1 := ucast (drop_bit 8 v),
     a + 2 := ucast (drop_bit 16 v), a + 3 := ucast (drop_bit 24 v))"

lemma word_less_few:
  "y < (2::u32) \<longleftrightarrow> y = 0 \<or> y = 1"
  "y < (4::u32) \<longleftrightarrow> y = 0 \<or> y = 1 \<or> y = 2 \<or> y = 3"
  by (auto simp: word_less_nat_alt word_unat_eq_iff)

lemma offset_cases:
  "x - a < (2::u32) \<longleftrightarrow> x = a \<or> x = a + 1"
  "x - a < (4::u32) \<longleftrightarrow> x = a \<or> x = a + 1 \<or> x = a + 2 \<or> x = a + 3"
  by (simp_all add: word_less_few diff_eq_eq add.commute)

lemma ld16_st16 [simp, mem_simps]: "ld16 (st16 m a v) a = v"
  unfolding ld16_def st16_def by (rule bit_word_eqI) (auto simp: bit_simps)

lemma ld32_st32 [simp, mem_simps]: "ld32 (st32 m a v) a = v"
proof (rule bit_word_eqI)
  fix n assume "n < LENGTH(32)"
  then have "n < 8 \<or> (8 \<le> n \<and> n < 16) \<or> (16 \<le> n \<and> n < 24) \<or> (24 \<le> n \<and> n < 32)" by auto
  then show "bit (ld32 (st32 m a v) a) n = bit v n"
    by (elim disjE) (auto simp: ld32_def st32_def bit_simps)
qed

lemma st16_frame [mem_simps]: "x \<notin> region a 2 \<Longrightarrow> st16 m a v x = m x"
  by (simp add: st16_def mem_region offset_cases)

lemma st32_frame [mem_simps]: "x \<notin> region a 4 \<Longrightarrow> st32 m a v x = m x"
  by (simp add: st32_def mem_region offset_cases)

lemma ld16_cong: "(\<And>x. x \<in> region a 2 \<Longrightarrow> m x = m' x) \<Longrightarrow> ld16 m a = ld16 m' a"
  by (simp add: ld16_def mem_region offset_cases)

lemma ld32_cong: "(\<And>x. x \<in> region a 4 \<Longrightarrow> m x = m' x) \<Longrightarrow> ld32 m a = ld32 m' a"
  by (simp add: ld32_def mem_region offset_cases)

lemma ld32_st32_disjoint [mem_simps]:
  "region a 4 \<inter> region b 4 = {} \<Longrightarrow> ld32 (st32 m a v) b = ld32 m b"
  by (rule ld32_cong, rule st32_frame) blast

lemma aligned_diff_dvd: "aligned n a \<Longrightarrow> aligned n b \<Longrightarrow> n dvd 2 ^ 32 \<Longrightarrow> n dvd unat (a - b)"
  by (auto simp: aligned_def unat_sub_if_size word_size intro!: dvd_diff_nat dvd_add)

lemma aligned_regions_disjoint:
  assumes "aligned 4 a" "aligned 4 b" "a \<noteq> b"
  shows "region a 4 \<inter> region b 4 = {}"
proof -
  have "4 dvd unat (a - b)" using assms(1,2) by (rule aligned_diff_dvd) simp
  moreover have "4 dvd unat (b - a)" using assms(2,1) by (rule aligned_diff_dvd) simp
  moreover have "unat (a - b) \<noteq> 0" "unat (b - a) \<noteq> 0" using assms(3) by (auto simp: unat_eq_0)
  ultimately have "\<not> a - b < 4" "\<not> b - a < 4" by (auto simp: word_less_nat_alt dest!: dvd_imp_le)
  then show ?thesis unfolding region_def by (auto simp: offset_cases)
qed

lemma aligned_add4: "aligned 4 a \<Longrightarrow> aligned 4 (a + 4 * w)"
  by (auto simp: aligned_def unat_word_ariths intro!: dvd_mod dvd_add)

section \<open>Byte routines: \<open>sysdep/xstring.c\<close>\<close>

text \<open>
  The three loops, one byte per round. \<open>xmemcpy\<close> and \<open>xmemset\<close> return \<open>dest\<close>, which
  every caller ignores; the models give the memory they leave. \<open>count--\<close> runs the body
  \<open>count\<close> times.
\<close>

primrec memcpy_loop :: "nat \<Rightarrow> memory \<Rightarrow> u32 \<Rightarrow> u32 \<Rightarrow> memory" where
  "memcpy_loop 0 m d s = m"
| "memcpy_loop (Suc n) m d s = memcpy_loop n (m(d := m s)) (d + 1) (s + 1)"

definition xmemcpy :: "memory \<Rightarrow> u32 \<Rightarrow> u32 \<Rightarrow> u32 \<Rightarrow> memory" where
  "xmemcpy m dest src count = memcpy_loop (unat count) m dest src"

primrec memset_loop :: "nat \<Rightarrow> memory \<Rightarrow> u32 \<Rightarrow> u8 \<Rightarrow> memory" where
  "memset_loop 0 m d c = m"
| "memset_loop (Suc n) m d c = memset_loop n (m(d := c)) (d + 1) c"

definition xmemset :: "memory \<Rightarrow> u32 \<Rightarrow> u32 \<Rightarrow> u32 \<Rightarrow> memory" where
  "xmemset m dest c count = memset_loop (unat count) m dest (ucast c)"

text \<open>\<open>while (*ptr++);\<close> leaves \<open>ptr\<close> one past the terminator.\<close>

partial_function (option) strlen_scan :: "memory \<Rightarrow> u32 \<Rightarrow> u32 option" where
  "strlen_scan m ptr = (if m ptr = 0 then Some (ptr + 1) else strlen_scan m (ptr + 1))"

definition xstrlen :: "memory \<Rightarrow> u32 \<Rightarrow> u32 option" where
  "xstrlen m str = map_option (\<lambda>ptr. ptr - str) (strlen_scan m str)"

subsection \<open>Byte strings in memory\<close>

primrec bytes_at :: "memory \<Rightarrow> u32 \<Rightarrow> u8 list \<Rightarrow> bool" where
  "bytes_at m a [] \<longleftrightarrow> True"
| "bytes_at m a (x # xs) \<longleftrightarrow> m a = x \<and> bytes_at m (a + 1) xs"

primrec read_bytes :: "memory \<Rightarrow> u32 \<Rightarrow> nat \<Rightarrow> u8 list" where
  "read_bytes m a 0 = []"
| "read_bytes m a (Suc n) = m a # read_bytes m (a + 1) n"

primrec write_bytes :: "memory \<Rightarrow> u32 \<Rightarrow> u8 list \<Rightarrow> memory" where
  "write_bytes m a [] = m"
| "write_bytes m a (x # xs) = write_bytes (m(a := x)) (a + 1) xs"

text \<open>A C string: non-zero bytes, then a zero byte.\<close>

definition cstring_at :: "memory \<Rightarrow> u32 \<Rightarrow> u8 list \<Rightarrow> bool" where
  "cstring_at m a xs \<longleftrightarrow> 0 \<notin> set xs \<and> bytes_at m a (xs @ [0])"

lemma length_read_bytes [simp]: "length (read_bytes m a n) = n"
  by (induction n arbitrary: a) auto

lemma read_bytes_nth: "i < n \<Longrightarrow> read_bytes m a n ! i = m (a + of_nat i)"
proof (induction n arbitrary: a i)
  case (Suc n)
  then show ?case by (cases i) (auto simp: algebra_simps)
qed simp

lemma bytes_at_iff: "bytes_at m a xs \<longleftrightarrow> (\<forall>i < length xs. m (a + of_nat i) = xs ! i)"
proof (induction xs arbitrary: a)
  case (Cons x xs)
  show ?case
    unfolding bytes_at.simps Cons.IH length_Cons All_less_Suc2
    by (simp add: algebra_simps)
qed simp

lemma bytes_at_append: "bytes_at m a (xs @ ys) \<longleftrightarrow> bytes_at m a xs \<and> bytes_at m (a + of_nat (length xs)) ys"
  by (induction xs arbitrary: a) (auto simp: algebra_simps)

lemma bytes_at_read: "bytes_at m a xs \<longleftrightarrow> read_bytes m a (length xs) = xs"
  by (auto simp: bytes_at_iff read_bytes_nth list_eq_iff_nth_eq)

lemma offset_region: "x - a = of_nat i \<longleftrightarrow> x = a + of_nat i" for x a :: u32
  by (auto simp: algebra_simps)

lemma region_iff: "x \<in> region a n \<longleftrightarrow> (\<exists>i < unat n. x = a + of_nat i)"
proof
  assume "x \<in> region a n"
  then have "unat (x - a) < unat n" and "x = a + of_nat (unat (x - a))"
    by (auto simp: mem_region word_less_nat_alt)
  then show "\<exists>i < unat n. x = a + of_nat i" by blast
next
  assume "\<exists>i < unat n. x = a + of_nat i"
  then obtain i where i: "i < unat n" "x = a + of_nat i" by blast
  have "i < 2 ^ 32" using i(1) unsigned_less [of n, where ?'a = nat] by simp
  then show "x \<in> region a n" using i by (simp add: mem_region word_less_nat_alt unat_of_nat)
qed

lemma region_unat:
  assumes "unat a + unat n \<le> 2 ^ 32"
  shows "x \<in> region a n \<longleftrightarrow> unat a \<le> unat x \<and> unat x < unat a + unat n"
proof
  assume "x \<in> region a n"
  then obtain i where i: "i < unat n" "x = a + of_nat i" by (auto simp: region_iff)
  then have "unat (of_nat i :: u32) = i" using unsigned_less [of n, where ?'a = nat] by (simp add: unat_of_nat)
  then have "unat x = unat a + i" using i assms by (simp add: unat_add_no_wrap)
  with i show "unat a \<le> unat x \<and> unat x < unat a + unat n" by simp
next
  assume "unat a \<le> unat x \<and> unat x < unat a + unat n"
  moreover from this have "unat (x - a) = unat x - unat a" by (simp add: unat_sub word_le_nat_alt)
  ultimately show "x \<in> region a n"
    unfolding mem_region word_less_nat_alt by linarith
qed

subsection \<open>What the loops compute\<close>

lemma write_bytes_frame: "(\<And>i. i < length xs \<Longrightarrow> x \<noteq> a + of_nat i) \<Longrightarrow> write_bytes m a xs x = m x"
proof (induction xs arbitrary: m a)
  case (Cons y ys)
  have "x \<noteq> a" using Cons.prems [of 0] by simp
  moreover have "x \<noteq> a + 1 + of_nat i" if "i < length ys" for i
    using Cons.prems [of "Suc i"] that by (simp add: algebra_simps)
  ultimately show ?case by (simp add: Cons.IH)
qed simp

lemma write_bytes_nth:
  "length xs \<le> 2 ^ 32 \<Longrightarrow> i < length xs \<Longrightarrow> write_bytes m a xs (a + of_nat i) = xs ! i"
proof (induction xs arbitrary: m a i)
  case (Cons y ys)
  show ?case
  proof (cases i)
    case 0
    have "a \<noteq> a + 1 + of_nat j" if "j < length ys" for j
    proof
      assume "a = a + 1 + of_nat j"
      then have "of_nat (Suc j) = (0 :: u32)" by simp
      then have "2 ^ 32 dvd Suc j" by (simp only: word_of_nat_eq_0_iff) simp
      with that Cons.prems(1) show False by (auto dest: dvd_imp_le)
    qed
    then show ?thesis using 0 by (simp add: write_bytes_frame)
  next
    case (Suc j)
    have "write_bytes (m(a := y)) (a + 1) ys (a + 1 + of_nat j) = ys ! j"
      using Suc Cons.prems by (intro Cons.IH) auto
    then show ?thesis using Suc by (simp add: add.assoc)
  qed
qed simp

lemma bytes_at_write: "length xs \<le> 2 ^ 32 \<Longrightarrow> bytes_at (write_bytes m a xs) a xs"
  by (simp add: bytes_at_iff write_bytes_nth)

lemma memset_loop_write: "memset_loop n m d c = write_bytes m d (replicate n c)"
  by (induction n arbitrary: m d) auto

text \<open>Copying to a place that no later source byte is read from is one block write.\<close>

lemma memcpy_loop_write:
  assumes "\<And>i j. i < n \<Longrightarrow> j < n \<Longrightarrow> i < j \<Longrightarrow> d + of_nat i \<noteq> s + of_nat j"
  shows "memcpy_loop n m d s = write_bytes m d (read_bytes m s n)"
  using assms
proof (induction n arbitrary: m d s)
  case (Suc n)
  have "memcpy_loop n (m(d := m s)) (d + 1) (s + 1)
      = write_bytes (m(d := m s)) (d + 1) (read_bytes (m(d := m s)) (s + 1) n)"
    using Suc.prems [of "Suc _" "Suc _"] by (intro Suc.IH) (simp add: algebra_simps)
  moreover have "read_bytes (m(d := m s)) (s + 1) n = read_bytes m (s + 1) n"
    using Suc.prems [of 0 "Suc _"] by (auto simp: list_eq_iff_nth_eq read_bytes_nth algebra_simps)
  ultimately show ?case by simp
qed simp

lemma strlen_scan_cstring:
  "0 \<notin> set xs \<Longrightarrow> bytes_at m a (xs @ [0]) \<Longrightarrow> strlen_scan m a = Some (a + of_nat (length xs) + 1)"
proof (induction xs arbitrary: a)
  case Nil
  then show ?case by (simp add: strlen_scan.simps)
next
  case (Cons x xs)
  then show ?case by (simp add: strlen_scan.simps [of m a] algebra_simps)
qed

section \<open>Unaligned fetches and byte swaps: \<open>vm/vm_misc.h\<close>\<close>

text \<open>Both preprocessor branches; \<open>be\<close> is \<open>TARGET_IS_BE\<close>.\<close>

definition vm_fetch16_ua :: "bool \<Rightarrow> memory \<Rightarrow> u32 \<Rightarrow> u16" where
  "vm_fetch16_ua be m a =
     (if \<not> be then ucast (m a) OR push_bit 8 (ucast (m (a + 1)))
      else ucast (m (a + 1)) OR push_bit 8 (ucast (m a)))"

definition vm_fetch32_ua :: "bool \<Rightarrow> memory \<Rightarrow> u32 \<Rightarrow> u32" where
  "vm_fetch32_ua be m a =
     (if \<not> be then ucast (m a) OR push_bit 8 (ucast (m (a + 1)))
          OR push_bit 16 (ucast (m (a + 2))) OR push_bit 24 (ucast (m (a + 3)))
      else ucast (m (a + 3)) OR push_bit 8 (ucast (m (a + 2)))
          OR push_bit 16 (ucast (m (a + 1))) OR push_bit 24 (ucast (m a)))"

definition vm_bswap16 :: "u16 \<Rightarrow> u16" where
  "vm_bswap16 v = drop_bit 8 (v AND 0xff00) OR push_bit 8 (v AND 0x00ff)"

definition vm_bswap32 :: "u32 \<Rightarrow> u32" where
  "vm_bswap32 v = drop_bit 24 (v AND 0xff000000) OR drop_bit 8 (v AND 0x00ff0000)
     OR push_bit 8 (v AND 0x0000ff00) OR push_bit 24 (v AND 0x000000ff)"

lemma vm_fetch16_ld16: "vm_fetch16_ua False m a = ld16 m a"
  by (simp add: vm_fetch16_ua_def ld16_def)

lemma vm_fetch32_ld32: "vm_fetch32_ua False m a = ld32 m a"
  by (simp add: vm_fetch32_ua_def ld32_def)

end
