(* ===== verification/Mette_Machine.thy ===== *)
theory Mette_Machine
  imports Mette_Memory
begin

text \<open>
  The process state the runtime works on, the kernel entry of \<open>src/sysdep/syscalls-i386.c\<close>
  and the system calls the virtual machine uses. The kernel itself is a parameter: one
  function from a call number, its register arguments, the memory and the kernel's own state
  to the value left in \<open>eax\<close>, the memory and the new kernel state.
\<close>

section \<open>Machine state\<close>

text \<open>
  The fields other than \<open>mem\<close> and \<open>kern\<close> are the global variables of
  \<open>rtl_memory.c\<close> (\<open>free_anchor\<close>, \<open>first_slot\<close>, \<open>arena_brk\<close>) and \<open>syscalls.c\<close>
  (\<open>sys_errno\<close>).
\<close>

record 'k machine =
  mem :: memory
  free_anchor :: u32
  first_slot :: u32
  arena_brk :: u32
  sys_errno :: u32
  kern :: 'k

type_synonym 'k kernel = "u32 \<Rightarrow> u32 list \<Rightarrow> memory \<times> 'k \<Rightarrow> u32 \<times> memory \<times> 'k"

section \<open>The kernel entry\<close>

text \<open>
  \<open>cmpl $-4095, %eax; jb noerror\<close>: results from \<open>-4095\<close> on are error numbers, stored
  negated in \<open>sys_errno\<close>, and the call returns \<open>-1\<close>.
\<close>

definition real_syscall :: "'k kernel \<Rightarrow> u32 \<Rightarrow> u32 list \<Rightarrow> 'k machine \<Rightarrow> u32 \<times> 'k machine" where
  "real_syscall K nr args s =
     (case K nr args (mem s, kern s) of
        (eax, m, k) \<Rightarrow>
          let s' = s\<lparr>mem := m, kern := k\<rparr>
          in if eax < - 4095 then (eax, s') else (- 1, s'\<lparr>sys_errno := - eax\<rparr>))"

text \<open>The calls in use, with the numbers of \<open>syscalls-i386.h\<close>.\<close>

definition sys_brk :: "'k kernel \<Rightarrow> u32 \<Rightarrow> 'k machine \<Rightarrow> u32 \<times> 'k machine" where
  "sys_brk K addr = real_syscall K 45 [addr]"

definition sys_open :: "'k kernel \<Rightarrow> u32 \<Rightarrow> u32 \<Rightarrow> u32 \<Rightarrow> 'k machine \<Rightarrow> u32 \<times> 'k machine" where
  "sys_open K path flags mode = real_syscall K 5 [path, flags, mode]"

definition sys_read :: "'k kernel \<Rightarrow> u32 \<Rightarrow> u32 \<Rightarrow> u32 \<Rightarrow> 'k machine \<Rightarrow> u32 \<times> 'k machine" where
  "sys_read K fd buf count = real_syscall K 3 [fd, buf, count]"

definition sys_write :: "'k kernel \<Rightarrow> u32 \<Rightarrow> u32 \<Rightarrow> u32 \<Rightarrow> 'k machine \<Rightarrow> u32 \<times> 'k machine" where
  "sys_write K fd buf count = real_syscall K 4 [fd, buf, count]"

definition sys_close :: "'k kernel \<Rightarrow> u32 \<Rightarrow> 'k machine \<Rightarrow> u32 \<times> 'k machine" where
  "sys_close K fd = real_syscall K 6 [fd]"

definition sys_lseek :: "'k kernel \<Rightarrow> u32 \<Rightarrow> u32 \<Rightarrow> u32 \<Rightarrow> 'k machine \<Rightarrow> u32 \<times> 'k machine" where
  "sys_lseek K fd off origin = real_syscall K 19 [fd, off, origin]"

text \<open>\<open>__NR_mmap\<close> is patched to \<open>mmap2\<close>.\<close>

definition sys_mmap :: "'k kernel \<Rightarrow> u32 \<Rightarrow> u32 \<Rightarrow> u32 \<Rightarrow> u32 \<Rightarrow> u32 \<Rightarrow> u32 \<Rightarrow> 'k machine \<Rightarrow> u32 \<times> 'k machine" where
  "sys_mmap K addr len prot flags fd off = real_syscall K 192 [addr, len, prot, flags, fd, off]"

definition sys_exit :: "u32 \<Rightarrow> stop + 'a" where
  "sys_exit code = Inl (Exit_process code)"

definition sys_exit_group :: "u32 \<Rightarrow> stop + 'a" where
  "sys_exit_group code = Inl (Exit_process code)"

definition sys_fork :: "'k kernel \<Rightarrow> u32 \<Rightarrow> 'k machine \<Rightarrow> u32 \<times> 'k machine" where
  "sys_fork K regs = real_syscall K 2 [regs]"

definition sys_getpid :: "'k kernel \<Rightarrow> 'k machine \<Rightarrow> u32 \<times> 'k machine" where
  "sys_getpid K = real_syscall K 20 []"

definition sys_unlink :: "'k kernel \<Rightarrow> u32 \<Rightarrow> 'k machine \<Rightarrow> u32 \<times> 'k machine" where
  "sys_unlink K path = real_syscall K 10 [path]"

definition sys_chmod :: "'k kernel \<Rightarrow> u32 \<Rightarrow> u32 \<Rightarrow> 'k machine \<Rightarrow> u32 \<times> 'k machine" where
  "sys_chmod K path mode = real_syscall K 15 [path, mode]"

definition sys_mkdir :: "'k kernel \<Rightarrow> u32 \<Rightarrow> u32 \<Rightarrow> 'k machine \<Rightarrow> u32 \<times> 'k machine" where
  "sys_mkdir K path mode = real_syscall K 39 [path, mode]"

definition sys_rmdir :: "'k kernel \<Rightarrow> u32 \<Rightarrow> 'k machine \<Rightarrow> u32 \<times> 'k machine" where
  "sys_rmdir K path = real_syscall K 40 [path]"

definition sys_flock :: "'k kernel \<Rightarrow> u32 \<Rightarrow> u32 \<Rightarrow> 'k machine \<Rightarrow> u32 \<times> 'k machine" where
  "sys_flock K fd cmd = real_syscall K 143 [fd, cmd]"

definition sys_ioctl :: "'k kernel \<Rightarrow> u32 \<Rightarrow> u32 \<Rightarrow> u32 \<Rightarrow> 'k machine \<Rightarrow> u32 \<times> 'k machine" where
  "sys_ioctl K fd cmd arg = real_syscall K 54 [fd, cmd, arg]"

definition sys_fcntl :: "'k kernel \<Rightarrow> u32 \<Rightarrow> u32 \<Rightarrow> u32 \<Rightarrow> 'k machine \<Rightarrow> u32 \<times> 'k machine" where
  "sys_fcntl K fd cmd arg = real_syscall K 55 [fd, cmd, arg]"

definition sys_newselect :: "'k kernel \<Rightarrow> u32 \<Rightarrow> u32 \<Rightarrow> u32 \<Rightarrow> u32 \<Rightarrow> u32 \<Rightarrow> 'k machine \<Rightarrow> u32 \<times> 'k machine" where
  "sys_newselect K n inp outp excp tvp = real_syscall K 142 [n, inp, outp, excp, tvp]"

definition sys_munmap :: "'k kernel \<Rightarrow> u32 \<Rightarrow> u32 \<Rightarrow> 'k machine \<Rightarrow> u32 \<times> 'k machine" where
  "sys_munmap K addr len = real_syscall K 91 [addr, len]"

definition sys_time :: "'k kernel \<Rightarrow> u32 \<Rightarrow> 'k machine \<Rightarrow> u32 \<times> 'k machine" where
  "sys_time K tloc = real_syscall K 13 [tloc]"

subsection \<open>Socket calls\<close>

text \<open>
  A socket call has the one number 102; its own number is in \<open>ebx\<close> and \<open>ecx\<close> points to the
  C arguments, which are on the stack at \<open>argp\<close>. The error convention is that of \<open>real_syscall\<close>.
\<close>

primrec put_args :: "memory \<Rightarrow> u32 \<Rightarrow> u32 list \<Rightarrow> memory" where
  "put_args m argp [] = m"
| "put_args m argp (w # ws) = put_args (st32 m argp w) (argp + 4) ws"

definition socketcall :: "'k kernel \<Rightarrow> u32 \<Rightarrow> u32 \<Rightarrow> u32 list \<Rightarrow> 'k machine \<Rightarrow> u32 \<times> 'k machine" where
  "socketcall K argp nr args s = real_syscall K 102 [nr, argp] (s\<lparr>mem := put_args (mem s) argp args\<rparr>)"

definition sys_socket :: "'k kernel \<Rightarrow> u32 \<Rightarrow> u32 \<Rightarrow> u32 \<Rightarrow> u32 \<Rightarrow> 'k machine \<Rightarrow> u32 \<times> 'k machine" where
  "sys_socket K argp domain type proto = socketcall K argp 1 [domain, type, proto]"

definition sys_bind :: "'k kernel \<Rightarrow> u32 \<Rightarrow> u32 \<Rightarrow> u32 \<Rightarrow> u32 \<Rightarrow> 'k machine \<Rightarrow> u32 \<times> 'k machine" where
  "sys_bind K argp fd addr addrlen = socketcall K argp 2 [fd, addr, addrlen]"

definition sys_connect :: "'k kernel \<Rightarrow> u32 \<Rightarrow> u32 \<Rightarrow> u32 \<Rightarrow> u32 \<Rightarrow> 'k machine \<Rightarrow> u32 \<times> 'k machine" where
  "sys_connect K argp fd addr addrlen = socketcall K argp 3 [fd, addr, addrlen]"

definition sys_listen :: "'k kernel \<Rightarrow> u32 \<Rightarrow> u32 \<Rightarrow> u32 \<Rightarrow> 'k machine \<Rightarrow> u32 \<times> 'k machine" where
  "sys_listen K argp fd backlog = socketcall K argp 4 [fd, backlog]"

definition sys_accept :: "'k kernel \<Rightarrow> u32 \<Rightarrow> u32 \<Rightarrow> u32 \<Rightarrow> u32 \<Rightarrow> 'k machine \<Rightarrow> u32 \<times> 'k machine" where
  "sys_accept K argp fd addr addrlen = socketcall K argp 5 [fd, addr, addrlen]"

definition sys_getsockname :: "'k kernel \<Rightarrow> u32 \<Rightarrow> u32 \<Rightarrow> u32 \<Rightarrow> u32 \<Rightarrow> 'k machine \<Rightarrow> u32 \<times> 'k machine" where
  "sys_getsockname K argp fd addr addrlen = socketcall K argp 6 [fd, addr, addrlen]"

definition sys_getpeername :: "'k kernel \<Rightarrow> u32 \<Rightarrow> u32 \<Rightarrow> u32 \<Rightarrow> u32 \<Rightarrow> 'k machine \<Rightarrow> u32 \<times> 'k machine" where
  "sys_getpeername K argp fd addr addrlen = socketcall K argp 7 [fd, addr, addrlen]"

definition sys_send :: "'k kernel \<Rightarrow> u32 \<Rightarrow> u32 \<Rightarrow> u32 \<Rightarrow> u32 \<Rightarrow> u32 \<Rightarrow> 'k machine \<Rightarrow> u32 \<times> 'k machine" where
  "sys_send K argp fd buf len flags = socketcall K argp 9 [fd, buf, len, flags]"

definition sys_recv :: "'k kernel \<Rightarrow> u32 \<Rightarrow> u32 \<Rightarrow> u32 \<Rightarrow> u32 \<Rightarrow> u32 \<Rightarrow> 'k machine \<Rightarrow> u32 \<times> 'k machine" where
  "sys_recv K argp fd buf len flags = socketcall K argp 10 [fd, buf, len, flags]"

definition sys_sendto :: "'k kernel \<Rightarrow> u32 \<Rightarrow> u32 \<Rightarrow> u32 \<Rightarrow> u32 \<Rightarrow> u32 \<Rightarrow> u32 \<Rightarrow> u32 \<Rightarrow> 'k machine \<Rightarrow> u32 \<times> 'k machine" where
  "sys_sendto K argp fd buf len flags addr addrlen = socketcall K argp 11 [fd, buf, len, flags, addr, addrlen]"

definition sys_recvfrom :: "'k kernel \<Rightarrow> u32 \<Rightarrow> u32 \<Rightarrow> u32 \<Rightarrow> u32 \<Rightarrow> u32 \<Rightarrow> u32 \<Rightarrow> u32 \<Rightarrow> 'k machine \<Rightarrow> u32 \<times> 'k machine" where
  "sys_recvfrom K argp fd buf len flags addr addrlen = socketcall K argp 12 [fd, buf, len, flags, addr, addrlen]"

definition sys_shutdown :: "'k kernel \<Rightarrow> u32 \<Rightarrow> u32 \<Rightarrow> u32 \<Rightarrow> 'k machine \<Rightarrow> u32 \<times> 'k machine" where
  "sys_shutdown K argp fd how = socketcall K argp 13 [fd, how]"

definition sys_setsockopt :: "'k kernel \<Rightarrow> u32 \<Rightarrow> u32 \<Rightarrow> u32 \<Rightarrow> u32 \<Rightarrow> u32 \<Rightarrow> u32 \<Rightarrow> 'k machine \<Rightarrow> u32 \<times> 'k machine" where
  "sys_setsockopt K argp fd level name val len = socketcall K argp 14 [fd, level, name, val, len]"

definition sys_getsockopt :: "'k kernel \<Rightarrow> u32 \<Rightarrow> u32 \<Rightarrow> u32 \<Rightarrow> u32 \<Rightarrow> u32 \<Rightarrow> u32 \<Rightarrow> 'k machine \<Rightarrow> u32 \<times> 'k machine" where
  "sys_getsockopt K argp fd level name val len = socketcall K argp 15 [fd, level, name, val, len]"

subsection \<open>The error convention\<close>

lemma real_syscall_ok:
  "K nr args (mem s, kern s) = (eax, m, k) \<Longrightarrow> eax < - 4095
     \<Longrightarrow> real_syscall K nr args s = (eax, s\<lparr>mem := m, kern := k\<rparr>)"
  by (simp add: real_syscall_def)

lemma real_syscall_error:
  "K nr args (mem s, kern s) = (eax, m, k) \<Longrightarrow> - 4095 \<le> eax
     \<Longrightarrow> real_syscall K nr args s = (- 1, s\<lparr>mem := m, kern := k, sys_errno := - eax\<rparr>)"
  by (simp add: real_syscall_def not_less [symmetric] Let_def)

lemma real_syscall_globals:
  "real_syscall K nr args s = (r, s') \<Longrightarrow>
     free_anchor s' = free_anchor s \<and> first_slot s' = first_slot s \<and> arena_brk s' = arena_brk s"
  by (auto simp: real_syscall_def Let_def split: prod.splits if_splits)

end
