(* ===== verification/Mette_Heap.thy ===== *)
theory Mette_Heap
  imports Mette_Machine
begin

text \<open>
  The allocator of \<open>src/rtl/rtl_memory.c\<close>. The arena between \<open>first_slot\<close> and
  \<open>arena_brk\<close> is a chain of slots; each slot starts with an 8-byte header in memory, the
  address of the next slot and, for free slots, the next free slot. The free list hangs off
  \<open>free_anchor\<close> and is sorted by address. The \<open>DBGPRINT\<close> traces are not modelled.
\<close>

section \<open>Headers\<close>

text \<open>\<open>UNIT_SIZE\<close> is \<open>sizeof(struct slot) = 8\<close>; pointers to slots move in steps of 8.\<close>

definition next_slot :: "memory \<Rightarrow> u32 \<Rightarrow> u32" where
  "next_slot m p = ld32 m p"

definition next_free :: "memory \<Rightarrow> u32 \<Rightarrow> u32" where
  "next_free m p = ld32 m (p + 4)"

definition set_next_slot :: "u32 \<Rightarrow> u32 \<Rightarrow> 'k machine \<Rightarrow> 'k machine" where
  "set_next_slot p v s = s\<lparr>mem := st32 (mem s) p v\<rparr>"

definition set_next_free :: "u32 \<Rightarrow> u32 \<Rightarrow> 'k machine \<Rightarrow> 'k machine" where
  "set_next_free p v s = s\<lparr>mem := st32 (mem s) (p + 4) v\<rparr>"

section \<open>Growing the arena\<close>

definition xmem_grow :: "'k kernel \<Rightarrow> u32 \<Rightarrow> u32 \<Rightarrow> 'k machine \<Rightarrow> bool \<times> 'k machine" where
  "xmem_grow K units last_free s =
     (let s = (if arena_brk s = 0
               then (case sys_brk K 0 s of (b, s) \<Rightarrow>
                       s\<lparr>arena_brk := c_align b 4096, first_slot := c_align b 4096\<rparr>)
               else s);
          new_slot = arena_brk s;
          new_brk = arena_brk s + c_align (units * 8) 4096
      in case sys_brk K new_brk s of (new_arena_brk, s) \<Rightarrow>
         if new_slot = new_arena_brk then (False, s)
         else if new_brk \<noteq> new_arena_brk then (False, s)
         else let s = s\<lparr>arena_brk := new_arena_brk\<rparr>
              in if last_free \<noteq> 0 then (True, set_next_slot last_free new_slot s)
                 else (True, (set_next_free new_slot 0 (set_next_slot new_slot new_arena_brk s))
                               \<lparr>free_anchor := new_slot\<rparr>))"

section \<open>\<open>rtl_alloc\<close>\<close>

definition slot_units :: "u32 \<Rightarrow> u32" where
  "slot_units sz = c_align sz 8 div 8 + 1"

text \<open>Splitting a slot that is big enough, and taking it off the free list.\<close>

definition relink :: "u32 \<Rightarrow> u32 \<Rightarrow> 'k machine \<Rightarrow> 'k machine" where
  "relink prev_free v s = (if prev_free \<noteq> 0 then set_next_free prev_free v s else s\<lparr>free_anchor := v\<rparr>)"

definition alloc_split :: "u32 \<Rightarrow> u32 \<Rightarrow> 'k machine \<Rightarrow> 'k machine" where
  "alloc_split new_slot curr_free s =
     (if next_slot (mem s) curr_free > new_slot + 8
      then let s = set_next_slot new_slot (next_slot (mem s) curr_free) s;
               s = set_next_free new_slot (next_free (mem s) curr_free) s;
               s = set_next_slot curr_free new_slot s
           in set_next_free curr_free new_slot s
      else s)"

definition alloc_take :: "u32 \<Rightarrow> u32 \<Rightarrow> u32 \<Rightarrow> 'k machine \<Rightarrow> 'k machine" where
  "alloc_take new_slot prev_free curr_free s =
     (let s = alloc_split new_slot curr_free s;
          s = relink prev_free (next_free (mem s) curr_free) s
      in set_next_free curr_free 0 s)"

text \<open>How the walk over the free list ends: a result, an address overflow, or the last free slot.\<close>

datatype walk = Took u32 | Overflow | Exhausted u32

partial_function (option) alloc_walk ::
  "u32 \<Rightarrow> u32 \<Rightarrow> u32 \<Rightarrow> 'k machine \<Rightarrow> (walk \<times> 'k machine) option" where
  "alloc_walk units prev_free curr_free s =
     (if curr_free = 0 then Some (Exhausted prev_free, s)
      else let new_slot = curr_free + 8 * units
           in if new_slot \<le> curr_free then Some (Overflow, s)
              else if next_slot (mem s) curr_free < new_slot
              then alloc_walk units curr_free (next_free (mem s) curr_free) s
              else Some (Took (curr_free + 8), alloc_take new_slot prev_free curr_free s))"

partial_function (option) alloc_loop ::
  "'k kernel \<Rightarrow> u32 \<Rightarrow> 'k machine \<Rightarrow> (u32 \<times> 'k machine) option" where
  "alloc_loop K units s =
     (case alloc_walk units 0 (free_anchor s) s of
        None \<Rightarrow> None
      | Some (w, s) \<Rightarrow>
          (case w of
             Took ptr \<Rightarrow> Some (ptr, s)
           | Overflow \<Rightarrow> Some (0, s)
           | Exhausted prev_free \<Rightarrow>
               (case xmem_grow K units prev_free s of (grown, s) \<Rightarrow>
                  if grown then alloc_loop K units s else Some (0, s))))"

definition rtl_alloc :: "'k kernel \<Rightarrow> u32 \<Rightarrow> 'k machine \<Rightarrow> (u32 \<times> 'k machine) option" where
  "rtl_alloc K sz s =
     (let units = slot_units sz
      in if units > 0xFFFFFF then Some (0, s) else alloc_loop K units s)"

section \<open>\<open>rtl_free\<close>\<close>

partial_function (option) free_walk :: "memory \<Rightarrow> u32 \<Rightarrow> u32 \<Rightarrow> u32 \<Rightarrow> (u32 \<times> u32) option" where
  "free_walk m this prev_free next_free' =
     (if next_free' \<noteq> 0 \<and> next_free' < this
      then free_walk m this next_free' (next_free m next_free')
      else Some (prev_free, next_free'))"

definition merge_up :: "u32 \<Rightarrow> u32 \<Rightarrow> 'k machine \<Rightarrow> u32 \<times> 'k machine" where
  "merge_up prev_free this s =
     (if prev_free \<noteq> 0
      then let s = set_next_free prev_free this s
           in if next_slot (mem s) prev_free = this
              then (prev_free, set_next_slot prev_free (next_slot (mem s) this) s)
              else (this, s)
      else (this, s\<lparr>free_anchor := this\<rparr>))"

definition merge_down :: "u32 \<Rightarrow> u32 \<Rightarrow> 'k machine \<Rightarrow> 'k machine" where
  "merge_down this next_free' s =
     (let s = set_next_free this next_free' s
      in if next_free' \<noteq> 0 \<and> next_slot (mem s) this = next_free'
         then let s = set_next_slot this (next_slot (mem s) next_free') s
              in set_next_free this (next_free (mem s) next_free') s
         else s)"

definition rtl_free :: "u32 \<Rightarrow> 'k machine \<Rightarrow> 'k machine option" where
  "rtl_free ptr s =
     (let this = ptr - 8
      in if ptr = 0 then Some s
         else case free_walk (mem s) this 0 (free_anchor s) of
                None \<Rightarrow> None
              | Some (prev_free, next_free') \<Rightarrow>
                  (case merge_up prev_free this s of (this, s) \<Rightarrow> Some (merge_down this next_free' s)))"

section \<open>\<open>rtl_realloc\<close>\<close>

partial_function (option) realloc_walk :: "u32 \<Rightarrow> u32 \<Rightarrow> u32 \<Rightarrow> 'k machine \<Rightarrow> 'k machine option" where
  "realloc_walk this prev_free next_free' s =
     (if next_free' \<noteq> 0 \<and> next_free' < this
      then let s = (if next_slot (mem s) this = next_free'
                    then let s = set_next_slot this (next_slot (mem s) next_free') s
                         in relink prev_free (next_free (mem s) next_free') s
                    else s)
           in realloc_walk this next_free' (next_free (mem s) next_free') s
      else Some s)"

definition rtl_realloc :: "'k kernel \<Rightarrow> u32 \<Rightarrow> u32 \<Rightarrow> 'k machine \<Rightarrow> (u32 \<times> 'k machine) option" where
  "rtl_realloc K ptr sz s =
     (let this = ptr - 8 in
      if ptr = 0 then rtl_alloc K sz s
      else if sz = 0 then map_option (\<lambda>s. (0, s)) (rtl_free ptr s)
      else let old_count = (next_slot (mem s) this - this) div 8 * 8;
               units = slot_units sz
           in if units > 0xFFFFFF then Some (0, s)
              else let new = this + 8 * units
                   in if new \<le> this then Some (0, s)
                      else case realloc_walk this 0 (free_anchor s) s of
                             None \<Rightarrow> None
                           | Some s \<Rightarrow>
                               if new \<le> next_slot (mem s) this
                               then if new + 8 \<le> next_slot (mem s) this
                                    then let s = set_next_slot new (next_slot (mem s) this) s;
                                             s = set_next_slot this new s
                                         in map_option (\<lambda>s. (ptr, s)) (rtl_free new s)
                                    else Some (ptr, s)
                               else case rtl_alloc K sz s of
                                      None \<Rightarrow> None
                                    | Some (new, s) \<Rightarrow>
                                        if new \<noteq> 0
                                        then map_option (\<lambda>s. (new, s))
                                               (rtl_free ptr (s\<lparr>mem := xmemcpy (mem s) new ptr old_count\<rparr>))
                                        else Some (new, s))"

end
