(* ===== verification/Heap_Invariant.thy ===== *)
theory Heap_Invariant
  imports Mette_Heap
begin

text \<open>
  The well-formedness of the arena, and the abstract heap: a list of slots with their start,
  their end and whether they are free. \<open>chain\<close> ties the list to the \<open>next_slot\<close> links,
  \<open>fpath\<close> ties its free slots to the free list.
\<close>

section \<open>Slots and the two link structures\<close>

type_synonym slot = "u32 \<times> u32 \<times> bool"

fun chain :: "(u32 \<Rightarrow> u32) \<Rightarrow> u32 \<Rightarrow> slot list \<Rightarrow> u32 \<Rightarrow> bool" where
  "chain N a [] e \<longleftrightarrow> a = e"
| "chain N a ((p, q, f) # ss) e \<longleftrightarrow> p = a \<and> N p = q \<and> aligned 8 p \<and> p < q \<and> chain N q ss e"

fun fpath :: "(u32 \<Rightarrow> u32) \<Rightarrow> u32 \<Rightarrow> slot list \<Rightarrow> u32 \<Rightarrow> bool" where
  "fpath F a [] c \<longleftrightarrow> a = c"
| "fpath F a ((p, q, f) # ss) c \<longleftrightarrow> (if f then a = p \<and> fpath F (F p) ss c else fpath F a ss c)"

definition heap_at :: "'k machine \<Rightarrow> slot list \<Rightarrow> bool" where
  "heap_at s ss \<longleftrightarrow> aligned 8 (arena_brk s) \<and> arena_brk s \<le> 0xC0000000 \<and> 0 < first_slot s
     \<and> chain (next_slot (mem s)) (first_slot s) ss (arena_brk s)
     \<and> fpath (next_free (mem s)) (free_anchor s) ss 0"

text \<open>Before the first growth all three globals are zero.\<close>

definition heap_inv :: "'k machine \<Rightarrow> slot list \<Rightarrow> bool" where
  "heap_inv s ss \<longleftrightarrow>
     (if arena_brk s = 0 then free_anchor s = 0 \<and> ss = [] else heap_at s ss)"

text \<open>The start of the last free slot (\<open>prev\<close> if there is none), and of the first.\<close>

fun last_free :: "u32 \<Rightarrow> slot list \<Rightarrow> u32" where
  "last_free prev [] = prev"
| "last_free prev ((p, q, f) # ss) = last_free (if f then p else prev) ss"

fun first_free :: "slot list \<Rightarrow> u32" where
  "first_free [] = 0"
| "first_free ((p, q, f) # ss) = (if f then p else first_free ss)"

subsection \<open>Aligned addresses\<close>

lemma aligned8_gap:
  assumes "aligned 8 p" "aligned 8 q" "p < q"
  shows "unat p + 8 \<le> unat q" and "unat (p + 8) = unat p + 8" and "p + 8 \<le> q"
proof -
  show le: "unat p + 8 \<le> unat q"
    using assms by (auto simp: aligned_def word_less_nat_alt elim!: dvdE)
  then have "unat p + unat (8::u32) < 2 ^ 32"
    using unsigned_less [of q, where ?'a = nat] by simp
  then show "unat (p + 8) = unat p + 8" by (subst unat_add_no_wrap) simp_all
  with le show "p + 8 \<le> q" by (simp add: word_le_nat_alt)
qed

lemma aligned8_headers:
  assumes "aligned 8 p" "aligned 8 q"
  shows "region p 4 \<inter> region (q + 4) 4 = {}"
    and "p \<noteq> q \<Longrightarrow> region p 4 \<inter> region q 4 = {}"
    and "p \<noteq> q \<Longrightarrow> region (p + 4) 4 \<inter> region (q + 4) 4 = {}"
proof -
  have a4: "aligned 4 p" "aligned 4 q"
    using assms by (auto simp: aligned_def intro: dvd_trans [of 4 8])
  have q4: "aligned 4 (x + 4)" if "aligned 4 x" for x
    using aligned_add4 [OF that, of 1] by simp
  have "p \<noteq> q + 4"
  proof
    assume "p = q + 4"
    then have "(8::nat) dvd unat (p - q)" "unat (p - q) = 4"
      using aligned_diff_dvd [OF assms] by simp_all
    then show False by simp
  qed
  with a4 q4 show "region p 4 \<inter> region (q + 4) 4 = {}"
    by (intro aligned_regions_disjoint) auto
  show "p \<noteq> q \<Longrightarrow> region p 4 \<inter> region q 4 = {}"
    using a4 by (intro aligned_regions_disjoint) auto
  show "p \<noteq> q \<Longrightarrow> region (p + 4) 4 \<inter> region (q + 4) 4 = {}"
    using a4 q4 by (intro aligned_regions_disjoint) auto
qed

subsection \<open>Reading headers after writing headers\<close>

lemma next_slot_set [simp, mem_simps]:
  assumes "aligned 8 p" "aligned 8 x"
  shows "next_slot (mem (set_next_slot p v s)) x = (if x = p then v else next_slot (mem s) x)"
    and "next_slot (mem (set_next_free p v s)) x = next_slot (mem s) x"
    and "next_free (mem (set_next_slot p v s)) x = next_free (mem s) x"
    and "next_free (mem (set_next_free p v s)) x = (if x = p then v else next_free (mem s) x)"
  using aligned8_headers [OF assms] aligned8_headers [OF assms(2,1)]
  by (auto simp: next_slot_def next_free_def set_next_slot_def set_next_free_def ld32_st32_disjoint
      Int_commute)

lemma set_next_globals [simp]:
  "free_anchor (set_next_slot p v s) = free_anchor s" "free_anchor (set_next_free p v s) = free_anchor s"
  "first_slot (set_next_slot p v s) = first_slot s" "first_slot (set_next_free p v s) = first_slot s"
  "arena_brk (set_next_slot p v s) = arena_brk s" "arena_brk (set_next_free p v s) = arena_brk s"
  "kern (set_next_slot p v s) = kern s" "kern (set_next_free p v s) = kern s"
  by (simp_all add: set_next_slot_def set_next_free_def)

lemma header_frame:
  assumes "unat (p + 8) = unat p + 8" "x < p \<or> p + 8 \<le> x"
  shows "mem (set_next_slot p v s) x = mem s x" and "mem (set_next_free p v s) x = mem s x"
proof -
  have p: "unat p + 8 < 2 ^ 32" using unsigned_less [of "p + 8", where ?'a = nat] assms(1) by simp
  then have p4: "unat (p + 4) = unat p + 4" by (simp add: unat_add_no_wrap)
  have "unat x < unat p \<or> unat p + 8 \<le> unat x"
    using assms by (simp add: word_less_nat_alt word_le_nat_alt)
  then have "x \<notin> region p 4 \<and> x \<notin> region (p + 4) 4"
    using p p4 by (auto simp: region_unat)
  then show "mem (set_next_slot p v s) x = mem s x" and "mem (set_next_free p v s) x = mem s x"
    by (simp_all add: set_next_slot_def set_next_free_def st32_frame)
qed

subsection \<open>Chains\<close>

lemma chain_append: "chain N a (xs @ ys) e \<longleftrightarrow> (\<exists>b. chain N a xs b \<and> chain N b ys e)"
  by (induction xs arbitrary: a) auto

lemma chain_le: "chain N a ss e \<Longrightarrow> a \<le> e"
  by (induction N a ss e rule: chain.induct) auto

lemma chain_mem:
  "chain N a ss e \<Longrightarrow> (p, q, f) \<in> set ss \<Longrightarrow> a \<le> p \<and> p < q \<and> q \<le> e \<and> aligned 8 p \<and> N p = q"
proof (induction N a ss e rule: chain.induct)
  case (2 N a p' q' f' ss e)
  then show ?case using chain_le [of N q' ss e] by fastforce
qed simp

lemma chain_cong:
  "(\<And>p q f. (p, q, f) \<in> set ss \<Longrightarrow> N p = N' p) \<Longrightarrow> chain N a ss e = chain N' a ss e"
proof (induction ss arbitrary: a)
  case (Cons t ss)
  obtain p q f where "t = (p, q, f)" by (cases t) auto
  then show ?case using Cons.IH [of q] Cons.prems by fastforce
qed simp

lemma chain_ends_aligned: "chain N a ss e \<Longrightarrow> aligned 8 e \<Longrightarrow> (p, q, f) \<in> set ss \<Longrightarrow> aligned 8 q"
proof (induction N a ss e rule: chain.induct)
  case (2 N a p' q' f' ss e)
  have "aligned 8 q'" using 2 by (cases ss) auto
  then show ?case using 2 by auto
qed simp

lemma chain_start_aligned: "chain N a ss e \<Longrightarrow> aligned 8 e \<Longrightarrow> aligned 8 a"
  by (cases ss) auto

lemma chain_disjoint:
  "chain N a (xs @ ys) e \<Longrightarrow> (p, q, f) \<in> set xs \<Longrightarrow> (p', q', f') \<in> set ys \<Longrightarrow> q \<le> p'"
  by (fastforce simp: chain_append dest: chain_mem)

lemma chain_distinct: "chain N a ss e \<Longrightarrow> distinct (map fst ss)"
proof (induction N a ss e rule: chain.induct)
  case (2 N a p q f ss e)
  then have "p \<noteq> a'" if "(a', b, g) \<in> set ss" for a' b g
    using chain_mem [of N q ss e a' b g] that by auto
  with 2 show ?case by force
qed simp

subsection \<open>Free paths\<close>

lemma fpath_append: "fpath F a (xs @ ys) c \<longleftrightarrow> (\<exists>b. fpath F a xs b \<and> fpath F b ys c)"
proof (induction xs arbitrary: a)
  case (Cons t xs)
  then show ?case by (cases t) auto
qed simp

lemma fpath_cong:
  "(\<And>p q. (p, q, True) \<in> set ss \<Longrightarrow> F p = F' p) \<Longrightarrow> fpath F a ss c = fpath F' a ss c"
proof (induction ss arbitrary: a)
  case (Cons t ss)
  obtain p q f where "t = (p, q, f)" by (cases t) auto
  then show ?case using Cons.IH Cons.prems by fastforce
qed simp

lemma fpath_no_free: "\<forall>(p, q, f) \<in> set ss. \<not> f \<Longrightarrow> fpath F a ss c \<longleftrightarrow> a = c"
  by (induction ss) auto

lemma last_free_append: "last_free prev (xs @ ys) = last_free (last_free prev xs) ys"
  by (induction prev xs rule: last_free.induct) auto

lemma last_free_no_free: "\<forall>(p, q, f) \<in> set ss. \<not> f \<Longrightarrow> last_free prev ss = prev"
  by (induction prev ss rule: last_free.induct) auto

lemma last_free_cases:
  obtains (none) "\<forall>(p, q, f) \<in> set xs. \<not> f"
  | (some) us l r vs where "xs = us @ (l, r, True) # vs" "\<forall>(p, q, f) \<in> set vs. \<not> f"
proof (cases "\<exists>t \<in> set xs. snd (snd t)")
  case True
  then obtain us t vs where "xs = us @ t # vs" "snd (snd t)" "\<forall>u \<in> set vs. \<not> snd (snd u)"
    by (rule split_list_last_propE)
  moreover obtain l r f where "t = (l, r, f)" by (cases t)
  ultimately show thesis using some [of us l r vs] by (auto simp: split_def)
next
  case False
  then show thesis using none by (auto simp: split_def)
qed

text \<open>Redirecting the end of the free path through \<open>xs\<close>: the list surgery all operations share.\<close>

lemma fpath_redirect:
  assumes "fpath F a xs c" "\<And>p q f. (p, q, f) \<in> set xs \<Longrightarrow> p \<noteq> 0" "distinct (map fst xs)"
    and "\<And>p q f. (p, q, f) \<in> set xs \<Longrightarrow> F' p = (if p = last_free 0 xs then v else F p)"
  shows "fpath F' (if last_free 0 xs = 0 then v else a) xs v"
proof (cases xs rule: last_free_cases)
  case none
  then show ?thesis by (simp add: fpath_no_free last_free_no_free)
next
  case (some us l r vs)
  have l: "last_free 0 xs = l" "l \<noteq> 0"
    using some assms(2) by (auto simp: last_free_append last_free_no_free)
  have "fpath F a us l" using assms(1) some by (auto simp: fpath_append)
  moreover have "F p = F' p" if "(p, q, True) \<in> set us" for p q
    using that assms(3) assms(4) [of p q True] some l by (force simp: image_iff)
  ultimately have "fpath F' a us l" using fpath_cong [of us F F'] by blast
  moreover have "F' l = v" using assms(4) [of l r True] some l by simp
  ultimately show ?thesis using some l by (auto simp: fpath_append fpath_no_free)
qed

end
