(* ===== verification/Heap_Alloc.thy ===== *)
theory Heap_Alloc
  imports Heap_Invariant
begin

text \<open>
  \<open>rtl_alloc\<close> against the abstract heap: it takes the first free slot that is large enough,
  cuts it when more than one unit is left over, keeps the arena well formed and changes
  only bytes of slots that were free.
\<close>

section \<open>First fit on the abstract heap\<close>

fun fit :: "u32 \<Rightarrow> slot list \<Rightarrow> (slot list \<times> slot \<times> slot list) option" where
  "fit units [] = None"
| "fit units ((p, q, f) # ss) =
     (if f \<and> p + 8 * units \<le> q then Some ([], (p, q, f), ss)
      else map_option (\<lambda>(xs, t, ys). ((p, q, f) # xs, t, ys)) (fit units ss))"

definition carve :: "u32 \<Rightarrow> slot \<Rightarrow> slot list" where
  "carve units t =
     (case t of (p, q, f) \<Rightarrow>
        if p + 8 * units + 8 < q then [(p, p + 8 * units, False), (p + 8 * units, q, True)]
        else [(p, q, False)])"

definition alloc_abs :: "u32 \<Rightarrow> slot list \<Rightarrow> (u32 \<times> slot list) option" where
  "alloc_abs units ss =
     (case fit units ss of None \<Rightarrow> None
      | Some (xs, t, ys) \<Rightarrow> Some (fst t + 8, xs @ carve units t @ ys))"

lemma fit_SomeD:
  "fit units ss = Some (xs, (p, q, f), ys) \<Longrightarrow> ss = xs @ (p, q, True) # ys \<and> f \<and> p + 8 * units \<le> q"
proof (induction ss arbitrary: xs)
  case (Cons t ss)
  then show ?case by (cases t) (auto split: if_splits)
qed simp

subsection \<open>Requested sizes\<close>

text \<open>The units of an accepted request: no address computation below the kernel's half wraps.\<close>

lemma units_no_wrap:
  fixes p units :: u32
  assumes "p \<le> 0xC0000000" "units \<le> 0xFFFFFF"
  shows "unat (p + 8 * units) = unat p + 8 * unat units"
    and "unat (p + 8 * units + 8) = unat p + 8 * unat units + 8"
proof -
  have p: "unat p \<le> 0xC0000000" and u: "unat units \<le> 0xFFFFFF"
    using assms by (simp_all add: word_le_nat_alt)
  have "unat (8 * units) = 8 * unat units" using u by (simp add: unat_word_ariths)
  then show 1: "unat (p + 8 * units) = unat p + 8 * unat units"
    using p u by (simp add: unat_add_no_wrap)
  show "unat (p + 8 * units + 8) = unat p + 8 * unat units + 8"
    using p u 1 by (subst unat_add_no_wrap) simp_all
qed

lemma aligned8_units: "aligned 8 p \<Longrightarrow> aligned 8 (p + 8 * units)"
  by (auto simp: aligned_def unat_word_ariths intro!: dvd_mod dvd_add)

section \<open>Taking a slot\<close>

lemma heap_slotD:
  assumes "heap_at s (xs @ (p, q, f) # ys)"
  shows "chain (next_slot (mem s)) (first_slot s) xs p" "chain (next_slot (mem s)) q ys (arena_brk s)"
    and "next_slot (mem s) p = q" "aligned 8 p" "aligned 8 q" "p < q" "p \<noteq> 0" "q \<le> 0xC0000000"
    and "\<And>a b g. (a, b, g) \<in> set xs \<Longrightarrow> aligned 8 a \<and> a \<noteq> 0 \<and> a < b \<and> b \<le> p \<and> a < p"
    and "\<And>a b g. (a, b, g) \<in> set ys \<Longrightarrow> aligned 8 a \<and> q \<le> a \<and> p < a \<and> a < b"
    and "distinct (map fst xs)"
proof -
  let ?N = "next_slot (mem s)"
  have al: "aligned 8 (arena_brk s)" and c: "chain ?N (first_slot s) (xs @ (p, q, f) # ys) (arena_brk s)"
    and f0: "0 < first_slot s" and top: "arena_brk s \<le> 0xC0000000"
    using assms by (auto simp: heap_at_def)
  show cx: "chain ?N (first_slot s) xs p" and cy: "chain ?N q ys (arena_brk s)"
    and pq: "?N p = q" "aligned 8 p" "p < q"
    using c by (auto simp: chain_append)
  show "aligned 8 q" using cy al by (rule chain_start_aligned)
  show "p \<noteq> 0" using chain_le [OF cx] f0 by (auto simp: word_le_nat_alt word_less_nat_alt)
  show "q \<le> 0xC0000000" using chain_le [OF cy] top by (rule order_trans)
  show "aligned 8 a \<and> a \<noteq> 0 \<and> a < b \<and> b \<le> p \<and> a < p" if "(a, b, g) \<in> set xs" for a b g
    using chain_mem [OF cx that] f0 by (auto simp: word_le_nat_alt word_less_nat_alt)
  show "aligned 8 a \<and> q \<le> a \<and> p < a \<and> a < b" if "(a, b, g) \<in> set ys" for a b g
    using chain_mem [OF cy that] pq by (auto simp: word_le_nat_alt word_less_nat_alt)
  show "distinct (map fst xs)" using cx by (rule chain_distinct)
qed

text \<open>Header links after the split, read at any slot start.\<close>

lemma alloc_split_links:
  assumes "aligned 8 p" "aligned 8 n" "aligned 8 x" "p \<noteq> n"
  shows "next_slot (mem (alloc_split n p s)) x =
      (if n + 8 < next_slot (mem s) p then (if x = p then n else if x = n then next_slot (mem s) p
         else next_slot (mem s) x) else next_slot (mem s) x)"
    and "next_free (mem (alloc_split n p s)) x =
      (if n + 8 < next_slot (mem s) p then (if x = p then n else if x = n then next_free (mem s) p
         else next_free (mem s) x) else next_free (mem s) x)"
  using assms by (auto simp: alloc_split_def Let_def)

lemma alloc_split_globals [simp]:
  "free_anchor (alloc_split n p s) = free_anchor s"
  "first_slot (alloc_split n p s) = first_slot s"
  "arena_brk (alloc_split n p s) = arena_brk s"
  by (simp_all add: alloc_split_def Let_def)

lemma relink_links [simp]:
  assumes "prev \<noteq> 0 \<Longrightarrow> aligned 8 prev" "aligned 8 x"
  shows "next_slot (mem (relink prev v s)) x = next_slot (mem s) x"
    and "next_free (mem (relink prev v s)) x = (if prev \<noteq> 0 \<and> x = prev then v else next_free (mem s) x)"
  using assms by (auto simp: relink_def)

lemma relink_globals [simp]:
  "free_anchor (relink prev v s) = (if prev = 0 then v else free_anchor s)"
  "first_slot (relink prev v s) = first_slot s"
  "arena_brk (relink prev v s) = arena_brk s"
  by (simp_all add: relink_def)

lemma last_free_mem: "last_free prev xs = prev \<or> (\<exists>b. (last_free prev xs, b, True) \<in> set xs)"
  by (induction prev xs rule: last_free.induct) auto

lemma alloc_take_links:
  assumes "aligned 8 p" "aligned 8 n" "p < n" "l \<noteq> 0 \<Longrightarrow> aligned 8 l" "l < p" "next_slot (mem s) p = q"
  defines "c \<equiv> if n + 8 < q then n else next_free (mem s) p"
  shows "aligned 8 x \<Longrightarrow> next_slot (mem (alloc_take n l p s)) x =
      (if n + 8 < q \<and> x = p then n else if n + 8 < q \<and> x = n then q else next_slot (mem s) x)"
    and "aligned 8 x \<Longrightarrow> next_free (mem (alloc_take n l p s)) x =
      (if x = p then 0 else if x = l \<and> l \<noteq> 0 then c
       else if n + 8 < q \<and> x = n then next_free (mem s) p else next_free (mem s) x)"
    and "first_slot (alloc_take n l p s) = first_slot s"
    and "arena_brk (alloc_take n l p s) = arena_brk s"
    and "free_anchor (alloc_take n l p s) = (if l = 0 then c else free_anchor s)"
proof -
  have ne: "p \<noteq> n" "l \<noteq> p" "l \<noteq> n" using assms(3,5) by auto
  note sl = alloc_split_links [OF assms(1,2) _ ne(1)]
  have c: "next_free (mem (alloc_split n p s)) p = c"
    using sl(2) [OF assms(1), of s] assms(6) by (simp add: c_def)
  show "aligned 8 x \<Longrightarrow> next_slot (mem (alloc_take n l p s)) x =
      (if n + 8 < q \<and> x = p then n else if n + 8 < q \<and> x = n then q else next_slot (mem s) x)"
    using assms(1,4) ne sl(1) [of x s] assms(6) by (simp add: alloc_take_def Let_def c)
  show "aligned 8 x \<Longrightarrow> next_free (mem (alloc_take n l p s)) x =
      (if x = p then 0 else if x = l \<and> l \<noteq> 0 then c
       else if n + 8 < q \<and> x = n then next_free (mem s) p else next_free (mem s) x)"
    using assms(1,4) ne sl(2) [of x s] sl(2) [OF assms(2), of s] assms(6)
    by (simp add: alloc_take_def Let_def c)
  show "first_slot (alloc_take n l p s) = first_slot s" "arena_brk (alloc_take n l p s) = arena_brk s"
    "free_anchor (alloc_take n l p s) = (if l = 0 then c else free_anchor s)"
    by (simp_all add: alloc_take_def Let_def c)
qed

lemma alloc_take_heap:
  assumes h: "heap_at s (xs @ (p, q, True) # ys)"
    and u: "0 < units" "units \<le> 0xFFFFFF" and big: "p + 8 * units \<le> q"
  shows "heap_at (alloc_take (p + 8 * units) (last_free 0 xs) p s) (xs @ carve units (p, q, True) @ ys)"
proof -
  define n where "n = p + 8 * units"
  define l where "l = last_free 0 xs"
  let ?N = "next_slot (mem s)" and ?F = "next_free (mem s)"
  let ?t = "alloc_take n l p s"
  let ?N' = "next_slot (mem ?t)" and ?F' = "next_free (mem ?t)"
  let ?c = "if n + 8 < q then n else ?F p"
  note d = heap_slotD [OF h]
  have pb: "p \<le> 0xC0000000" using d(6,8) by simp
  have n: "aligned 8 n" "p < n" using d(4) u units_no_wrap(1) [OF pb u(2)]
    by (auto simp: n_def aligned8_units word_less_nat_alt)
  have nq: "n < q" if "n + 8 < q"
    using that units_no_wrap [OF pb u(2)] unfolding n_def by (simp add: word_less_nat_alt)
  have l: "l \<noteq> 0 \<Longrightarrow> aligned 8 l" "l < p"
    unfolding l_def using last_free_mem [of 0 xs] d(9) d(7) by (auto simp: word_gt_0)
  note L = alloc_take_links [OF d(4) n l d(3)]
  have fx: "fpath ?F (free_anchor s) xs p" and fy: "fpath ?F (?F p) ys 0"
    using h by (auto simp: heap_at_def fpath_append)
  have c1: "chain ?N' (first_slot s) xs p"
    using d(1) by (rule chain_cong [THEN iffD1, rotated]) (use d(9) L(1) n in \<open>auto dest!: d(9)\<close>)
  have c2: "chain ?N' q ys (arena_brk s)"
    using d(2) by (rule chain_cong [THEN iffD1, rotated]) (use L(1) nq in \<open>auto dest!: d(10)\<close>)
  have c3: "chain ?N' p (carve units (p, q, True)) q"
    using d(3,4,6) n nq L(1) by (auto simp: carve_def simp flip: n_def)
  have f1: "fpath ?F' (if l = 0 then ?c else free_anchor s) xs ?c"
    unfolding l_def using fx
    by (rule fpath_redirect) (use d(9,11) L(2) n in \<open>auto simp flip: l_def dest!: d(9)\<close>)
  have f2: "fpath ?F' (?F p) ys 0"
    using fy by (rule fpath_cong [THEN iffD1, rotated]) (use L(2) l nq in \<open>auto dest!: d(10)\<close>)
  have f3: "fpath ?F' ?c (carve units (p, q, True)) (?F p)"
    using L(2) n l by (auto simp: carve_def simp flip: n_def)
  have "chain ?N' (first_slot s) (xs @ carve units (p, q, True) @ ys) (arena_brk s)"
    using c1 c2 c3 unfolding chain_append by blast
  moreover have anchor: "free_anchor ?t = (if l = 0 then ?c else free_anchor s)"
    by (rule L(5))
  have "fpath ?F' (free_anchor ?t) (xs @ carve units (p, q, True) @ ys) 0"
    using f1 f2 f3 unfolding fpath_append anchor by blast
  ultimately have "heap_at ?t (xs @ carve units (p, q, True) @ ys)"
    using h L(3,4) by (simp add: heap_at_def)
  then show ?thesis by (simp add: n_def l_def)
qed

subsection \<open>Bytes outside the free slots are not touched\<close>

definition free_bytes :: "slot list \<Rightarrow> u32 set" where
  "free_bytes ss = {x. \<exists>p q. (p, q, True) \<in> set ss \<and> p \<le> x \<and> x < q}"

lemma free_bytesD: "x \<notin> free_bytes ss \<Longrightarrow> (p, q, True) \<in> set ss \<Longrightarrow> x < p \<or> q \<le> x"
  unfolding free_bytes_def mem_Collect_eq by (meson not_le)

lemma header_frame_slot:
  assumes "aligned 8 p" "aligned 8 q" "p < q" "x < p \<or> q \<le> x"
  shows "mem (set_next_slot p v s) x = mem s x" and "mem (set_next_free p v s) x = mem s x"
proof -
  have "unat (p + 8) = unat p + 8" "p + 8 \<le> q" using aligned8_gap [OF assms(1-3)] by auto
  then show "mem (set_next_slot p v s) x = mem s x" and "mem (set_next_free p v s) x = mem s x"
    using assms(4) by (auto intro!: header_frame)
qed

lemma last_free_slot: "last_free 0 xs \<noteq> 0 \<Longrightarrow> \<exists>b. (last_free 0 xs, b, True) \<in> set xs"
  using last_free_mem [of 0 xs] by auto

lemma heap_aligned_end:
  "heap_at s ss \<Longrightarrow> (p, q, f) \<in> set ss \<Longrightarrow> aligned 8 p \<and> aligned 8 q \<and> p < q"
  using chain_ends_aligned [of "next_slot (mem s)"] chain_mem [of "next_slot (mem s)"]
  unfolding heap_at_def by blast

lemma relink_frame:
  assumes "heap_at s ss" "l = 0 \<or> (l, b, True) \<in> set ss" "x \<notin> free_bytes ss"
  shows "mem (relink l v t) x = mem t x"
proof (cases "l = 0")
  case False
  then have m: "(l, b, True) \<in> set ss" using assms(2) by simp
  with assms(3) have "x < l \<or> b \<le> x" by (rule free_bytesD)
  then show ?thesis
    using heap_aligned_end [OF assms(1) m] False \<open>x < l \<or> b \<le> x\<close>
    by (simp add: relink_def header_frame_slot(2) [of l b])
qed (simp add: relink_def)

lemma alloc_take_frame:
  assumes h: "heap_at s (xs @ (p, q, True) # ys)"
    and u: "0 < units" "units \<le> 0xFFFFFF" and x: "x \<notin> free_bytes (xs @ (p, q, True) # ys)"
  shows "mem (alloc_take (p + 8 * units) (last_free 0 xs) p s) x = mem s x"
proof -
  note d = heap_slotD [OF h]
  let ?n = "p + 8 * units"
  have xo: "x < p \<or> q \<le> x"
    using x by (rule free_bytesD) simp
  have pb: "p \<le> 0xC0000000" using d(6,8) by simp
  have split: "mem (alloc_split ?n p s) x = mem s x"
  proof (cases "?n + 8 < q")
    case True
    have n: "aligned 8 ?n" "?n < q" "p < ?n"
      using d(4) True u units_no_wrap [OF pb u(2)] by (simp_all add: aligned8_units word_less_nat_alt)
    have xn: "x < ?n \<or> q \<le> x" using xo n(3) by auto
    then show ?thesis
      by (simp add: alloc_split_def Let_def header_frame_slot [OF d(4,5,6) xo]
          header_frame_slot [OF n(1) d(5) n(2) xn])
  qed (simp add: alloc_split_def d(3))
  obtain b where b: "last_free 0 xs = 0 \<or> (last_free 0 xs, b, True) \<in> set (xs @ (p, q, True) # ys)"
    using last_free_slot [of xs] by auto
  show ?thesis
    by (simp add: alloc_take_def Let_def header_frame_slot(2) [OF d(4,5,6) xo]
        relink_frame [OF h b x] split)
qed

section \<open>The walk finds the first fit\<close>

lemma alloc_walk_fit:
  assumes "chain (next_slot (mem s)) a ss e" "fpath (next_free (mem s)) c ss 0" "0 < a" "e \<le> 0xC0000000"
    and u: "0 < units" "units \<le> 0xFFFFFF"
  shows "alloc_walk units prev c s =
    (case fit units ss of
       None \<Rightarrow> Some (Exhausted (last_free prev ss), s)
     | Some (xs, (p, q, f), ys) \<Rightarrow>
         Some (Took (p + 8), alloc_take (p + 8 * units) (last_free prev xs) p s))"
  using assms(1-4)
proof (induction ss arbitrary: a c prev)
  case Nil
  then show ?case by (simp add: alloc_walk.simps)
next
  case (Cons t ss)
  obtain p q f where t: "t = (p, q, f)" by (cases t)
  have pq: "p = a" "next_slot (mem s) p = q" "p < q" and ch: "chain (next_slot (mem s)) q ss e"
    using Cons.prems(1) by (auto simp: t)
  have q0: "0 < q" and pb: "p \<le> 0xC0000000"
    using pq chain_le [OF ch] Cons.prems(4) by (auto simp: word_less_nat_alt word_le_nat_alt)
  show ?case
  proof (cases f)
    case False
    then show ?thesis
      using Cons.IH [OF ch _ q0 Cons.prems(4), of c prev] Cons.prems(2)
      by (auto simp: t split: option.splits)
  next
    case True
    have c: "c = p" "fpath (next_free (mem s)) (next_free (mem s) p) ss 0"
      using Cons.prems(2) True by (auto simp: t)
    have "p \<noteq> 0" using Cons.prems(3) pq by auto
    moreover have "\<not> p + 8 * units \<le> p"
      using units_no_wrap(1) [OF pb u(2)] u(1) by (simp add: word_le_nat_alt word_less_nat_alt)
    ultimately have step: "alloc_walk units prev c s =
       (if q < p + 8 * units then alloc_walk units p (next_free (mem s) p) s
        else Some (Took (p + 8), alloc_take (p + 8 * units) prev p s))"
      unfolding c(1) by (subst alloc_walk.simps) (use pq in \<open>simp add: Let_def\<close>)
    show ?thesis
      using Cons.IH [OF ch c(2) q0 Cons.prems(4), of p] True
      by (auto simp: t step not_less [symmetric] split: option.splits)
  qed
qed

section \<open>\<open>rtl_alloc\<close>\<close>

lemma heap_at_start:
  assumes "heap_at s ss"
  shows "chain (next_slot (mem s)) (first_slot s) ss (arena_brk s)" "0 < first_slot s"
    "arena_brk s \<le> 0xC0000000" "fpath (next_free (mem s)) (free_anchor s) ss 0"
    "aligned 8 (arena_brk s)"
  using assms by (auto simp: heap_at_def)

lemma slot_units_pos: "0 < slot_units sz"
proof -
  have "unat (c_align sz 8 div 8) < 2 ^ 32 - 1"
    using unsigned_less [of "c_align sz 8", where ?'a = nat] by (simp add: unat_div)
  then have "unat (c_align sz 8 div 8 + 1) = unat (c_align sz 8 div 8) + 1"
    by (simp add: unat_add_no_wrap)
  then show ?thesis by (simp add: slot_units_def word_less_nat_alt)
qed

lemma alloc_loop_hit:
  assumes h: "heap_at s ss" and u: "0 < units" "units \<le> 0xFFFFFF"
    and hit: "alloc_abs units ss = Some (ptr, ss')"
  shows "\<exists>s'. alloc_loop K units s = Some (ptr, s') \<and> heap_at s' ss'
    \<and> (\<forall>x. x \<notin> free_bytes ss \<longrightarrow> mem s' x = mem s x)
    \<and> first_slot s' = first_slot s \<and> arena_brk s' = arena_brk s"
proof -
  obtain xs p q f ys where f: "fit units ss = Some (xs, (p, q, f), ys)"
    and r: "ptr = p + 8" "ss' = xs @ carve units (p, q, f) @ ys"
    using hit by (auto simp: alloc_abs_def split: option.splits)
  have ss: "ss = xs @ (p, q, True) # ys" "f" "p + 8 * units \<le> q"
    using fit_SomeD [OF f] by auto
  let ?s' = "alloc_take (p + 8 * units) (last_free 0 xs) p s"
  have "alloc_walk units 0 (free_anchor s) s = Some (Took (p + 8), ?s')"
    using alloc_walk_fit [OF heap_at_start(1,4,2,3) [OF h] u] f by simp
  then have "alloc_loop K units s = Some (ptr, ?s')"
    by (simp add: alloc_loop.simps r)
  moreover have "heap_at ?s' ss'"
    using alloc_take_heap [OF h [unfolded ss] u ss(3)] ss(2) r by simp
  moreover have "\<forall>x. x \<notin> free_bytes ss \<longrightarrow> mem ?s' x = mem s x"
    using alloc_take_frame [OF h [unfolded ss] u] by (simp add: ss)
  moreover have "first_slot ?s' = first_slot s \<and> arena_brk ?s' = arena_brk s"
    by (simp add: alloc_take_def Let_def)
  ultimately show ?thesis by blast
qed

lemma rtl_alloc_hit:
  assumes "heap_at s ss" "slot_units sz \<le> 0xFFFFFF" "alloc_abs (slot_units sz) ss = Some (ptr, ss')"
  shows "\<exists>s'. rtl_alloc K sz s = Some (ptr, s') \<and> heap_at s' ss'
    \<and> (\<forall>x. x \<notin> free_bytes ss \<longrightarrow> mem s' x = mem s x)
    \<and> first_slot s' = first_slot s \<and> arena_brk s' = arena_brk s"
  using alloc_loop_hit [OF assms(1) slot_units_pos assms(2,3), of K] assms(2)
  by (simp add: rtl_alloc_def Let_def leD)

lemma rtl_alloc_huge: "0xFFFFFF < slot_units sz \<Longrightarrow> rtl_alloc K sz s = Some (0, s)"
  by (simp add: rtl_alloc_def Let_def)

subsection \<open>The returned block\<close>

text \<open>
  The block a successful allocation returns: an allocated slot of the new arena, as large as
  requested, whose start is the returned pointer less the header, carved from free bytes.
\<close>

lemma alloc_abs_block:
  assumes h: "heap_at s ss" and u: "0 < units" "units \<le> 0xFFFFFF"
    and hit: "alloc_abs units ss = Some (ptr, ss')"
  shows "\<exists>q. (ptr - 8, q, False) \<in> set ss' \<and> ptr - 8 + 8 * units \<le> q \<and> ptr \<noteq> 0
    \<and> (\<forall>x. ptr - 8 \<le> x \<and> x < q \<longrightarrow> x \<in> free_bytes ss)
    \<and> (\<forall>t \<in> set ss. \<not> snd (snd t) \<longrightarrow> t \<in> set ss')"
proof -
  obtain xs p q f ys where f: "fit units ss = Some (xs, (p, q, f), ys)"
    and r: "ptr = p + 8" "ss' = xs @ carve units (p, q, f) @ ys"
    using hit by (auto simp: alloc_abs_def split: option.splits)
  have ss: "ss = xs @ (p, q, True) # ys" "f" "p + 8 * units \<le> q"
    using fit_SomeD [OF f] by auto
  have d: "p < q" "q \<le> 0xC0000000" using heap_slotD [OF h [unfolded ss(1)]] by auto
  then have pb: "p \<le> 0xC0000000" by simp
  have "p + 8 \<noteq> 0"
    using pb unat_add_no_wrap [of p 8] by (auto simp: word_le_nat_alt unat_eq_0 [symmetric])
  moreover have "x \<in> free_bytes ss" if "p \<le> x" "x < q" for x
    using that unfolding free_bytes_def ss(1) by auto
  moreover have "p + 8 * units < q" if "p + 8 * units + 8 < q"
    using that units_no_wrap [OF pb u(2)] by (simp add: word_less_nat_alt)
  ultimately show ?thesis
    using ss r by (cases "p + 8 * units + 8 < q") (force simp: carve_def)+
qed

section \<open>Growing an arena with nothing free\<close>

text \<open>What \<open>brk(2)\<close> documents: it answers with the break it set, and leaves memory alone.\<close>

definition brk_grants :: "'k kernel \<Rightarrow> u32 \<Rightarrow> u32 \<Rightarrow> 'k machine \<Rightarrow> bool" where
  "brk_grants K addr answer s \<longleftrightarrow> (\<exists>k. K 45 [addr] (mem s, kern s) = (answer, mem s, k))"

lemma sys_brk_grants:
  assumes "brk_grants K addr answer s" "answer \<le> 0xC0000000"
  shows "\<exists>k. sys_brk K addr s = (answer, s\<lparr>kern := k\<rparr>)"
proof -
  obtain k where "K 45 [addr] (mem s, kern s) = (answer, mem s, k)"
    using assms(1) by (auto simp: brk_grants_def)
  moreover have "answer < - 4095" using assms(2) by (simp add: order_le_less_trans)
  ultimately have "sys_brk K addr s = (answer, s\<lparr>mem := mem s, kern := k\<rparr>)"
    by (simp add: sys_brk_def real_syscall_ok)
  then show ?thesis by auto
qed

lemma page_align:
  assumes "units \<le> 0xFFFFFF"
  shows "unat (units * 8) \<le> unat (c_align (units * 8) 4096)" "4096 dvd unat (c_align (units * 8) 4096)"
    and "unat (c_align (units * 8) 4096) \<le> 0x8000000"
proof -
  have u: "unat units \<le> 0xFFFFFF" using assms by (simp add: word_le_nat_alt)
  then have u8: "unat (units * 8) = unat units * 8" by (simp add: unat_word_ariths)
  have "unat (c_align (units * 8) (2 ^ 12)) = (unat units * 8 + (2 ^ 12 - 1)) div 2 ^ 12 * 2 ^ 12"
    using u by (subst unat_c_align) (simp_all add: u8)
  then have e: "unat (c_align (units * 8) 4096) = (unat units * 8 + 4095) div 4096 * 4096" by simp
  have "(unat units * 8 + 4095) div 4096 * 4096 + (unat units * 8 + 4095) mod 4096 = unat units * 8 + 4095"
    by (rule div_mult_mod_eq)
  moreover have "(unat units * 8 + 4095) mod 4096 < 4096" by (rule mod_less_divisor) simp
  ultimately show "unat (units * 8) \<le> unat (c_align (units * 8) 4096)" unfolding e u8 by linarith
  show "4096 dvd unat (c_align (units * 8) 4096)" unfolding e by simp
  show "unat (c_align (units * 8) 4096) \<le> 0x8000000" 
  proof -
    have "(unat units * 8 + 4095) div 4096 \<le> (0xFFFFFF * 8 + 4095) div 4096"
      using u by (intro div_le_mono) simp
    then show ?thesis unfolding e by simp
  qed
qed

lemma heap_at_fresh:
  fixes s :: "'k machine" and k :: 'k and x :: u32
  assumes h: "heap_at s ss" and nofree: "\<forall>(p, q, f) \<in> set ss. \<not> f"
    and b: "arena_brk s < b" "aligned 8 b" "b \<le> 0xC0000000"
  defines "a \<equiv> arena_brk s"
  defines "t \<equiv> (set_next_free a 0 (set_next_slot a b (s\<lparr>kern := k, arena_brk := b\<rparr>)))\<lparr>free_anchor := a\<rparr>"
  shows "heap_at t (ss @ [(a, b, True)])" and "x < a \<or> b \<le> x \<Longrightarrow> mem t x = mem s x"
proof -
  have al: "aligned 8 a" and ch: "chain (next_slot (mem s)) (first_slot s) ss a"
    using h by (auto simp: heap_at_def a_def)
  let ?s = "s\<lparr>kern := k, arena_brk := b\<rparr>"
  have ns: "next_slot (mem t) y = (if y = a then b else next_slot (mem s) y)"
    "next_free (mem t) y = (if y = a then 0 else next_free (mem s) y)" if "aligned 8 y" for y
    using al that by (auto simp: t_def)
  have "chain (next_slot (mem t)) (first_slot s) ss a"
    using ch by (rule chain_cong [THEN iffD1, rotated])
      (use ns(1) in \<open>auto dest!: chain_mem [OF ch]\<close>)
  moreover have "fpath (next_free (mem t)) a ss a" using nofree by (simp add: fpath_no_free)
  ultimately show "heap_at t (ss @ [(a, b, True)])"
    using h b al ns [OF al]
    by (auto simp: heap_at_def chain_append fpath_append t_def a_def)
  show "mem t x = mem s x" if "x < a \<or> b \<le> x"
    by (simp add: t_def header_frame_slot [OF al b(2) b(1) [folded a_def] that])
qed

lemma xmem_grow_started:
  assumes "arena_brk s \<noteq> 0" "arena_brk s < b" "b \<le> 0xC0000000"
    and "b = arena_brk s + c_align (units * 8) 4096" "brk_grants K b b s"
  defines "a \<equiv> arena_brk s"
  shows "\<exists>k. xmem_grow K units 0 s =
    (True, (set_next_free a 0 (set_next_slot a b (s\<lparr>kern := k, arena_brk := b\<rparr>)))\<lparr>free_anchor := a\<rparr>)"
proof -
  obtain k where k: "sys_brk K b s = (b, s\<lparr>kern := k\<rparr>)"
    using sys_brk_grants [OF assms(5,3)] by blast
  have "a \<noteq> b" using assms(2) by (auto simp: a_def)
  then show ?thesis
    using assms(1) k unfolding a_def xmem_grow_def
    by (intro exI [of _ k]) (simp add: Let_def flip: assms(4))
qed

lemma fit_no_free: "\<forall>(p, q, f) \<in> set ss. \<not> f \<Longrightarrow> fit units ss = None"
  by (induction ss) auto

lemma fit_append_None: "fit units xs = None \<Longrightarrow>
  fit units (xs @ ys) = map_option (\<lambda>(us, t, vs). (xs @ us, t, vs)) (fit units ys)"
proof (induction xs)
  case Nil
  show ?case by (cases "fit units ys") auto
next
  case (Cons t xs)
  obtain p q f where "t = (p, q, f)" by (cases t)
  then show ?case using Cons by (cases "fit units ys") (auto split: if_splits)
qed

lemma alloc_loop_grow:
  assumes h: "heap_at s ss" and nofree: "\<forall>(p, q, f) \<in> set ss. \<not> f"
    and u: "0 < units" "units \<le> 0xFFFFFF"
    and b: "b = arena_brk s + c_align (units * 8) 4096" "unat (arena_brk s) \<le> 0xB8000000"
    and k: "brk_grants K b b s"
  shows "\<exists>s'. alloc_loop K units s = Some (arena_brk s + 8, s')
    \<and> heap_at s' (ss @ carve units (arena_brk s, b, True))
    \<and> (\<forall>x. x < arena_brk s \<or> b \<le> x \<longrightarrow> mem s' x = mem s x)"
proof -
  let ?a = "arena_brk s"
  note pg = page_align [OF u(2)]
  have ub: "unat b = unat ?a + unat (c_align (units * 8) 4096)"
    unfolding b(1) using b(2) pg(3) by (intro unat_add_no_wrap) simp
  have u8: "unat (units * 8) = 8 * unat units" using u(2) by (simp add: unat_word_ariths word_le_nat_alt)
  have upos: "0 < unat units" using u(1) by (simp add: word_less_nat_alt)
  have ab: "?a < b" "b \<le> 0xC0000000"
    using ub pg(1,3) u8 upos b(2) by (simp_all add: word_less_nat_alt word_le_nat_alt)
  have "8 dvd unat (c_align (units * 8) 4096)" by (rule dvd_trans [OF _ pg(2)]) simp
  then have al: "aligned 8 ?a" "aligned 8 b"
    using heap_at_start(5) [OF h] ub by (simp_all add: aligned_def)
  have a0: "?a \<noteq> 0"
    using chain_le [OF heap_at_start(1) [OF h]] heap_at_start(2) [OF h] by (auto simp: word_gt_0)
  obtain kk where g: "xmem_grow K units 0 s =
      (True, (set_next_free ?a 0 (set_next_slot ?a b (s\<lparr>kern := kk, arena_brk := b\<rparr>)))\<lparr>free_anchor := ?a\<rparr>)"
    (is "_ = (True, ?t)") using xmem_grow_started [OF a0 ab b(1) k] by blast
  have ht: "heap_at ?t (ss @ [(?a, b, True)])"
    and ft: "\<And>x. x < ?a \<or> b \<le> x \<Longrightarrow> mem ?t x = mem s x"
    using heap_at_fresh [OF h nofree ab(1) al(2) ab(2)] by blast+
  have "alloc_walk units 0 (free_anchor s) s = Some (Exhausted 0, s)"
    using alloc_walk_fit [OF heap_at_start(1,4,2,3) [OF h] u] nofree
    by (simp add: fit_no_free last_free_no_free)
  then have loop: "alloc_loop K units s = alloc_loop K units ?t"
    by (subst alloc_loop.simps) (simp add: g)
  have "unat (?a + 8 * units) = unat ?a + 8 * unat units"
    using b(2) u(2) by (intro units_no_wrap) (simp_all add: word_le_nat_alt)
  then have "?a + 8 * units \<le> b" using ub pg(1) u8 by (simp add: word_le_nat_alt)
  then have hit: "alloc_abs units (ss @ [(?a, b, True)]) = Some (?a + 8, ss @ carve units (?a, b, True))"
    using nofree by (simp add: alloc_abs_def fit_append_None fit_no_free)
  have fb: "free_bytes (ss @ [(?a, b, True)]) = {x. ?a \<le> x \<and> x < b}"
    using nofree by (auto simp: free_bytes_def)
  show ?thesis
    using alloc_loop_hit [OF ht u hit, of K] ft unfolding loop fb
    by (auto simp: not_le not_less)
qed

text \<open>A refused break: the allocation fails and the arena is as it was.\<close>

lemma alloc_loop_refused:
  assumes h: "heap_at s ss" and u: "0 < units" "units \<le> 0xFFFFFF" and nofit: "fit units ss = None"
    and k: "brk_grants K (arena_brk s + c_align (units * 8) 4096) (arena_brk s) s"
  shows "\<exists>k'. alloc_loop K units s = Some (0, s\<lparr>kern := k'\<rparr>)"
proof -
  note h' = heap_at_start [OF h]
  have a0: "arena_brk s \<noteq> 0" using chain_le [OF h'(1)] h'(2) by (auto simp: word_gt_0)
  obtain k' where k': "sys_brk K (arena_brk s + c_align (units * 8) 4096) s = (arena_brk s, s\<lparr>kern := k'\<rparr>)"
    using sys_brk_grants [OF k h'(3)] by blast
  have "alloc_walk units 0 (free_anchor s) s = Some (Exhausted (last_free 0 ss), s)"
    using alloc_walk_fit [OF h'(1,4,2,3) u] nofit by simp
  then have "alloc_loop K units s = Some (0, s\<lparr>kern := k'\<rparr>)"
    by (simp add: alloc_loop.simps xmem_grow_def Let_def a0 k')
  then show ?thesis ..
qed

text \<open>The very first call: the arena starts at the page-aligned program break.\<close>

definition heap_start :: "u32 \<Rightarrow> 'k \<Rightarrow> 'k machine \<Rightarrow> 'k machine" where
  "heap_start b k s = s\<lparr>kern := k, arena_brk := c_align b 4096, first_slot := c_align b 4096\<rparr>"

lemma alloc_loop_first:
  assumes "arena_brk s = 0" "free_anchor s = 0" "sys_brk K 0 s = (b, s\<lparr>kern := k\<rparr>)" "c_align b 4096 \<noteq> 0"
  shows "alloc_loop K units s = alloc_loop K units (heap_start b k s)"
proof -
  have w: "alloc_walk units 0 0 t = Some (Exhausted 0, t)" for t :: "'a machine"
    by (simp add: alloc_walk.simps)
  have "xmem_grow K units 0 s = xmem_grow K units 0 (heap_start b k s)"
    using assms by (simp add: xmem_grow_def heap_start_def Let_def)
  moreover have "free_anchor (heap_start b k s) = 0" using assms(2) by (simp add: heap_start_def)
  ultimately show ?thesis
    using assms(2) by (subst (1 2) alloc_loop.simps) (simp add: w)
qed

lemma heap_at_heap_start:
  assumes "free_anchor s = 0" "c_align b 4096 \<noteq> 0" "c_align b 4096 \<le> 0xC0000000" "aligned 8 (c_align b 4096)"
  shows "heap_at (heap_start b k s) []"
  using assms by (simp add: heap_at_def heap_start_def word_gt_0)

end
