(* ===== verification/Heap_Free.thy ===== *)
theory Heap_Free
  imports Heap_Alloc
begin

text \<open>
  \<open>rtl_free\<close> against the abstract heap: the slot becomes free and is joined with a free slot
  directly before it and a free slot directly after it; nothing else moves, and only bytes of
  free slots and of the freed slot's header change.
\<close>

section \<open>Freeing on the abstract heap\<close>

fun absorb :: "u32 \<Rightarrow> u32 \<Rightarrow> slot list \<Rightarrow> slot list" where
  "absorb p q [] = [(p, q, True)]"
| "absorb p q ((p', q', f) # ss) = (if f then (p, q', True) # ss else (p, q, True) # (p', q', f) # ss)"

fun free_abs :: "u32 \<Rightarrow> slot list \<Rightarrow> slot list" where
  "free_abs x [] = []"
| "free_abs x ((p, q, f) # ss) =
     (if x = p then absorb p q ss
      else case ss of
             [] \<Rightarrow> [(p, q, f)]
           | (p', q', f') # ss' \<Rightarrow> if x = p' \<and> f then absorb p q' ss' else (p, q, f) # free_abs x ss)"

text \<open>The slot list up to the freed one decides where the joined slot starts.\<close>

definition join_start :: "slot list \<Rightarrow> u32 \<Rightarrow> slot list \<times> u32" where
  "join_start xs p =
     (if xs \<noteq> [] \<and> snd (snd (last xs)) then (butlast xs, fst (last xs)) else (xs, p))"

lemma free_abs_split:
  assumes "\<And>a b g. (a, b, g) \<in> set xs \<Longrightarrow> a \<noteq> p"
  shows "free_abs p (xs @ (p, q, f) # ys) =
    (case join_start xs p of (us, l) \<Rightarrow> us @ absorb l q ys)"
  using assms
proof (induction xs)
  case Nil
  show ?case by (simp add: join_start_def)
next
  case (Cons t xs)
  obtain a b g where t: "t = (a, b, g)" by (cases t)
  have "a \<noteq> p" using Cons.prems t by auto
  have IH: "free_abs p (xs @ (p, q, f) # ys) = (case join_start xs p of (us, l) \<Rightarrow> us @ absorb l q ys)"
    by (rule Cons.IH) (use Cons.prems in auto)
  note prems = Cons.prems
  show ?case
  proof (cases xs)
    case Nil
    then show ?thesis using \<open>a \<noteq> p\<close> by (simp add: t join_start_def)
  next
    case (Cons u us)
    obtain a' b' g' where u: "u = (a', b', g')" by (cases u)
    have "a' \<noteq> p" using prems Cons u by auto
    then have "free_abs p ((t # xs) @ (p, q, f) # ys) = t # free_abs p (xs @ (p, q, f) # ys)"
      using \<open>a \<noteq> p\<close> by (simp add: t Cons u)
    also have "\<dots> = t # (case join_start xs p of (us, l) \<Rightarrow> us @ absorb l q ys)"
      by (simp only: IH)
    finally show ?thesis
      using Cons by (auto simp: join_start_def split: if_splits)
  qed
qed

section \<open>Where the freed slot goes in the free list\<close>

lemma free_walk_spec:
  assumes "chain N a xs p" "fpath (next_free m) c xs d" "0 < a" "d = 0 \<or> p < d"
  shows "free_walk m p prev c = Some (last_free prev xs, d)"
  using assms
proof (induction xs arbitrary: a c prev)
  case Nil
  then show ?case by (subst free_walk.simps) auto
next
  case (Cons t xs)
  obtain b e f where t: "t = (b, e, f)" by (cases t)
  have ch: "chain N e xs p" and be: "b = a" "b < e" using Cons.prems(1) by (auto simp: t)
  have e0: "0 < e" using be Cons.prems(3) by auto
  show ?case
  proof (cases f)
    case True
    then have c: "c = b" "fpath (next_free m) (next_free m b) xs d" using Cons.prems(2) by (auto simp: t)
    have "c \<noteq> 0 \<and> c < p" using c(1) be Cons.prems(3) chain_le [OF ch] by auto
    then have "free_walk m p prev c = free_walk m p c (next_free m c)"
      by (subst free_walk.simps) simp
    then show ?thesis
      using Cons.IH [OF ch _ e0 Cons.prems(4), of "next_free m b" c] c True by (simp add: t)
  next
    case False
    then show ?thesis
      using Cons.IH [OF ch _ e0 Cons.prems(4), of c prev] Cons.prems(2) by (simp add: t)
  qed
qed

lemma fpath_first_free: "fpath F c ss 0 \<Longrightarrow> c = first_free ss"
  by (induction F c ss "0::u32" rule: fpath.induct) (auto split: if_splits)

lemma first_free_mem: "first_free ss = 0 \<or> (\<exists>q. (first_free ss, q, True) \<in> set ss)"
  by (induction ss rule: first_free.induct) auto

section \<open>Joining with the slot behind\<close>

lemma merge_down_globals [simp]:
  "free_anchor (merge_down h d s) = free_anchor s" "first_slot (merge_down h d s) = first_slot s"
  "arena_brk (merge_down h d s) = arena_brk s"
  by (simp_all add: merge_down_def Let_def)

lemma merge_down_links:
  assumes ch: "chain (next_slot (mem s)) q ys e" and fp: "fpath (next_free (mem s)) d ys 0"
    and h: "next_slot (mem s) h = q" "aligned 8 h" "h < q" and al: "aligned 8 e"
  obtains q' d' zs where "absorb h q ys = (h, q', True) # zs"
    "\<And>x. aligned 8 x \<Longrightarrow> next_slot (mem (merge_down h d s)) x = (if x = h then q' else next_slot (mem s) x)"
    "\<And>x. aligned 8 x \<Longrightarrow> next_free (mem (merge_down h d s)) x = (if x = h then d' else next_free (mem s) x)"
    "chain (next_slot (mem s)) q' zs e" "fpath (next_free (mem s)) d' zs 0" "h < q'"
proof -
  have dm: "d = first_free ys" using fp by (rule fpath_first_free)
  have dle: "q \<le> d \<and> aligned 8 d" if "d \<noteq> 0"
    using first_free_mem [of ys] that dm chain_mem [OF ch] by auto
  show thesis
  proof (cases "\<exists>r zs. ys = (q, r, True) # zs")
    case True
    then obtain r zs where ys: "ys = (q, r, True) # zs" by blast
    have "d = q" using dm ys by simp
    moreover have "q \<noteq> 0" "aligned 8 q" using h(3) ch ys by auto
    moreover have "h \<noteq> q" using h(3) by auto
    ultimately show thesis
      using that [of r zs "next_free (mem s) q"] ch fp h
      by (auto simp: ys merge_down_def Let_def)
  next
    case False
    have nd: "\<not> (d \<noteq> 0 \<and> q = d)"
    proof
      assume a: "d \<noteq> 0 \<and> q = d"
      then obtain r where "(q, r, True) \<in> set ys" using first_free_mem [of ys] dm by auto
      then obtain t zs where ys: "ys = t # zs" by (cases ys) auto
      obtain a b f where t: "t = (a, b, f)" by (cases t)
      have c: "a = q" "q < b" "chain (next_slot (mem s)) b zs e" using ch by (auto simp: ys t)
      have "(q, r, True) \<notin> set zs"
        using chain_mem [OF c(3), of q r True] c(2) by auto
      then have "t = (q, r, True)" using \<open>(q, r, True) \<in> set ys\<close> by (auto simp: ys)
      then show False using False ys by blast
    qed
    have "absorb h q ys = (h, q, True) # ys"
    proof (cases ys)
      case (Cons t zs)
      obtain a b f where t: "t = (a, b, f)" by (cases t)
      then have "a = q" using ch Cons by simp
      then have "\<not> f" using False Cons t by auto
      then show ?thesis by (simp add: Cons t)
    qed simp
    then show thesis
      using that [of q ys d] ch fp h nd by (auto simp: merge_down_def Let_def)
  qed
qed

section \<open>\<open>rtl_free\<close> keeps the arena\<close>

lemma heap_at_joined:
  assumes h: "heap_at s ss" and us: "chain (next_slot (mem s)) (first_slot s) us l"
    and fus: "fpath F' anchor us l"
    and N': "\<And>x. aligned 8 x \<Longrightarrow> next_slot (mem t) x = (if x = l then q' else next_slot (mem s) x)"
    and F': "\<And>x. aligned 8 x \<Longrightarrow> next_free (mem t) x = (if x = l then d' else F' x)"
    and F's: "\<And>a b g. (a, b, g) \<in> set zs \<Longrightarrow> F' a = next_free (mem s) a"
    and zs: "chain (next_slot (mem s)) q' zs (arena_brk s)" "fpath (next_free (mem s)) d' zs 0"
    and l: "l < q'" "aligned 8 l"
    and gl: "first_slot t = first_slot s" "arena_brk t = arena_brk s" "free_anchor t = anchor"
  shows "heap_at t (us @ (l, q', True) # zs)"
proof -
  have "chain (next_slot (mem t)) (first_slot s) us l"
    using us by (rule chain_cong [THEN iffD1, rotated]) (use chain_mem [OF us] N' in force)
  moreover have "chain (next_slot (mem t)) q' zs (arena_brk s)"
    using zs(1) by (rule chain_cong [THEN iffD1, rotated]) (use chain_mem [OF zs(1)] N' l(1) in force)
  moreover have "fpath (next_free (mem t)) anchor us l"
    using fus by (rule fpath_cong [THEN iffD1, rotated]) (use chain_mem [OF us] F' in force)
  moreover have "fpath (next_free (mem t)) d' zs 0"
    using zs(2) by (rule fpath_cong [THEN iffD1, rotated])
      (use chain_mem [OF zs(1)] F' F's l(1) in force)
  ultimately show ?thesis
    using h gl l N' [OF l(2)] F' [OF l(2)]
    unfolding heap_at_def chain_append fpath_append by auto
qed

lemma heap_lt_last_free:
  assumes "chain N a (us @ (l, r, True) # vs) p" "vs \<noteq> []"
  shows "r < p"
proof -
  obtain b e f ws where vs: "vs = (b, e, f) # ws" using assms(2) by (cases vs) auto
  then have "r < e" "chain N e ws p" using assms(1) by (auto simp: chain_append)
  then show ?thesis using chain_le [of N e ws p] by auto
qed

text \<open>Links read through a change at one address before the slots in question.\<close>

lemma chain_off:
  assumes "chain N q ys e" "l < q" "\<And>x. aligned 8 x \<Longrightarrow> x \<noteq> l \<Longrightarrow> N' x = N x"
  shows "chain N' q ys e"
  using assms(1) by (rule chain_cong [THEN iffD1, rotated]) (use chain_mem [OF assms(1)] assms(2,3) in force)

lemma fpath_off:
  assumes "fpath F d ys c" "chain N q ys e" "l < q" "\<And>x. aligned 8 x \<Longrightarrow> x \<noteq> l \<Longrightarrow> F' x = F x"
  shows "fpath F' d ys c"
  using assms(1) by (rule fpath_cong [THEN iffD1, rotated]) (use chain_mem [OF assms(2)] assms(3,4) in force)

lemma free_join_up:
  assumes h: "heap_at s ((us @ [(l, p, True)]) @ (p, q, False) # ys)"
    and fx: "fpath (next_free (mem s)) (free_anchor s) us l" and fy: "fpath (next_free (mem s)) c ys 0"
  shows "heap_at (merge_down l c (set_next_slot l q (set_next_free l p s))) (us @ absorb l q ys)"
proof -
  note d = heap_slotD [OF h]
  let ?m = "set_next_slot l q (set_next_free l p s)"
  have al: "aligned 8 (arena_brk s)" using h by (simp add: heap_at_def)
  have l: "aligned 8 l" "l < p" "l < q" using d(9) [of l p True] d(6) by auto
  have us: "chain (next_slot (mem s)) (first_slot s) us l" using d(1) by (simp add: chain_append)
  have off: "next_slot (mem ?m) x = next_slot (mem s) x" "next_free (mem ?m) x = next_free (mem s) x"
    if "aligned 8 x" "x \<noteq> l" for x using that l by auto
  have "chain (next_slot (mem ?m)) q ys (arena_brk s)" "fpath (next_free (mem ?m)) c ys 0"
    using chain_off [OF d(2) l(3) off(1)] fpath_off [OF fy d(2) l(3) off(2)] by auto
  moreover have "next_slot (mem ?m) l = q" using l by simp
  ultimately obtain q' d' zs where md: "absorb l q ys = (l, q', True) # zs"
    "\<And>x. aligned 8 x \<Longrightarrow> next_slot (mem (merge_down l c ?m)) x = (if x = l then q' else next_slot (mem ?m) x)"
    "\<And>x. aligned 8 x \<Longrightarrow> next_free (mem (merge_down l c ?m)) x = (if x = l then d' else next_free (mem ?m) x)"
    and zs: "chain (next_slot (mem ?m)) q' zs (arena_brk s)" "fpath (next_free (mem ?m)) d' zs 0" "l < q'"
    using merge_down_links [of ?m q ys "arena_brk s" c l] l al by metis
  have "chain (next_slot (mem s)) q' zs (arena_brk s)" "fpath (next_free (mem s)) d' zs 0"
    using chain_off [OF zs(1,3) off(1) [symmetric]] fpath_off [OF zs(2,1,3) off(2) [symmetric]] by auto
  then have "heap_at (merge_down l c ?m) (us @ (l, q', True) # zs)"
    using md(2,3) off zs(3) l by (intro heap_at_joined [OF h us fx]) auto
  then show ?thesis by (simp add: md(1))
qed

lemma free_join_none:
  assumes h: "heap_at s (xs @ (p, q, False) # ys)"
    and fx: "fpath (next_free (mem s)) (free_anchor s) xs c" and fy: "fpath (next_free (mem s)) c ys 0"
  shows "heap_at (merge_down p c (relink (last_free 0 xs) p s)) (xs @ absorb p q ys)"
proof -
  note d = heap_slotD [OF h]
  let ?l = "last_free 0 xs" let ?m = "relink ?l p s"
  have al: "aligned 8 (arena_brk s)" using h by (simp add: heap_at_def)
  have l: "aligned 8 ?l" "?l < p"
    using last_free_mem [of 0 xs] d(7,9) by (auto simp: aligned_def word_gt_0)
  have off: "next_slot (mem ?m) x = next_slot (mem s) x"
    "next_free (mem ?m) x = (if x = ?l \<and> ?l \<noteq> 0 then p else next_free (mem s) x)"
    if "aligned 8 x" for x using that l by auto
  have fus: "fpath (next_free (mem ?m)) (free_anchor ?m) xs p"
  proof -
    have "fpath (next_free (mem ?m)) (if ?l = 0 then p else free_anchor s) xs p"
      by (rule fpath_redirect [OF fx _ d(11)]) (use d(9) off(2) in force)+
    then show ?thesis by simp
  qed
  have lq: "?l < q" using l(2) d(6) by simp
  have "chain (next_slot (mem ?m)) q ys (arena_brk s)" "fpath (next_free (mem ?m)) c ys 0"
    using chain_off [OF d(2) lq] fpath_off [OF fy d(2) lq] off by auto
  moreover have "next_slot (mem ?m) p = q" using off(1) [OF d(4)] d(3) by simp
  ultimately obtain q' d' zs where md: "absorb p q ys = (p, q', True) # zs"
    "\<And>x. aligned 8 x \<Longrightarrow> next_slot (mem (merge_down p c ?m)) x = (if x = p then q' else next_slot (mem ?m) x)"
    "\<And>x. aligned 8 x \<Longrightarrow> next_free (mem (merge_down p c ?m)) x = (if x = p then d' else next_free (mem ?m) x)"
    and zs: "chain (next_slot (mem ?m)) q' zs (arena_brk s)" "fpath (next_free (mem ?m)) d' zs 0" "p < q'"
    using merge_down_links [of ?m q ys "arena_brk s" c p] d(4,6) al by metis
  have lq': "?l < q'" using l(2) zs(3) by simp
  have zs': "chain (next_slot (mem s)) q' zs (arena_brk s)"
    by (rule chain_off [OF zs(1) lq']) (simp add: off)
  moreover have "fpath (next_free (mem s)) d' zs 0"
    by (rule fpath_off [OF zs(2) zs' lq']) (simp add: off)
  moreover have "next_free (mem ?m) a = next_free (mem s) a" if "(a, b, g) \<in> set zs" for a b g
    using chain_mem [OF zs' that] lq' off(2) by auto
  ultimately have "heap_at (merge_down p c ?m) (xs @ (p, q', True) # zs)"
    using md(2,3) off(1) zs(3) d(4)
    by (intro heap_at_joined [OF h d(1) fus]) auto
  then show ?thesis by (simp add: md(1))
qed

lemma rtl_free_steps:
  assumes h: "heap_at s (xs @ (p, q, False) # ys)"
  obtains c where "fpath (next_free (mem s)) (free_anchor s) xs c" "fpath (next_free (mem s)) c ys 0"
    "rtl_free (p + 8) s = (case merge_up (last_free 0 xs) p s of (h, t) \<Rightarrow> Some (merge_down h c t))"
proof -
  note d = heap_slotD [OF h]
  obtain c where fx: "fpath (next_free (mem s)) (free_anchor s) xs c"
    and fy: "fpath (next_free (mem s)) c ys 0"
    using h by (auto simp: heap_at_def fpath_append)
  have "c = 0 \<or> p < c"
    using fpath_first_free [OF fy] first_free_mem [of ys] d(10) by auto
  then have w: "free_walk (mem s) p 0 (free_anchor s) = Some (last_free 0 xs, c)"
    using free_walk_spec [OF d(1) fx] heap_at_start(2) [OF h] by simp
  have "p + 8 \<noteq> 0"
    using d(6,8) unat_add_no_wrap [of p 8] by (auto simp: word_le_nat_alt word_less_nat_alt unat_eq_0 [symmetric])
  then show thesis using that [OF fx fy] w by (simp add: rtl_free_def)
qed

theorem rtl_free_heap:
  assumes h: "heap_at s (xs @ (p, q, False) # ys)"
  shows "\<exists>t. rtl_free (p + 8) s = Some t \<and> heap_at t (free_abs p (xs @ (p, q, False) # ys))"
proof -
  note d = heap_slotD [OF h]
  let ?F = "next_free (mem s)" and ?l = "last_free 0 xs"
  obtain c where fx: "fpath ?F (free_anchor s) xs c" and fy: "fpath ?F c ys 0"
    and w: "rtl_free (p + 8) s = (case merge_up ?l p s of (h, t) \<Rightarrow> Some (merge_down h c t))"
    using h by (rule rtl_free_steps)
  have fa: "free_abs p (xs @ (p, q, False) # ys) = (case join_start xs p of (us, l) \<Rightarrow> us @ absorb l q ys)"
    using d(9) by (intro free_abs_split) blast
  show ?thesis
  proof (cases "\<exists>us l. xs = us @ [(l, p, True)]")
    case True
    then obtain us l where xs: "xs = us @ [(l, p, True)]" by blast
    have l: "aligned 8 l" "l \<noteq> 0" using d(9) [of l p True] xs by auto
    have ll: "?l = l" by (simp add: xs last_free_append)
    have "next_slot (mem s) l = p" using d(1) by (simp add: xs chain_append)
    then have "merge_up l p s = (l, set_next_slot l q (set_next_free l p s))"
      using l d(3,4) by (simp add: merge_up_def)
    moreover have "fpath ?F (free_anchor s) us l" using fx by (simp add: xs fpath_append)
    ultimately show ?thesis
      using free_join_up [OF h [unfolded xs] _ fy] w fa
      by (simp add: join_start_def xs last_free_append)
  next
    case False
    have "join_start xs p = (xs, p)"
    proof (cases xs rule: rev_cases)
      case (snoc us t)
      obtain a b g where t: "t = (a, b, g)" by (cases t)
      have "b = p" using d(1) by (simp add: snoc t chain_append)
      then show ?thesis using False snoc t by (simp add: join_start_def)
    qed (simp add: join_start_def)
    moreover have "merge_up ?l p s = (p, relink ?l p s)"
    proof (cases xs rule: last_free_cases)
      case none
      then show ?thesis by (simp add: merge_up_def relink_def last_free_no_free)
    next
      case (some us l r vs)
      have "vs \<noteq> []" using False some(1) d(1) by (auto simp: chain_append)
      then have "r < p" using heap_lt_last_free d(1) some(1) by blast
      moreover have "next_slot (mem s) l = r" "aligned 8 l"
        using d(1) some(1) by (auto simp: chain_append)
      moreover have "?l = l" using some by (simp add: last_free_append last_free_no_free)
      ultimately show ?thesis by (auto simp: merge_up_def relink_def Let_def)
    qed
    ultimately show ?thesis
      using free_join_none [OF h fx fy] w fa by simp
  qed
qed

section \<open>What \<open>rtl_free\<close> leaves alone\<close>

lemma merge_down_frame:
  assumes "unat (h + 8) = unat h + 8" "x < h \<or> h + 8 \<le> x"
  shows "mem (merge_down h d s) x = mem s x"
  using assms by (simp add: merge_down_def Let_def header_frame)

lemma rtl_free_frame:
  assumes h: "heap_at s (xs @ (p, q, False) # ys)" and t: "rtl_free (p + 8) s = Some t"
    and x: "x \<notin> free_bytes (xs @ (p, q, False) # ys)" "x < p \<or> p + 8 \<le> x"
  shows "mem t x = mem s x"
proof -
  note d = heap_slotD [OF h]
  let ?l = "last_free 0 xs"
  obtain c where w: "rtl_free (p + 8) s = (case merge_up ?l p s of (h, t) \<Rightarrow> Some (merge_down h c t))"
    using h by (rule rtl_free_steps)
  have p8: "unat (p + 8) = unat p + 8" using aligned8_gap [OF d(4,5,6)] by simp
  show ?thesis
  proof (cases "?l = 0")
    case True
    then show ?thesis using w t x(2) p8 by (auto simp: merge_up_def merge_down_frame)
  next
    case False
    then obtain b where b: "(?l, b, True) \<in> set xs" using last_free_slot by blast
    have lb: "aligned 8 ?l" "?l < b" "aligned 8 b"
      using d(9) [OF b] chain_ends_aligned [OF d(1,4) b] by auto
    then have l8: "unat (?l + 8) = unat ?l + 8" "?l + 8 \<le> b" using aligned8_gap by blast+
    have "x < ?l \<or> ?l + 8 \<le> x"
      using free_bytesD [OF x(1), of ?l b] b l8(2) by auto
    then show ?thesis
      using w t False x(2) p8 l8(1)
      by (auto simp: merge_up_def Let_def merge_down_frame header_frame split: if_splits)
  qed
qed

text \<open>The allocated slots are the same, less the freed one.\<close>

lemma absorb_used: "(a, b, False) \<in> set (absorb l q ys) \<longleftrightarrow> (a, b, False) \<in> set ys"
  by (cases "(l, q, ys)" rule: absorb.cases) auto

lemma join_start_used:
  "join_start xs p = (us, l) \<Longrightarrow> (a, b, False) \<in> set us \<longleftrightarrow> (a, b, False) \<in> set xs"
  by (cases xs rule: rev_cases) (auto simp: join_start_def split: if_splits)

lemma free_abs_used:
  assumes h: "heap_at s (xs @ (p, q, False) # ys)"
  shows "(a, b, False) \<in> set (free_abs p (xs @ (p, q, False) # ys)) \<longleftrightarrow>
    (a, b, False) \<in> set (xs @ (p, q, False) # ys) \<and> a \<noteq> p"
proof -
  note d = heap_slotD [OF h]
  obtain us l where j: "join_start xs p = (us, l)" by (cases "join_start xs p")
  have "free_abs p (xs @ (p, q, False) # ys) = us @ absorb l q ys"
    using free_abs_split [of xs p q False ys] d(9) j by auto
  then show ?thesis
    using join_start_used [OF j] d(9) d(10) by (fastforce simp: absorb_used)
qed

end
