(* ===== verification/Heap_Blocks.thy ===== *)
theory Heap_Blocks
  imports Heap_Free
begin

text \<open>
  What the rest of the runtime relies on when it calls \<open>rtl_alloc\<close> and \<open>rtl_free\<close>, stated as
  an interface over the blocks a caller holds, proved for the arena of \<open>rtl_memory.c\<close>, and
  used for the pattern every caller has: allocate, fill the block, give it back.
\<close>

section \<open>The interface\<close>

text \<open>
  \<open>v\<close> is the abstract state, \<open>holds v p\<close> says that \<open>p\<close> was returned and not freed, and
  \<open>extent v p\<close> is the set of addresses that belong to that block.
\<close>

locale allocator =
  fixes alloc :: "u32 \<Rightarrow> 's \<Rightarrow> (u32 \<times> 's) option"
    and free :: "u32 \<Rightarrow> 's \<Rightarrow> 's option"
    and ok :: "'s \<Rightarrow> 'v \<Rightarrow> bool"
    and room :: "u32 \<Rightarrow> 'v \<Rightarrow> bool"
    and holds :: "'v \<Rightarrow> u32 \<Rightarrow> bool"
    and extent :: "'v \<Rightarrow> u32 \<Rightarrow> u32 set"
    and get :: "'s \<Rightarrow> memory"
    and put :: "memory \<Rightarrow> 's \<Rightarrow> 's"
  assumes get_put: "get (put m s) = m"
    and alloc_law: "ok s v \<Longrightarrow> room sz v \<Longrightarrow>
      \<exists>p s' v'. alloc sz s = Some (p, s') \<and> ok s' v' \<and> p \<noteq> 0 \<and> \<not> holds v p
        \<and> (\<forall>r. holds v' r \<longleftrightarrow> r = p \<or> holds v r)
        \<and> (\<forall>x. p \<le> x \<and> unat x < unat p + unat sz \<longrightarrow> x \<in> extent v' p)
        \<and> (\<forall>r. holds v r \<longrightarrow> extent v' r = extent v r)
        \<and> (\<forall>r x. holds v r \<and> x \<in> extent v r \<longrightarrow> get s' x = get s x)"
    and free_law: "ok s v \<Longrightarrow> holds v p \<Longrightarrow>
      \<exists>s' v'. free p s = Some s' \<and> ok s' v' \<and> (\<forall>r. holds v' r \<longleftrightarrow> r \<noteq> p \<and> holds v r)
        \<and> (\<forall>r. r \<noteq> p \<and> holds v r \<longrightarrow> extent v' r = extent v r)
        \<and> (\<forall>r x. r \<noteq> p \<and> holds v r \<and> x \<in> extent v r \<longrightarrow> get s' x = get s x)"
    and extents_disjoint: "ok s v \<Longrightarrow> holds v p \<Longrightarrow> holds v r \<Longrightarrow> p \<noteq> r \<Longrightarrow> extent v p \<inter> extent v r = {}"
    and put_law: "ok s v \<Longrightarrow> holds v p \<Longrightarrow> (\<And>x. x \<notin> extent v p \<Longrightarrow> m x = get s x) \<Longrightarrow> ok (put m s) v"
begin

text \<open>Filling a fresh block disturbs no other block.\<close>

lemma fill_others:
  assumes "ok s v" "holds v p" "holds v r" "p \<noteq> r" "\<And>x. x \<notin> extent v p \<Longrightarrow> m x = get s x"
    and "x \<in> extent v r"
  shows "get (put m s) x = get s x"
  using extents_disjoint [OF assms(1-4)] assms(5,6) by (auto simp: get_put)

text \<open>Allocate, fill, free: the caller's other blocks are as they were, contents included.\<close>

lemma alloc_fill_free:
  assumes "ok s v" "room sz v"
  shows "\<exists>p s1 v1. alloc sz s = Some (p, s1) \<and> ok s1 v1 \<and> p \<noteq> 0 \<and> holds v1 p
    \<and> (\<forall>x. p \<le> x \<and> unat x < unat p + unat sz \<longrightarrow> x \<in> extent v1 p)
    \<and> (\<forall>m. (\<forall>x. x \<notin> extent v1 p \<longrightarrow> m x = get s1 x) \<longrightarrow>
        (\<exists>s2 v2. free p (put m s1) = Some s2 \<and> ok s2 v2 \<and> (\<forall>r. holds v2 r \<longleftrightarrow> holds v r)
          \<and> (\<forall>r x. holds v r \<and> x \<in> extent v r \<longrightarrow> x \<in> extent v2 r \<and> get s2 x = get s x)))"
proof -
  obtain p s1 v1 where a: "alloc sz s = Some (p, s1)" "ok s1 v1" "p \<noteq> 0" "\<not> holds v p"
    and hold: "\<forall>r. holds v1 r \<longleftrightarrow> r = p \<or> holds v r"
    and fits: "\<forall>x. p \<le> x \<and> unat x < unat p + unat sz \<longrightarrow> x \<in> extent v1 p"
    and ext: "\<forall>r. holds v r \<longrightarrow> extent v1 r = extent v r"
    and same: "\<forall>r x. holds v r \<and> x \<in> extent v r \<longrightarrow> get s1 x = get s x"
    using alloc_law [OF assms] by (elim exE conjE) (rule that)
  have p: "holds v1 p" using hold by simp
  have filled: "\<exists>s2 v2. free p (put m s1) = Some s2 \<and> ok s2 v2 \<and> (\<forall>r. holds v2 r \<longleftrightarrow> holds v r)
      \<and> (\<forall>r x. holds v r \<and> x \<in> extent v r \<longrightarrow> x \<in> extent v2 r \<and> get s2 x = get s x)"
    if m: "\<forall>x. x \<notin> extent v1 p \<longrightarrow> m x = get s1 x" for m
  proof -
    have ok1: "ok (put m s1) v1" by (rule put_law [OF a(2) p]) (simp add: m)
    obtain s2 v2 where f: "free p (put m s1) = Some s2" "ok s2 v2"
      and hold2: "\<forall>r. holds v2 r \<longleftrightarrow> r \<noteq> p \<and> holds v1 r"
      and ext2: "\<forall>r. r \<noteq> p \<and> holds v1 r \<longrightarrow> extent v2 r = extent v1 r"
      and same2: "\<forall>r x. r \<noteq> p \<and> holds v1 r \<and> x \<in> extent v1 r \<longrightarrow> get s2 x = get (put m s1) x"
      using free_law [OF ok1 p] by (elim exE conjE) (rule that)
    have "x \<in> extent v2 r \<and> get s2 x = get s x" if r: "holds v r" "x \<in> extent v r" for r x
    proof -
      have r1: "r \<noteq> p" "holds v1 r" "x \<in> extent v1 r" using r a(4) hold ext by auto
      have "get (put m s1) x = get s1 x"
        by (rule fill_others [OF a(2) p r1(2) r1(1) [symmetric] _ r1(3)]) (simp add: m)
      then show ?thesis using r1 ext2 same2 same r by simp
    qed
    moreover have "\<forall>r. holds v2 r \<longleftrightarrow> holds v r" using hold2 hold a(4) by auto
    ultimately show ?thesis using f by (intro exI [of _ s2] exI [of _ v2]) auto
  qed
  show ?thesis
    by (intro exI [of _ p] exI [of _ s1] exI [of _ v1] conjI a(1-3) p fits allI impI filled) simp
qed

end

section \<open>Blocks of the arena\<close>

definition holds_slot :: "slot list \<Rightarrow> u32 \<Rightarrow> bool" where
  "holds_slot ss p \<longleftrightarrow> (\<exists>q. (p - 8, q, False) \<in> set ss)"

definition slot_extent :: "slot list \<Rightarrow> u32 \<Rightarrow> u32 set" where
  "slot_extent ss p = {x. \<exists>q. (p - 8, q, False) \<in> set ss \<and> p \<le> x \<and> x < q}"

definition has_room :: "u32 \<Rightarrow> slot list \<Rightarrow> bool" where
  "has_room sz ss \<longleftrightarrow> unat sz \<le> 0x7FFFFF0 \<and> alloc_abs (slot_units sz) ss \<noteq> None"

lemma unat_slot_units:
  assumes "unat sz \<le> 0x7FFFFF0"
  shows "unat (slot_units sz) = (unat sz + 7) div 8 + 1"
proof -
  have "unat (c_align sz (2 ^ 3)) = (unat sz + (2 ^ 3 - 1)) div 2 ^ 3 * 2 ^ 3"
    using assms by (intro unat_c_align) simp_all
  then have "unat (c_align sz 8 div 8) = (unat sz + 7) div 8" by (simp add: unat_div)
  moreover have "(unat sz + 7) div 8 \<le> 0xFFFFFE" using assms by simp
  ultimately show ?thesis
    unfolding slot_units_def by (subst unat_add_no_wrap) simp_all
qed

lemma slot_units_fits:
  assumes "unat sz \<le> 0x7FFFFF0"
  shows "slot_units sz \<le> 0xFFFFFF" "unat sz + 8 \<le> 8 * unat (slot_units sz)"
  using assms by (simp_all add: word_le_nat_alt unat_slot_units)

subsection \<open>Slots do not overlap\<close>

lemma chain_sep:
  "chain N a ss e \<Longrightarrow> t \<in> set ss \<Longrightarrow> u \<in> set ss \<Longrightarrow>
    t = u \<or> fst (snd t) \<le> fst u \<or> fst (snd u) \<le> fst t"
proof (induction N a ss e rule: chain.induct)
  case (2 N a p q f ss e)
  have "q \<le> fst w" if "w \<in> set ss" for w
    using chain_mem [of N q ss e "fst w" "fst (snd w)" "snd (snd w)"] 2 that by auto
  moreover have "chain N q ss e" using 2(2) by simp
  ultimately show ?case using 2(1,3,4)
    by (cases "t = (p, q, f)"; cases "u = (p, q, f)") simp_all
qed simp

lemma slot_sep:
  assumes "heap_at s ss" "(p, q, f) \<in> set ss" "(p', q', f') \<in> set ss"
  shows "(p, q, f) = (p', q', f') \<or> q \<le> p' \<or> q' \<le> p"
  using chain_sep [OF heap_at_start(1) [OF assms(1)] assms(2,3)] by simp

lemma slot_same_start:
  assumes "heap_at s ss" "(p, q, f) \<in> set ss" "(p, q', f') \<in> set ss"
  shows "q = q' \<and> f = f'"
  using slot_sep [OF assms] heap_aligned_end [OF assms(1,2)] heap_aligned_end [OF assms(1,3)] by auto

lemma slot_bounds:
  assumes "heap_at s ss" "(p, q, f) \<in> set ss"
  shows "p < q" "q \<le> 0xC0000000" "0 < p" "p + 8 \<le> q" "unat (p + 8) = unat p + 8" "aligned 8 p" "aligned 8 q"
proof -
  show 1: "p < q" "aligned 8 p" "aligned 8 q" using heap_aligned_end [OF assms] by auto
  show "p + 8 \<le> q" "unat (p + 8) = unat p + 8" using aligned8_gap [OF 1(2,3,1)] by auto
  have "first_slot s \<le> p" "q \<le> arena_brk s"
    using chain_mem [OF heap_at_start(1) [OF assms(1)] assms(2)] by auto
  then show "q \<le> 0xC0000000" "0 < p" using heap_at_start(2,3) [OF assms(1)] by auto
qed

lemma slot_extents_disjoint:
  assumes "heap_at s ss" "p \<noteq> r"
  shows "slot_extent ss p \<inter> slot_extent ss r = {}"
proof (rule ccontr)
  assume "slot_extent ss p \<inter> slot_extent ss r \<noteq> {}"
  then obtain x q q' where a: "(p - 8, q, False) \<in> set ss" "p \<le> x" "x < q"
    and b: "(r - 8, q', False) \<in> set ss" "r \<le> x" "x < q'"
    by (auto simp: slot_extent_def)
  have "p - 8 < p" "r - 8 < r"
    using slot_bounds(5) [OF assms(1) a(1)] slot_bounds(5) [OF assms(1) b(1)]
    by (simp_all add: word_less_nat_alt)
  then show False using slot_sep [OF assms(1) a(1) b(1)] a(2,3) b(2,3) assms(2) by auto
qed

lemma free_extent_apart:
  assumes "heap_at s ss" "x \<in> slot_extent ss r"
  shows "x \<notin> free_bytes ss"
proof
  assume "x \<in> free_bytes ss"
  then obtain p q where a: "(p, q, True) \<in> set ss" "p \<le> x" "x < q" by (auto simp: free_bytes_def)
  obtain q' where b: "(r - 8, q', False) \<in> set ss" "r \<le> x" "x < q'"
    using assms(2) by (auto simp: slot_extent_def)
  have "r - 8 < r" using slot_bounds(5) [OF assms(1) b(1)] by (simp add: word_less_nat_alt)
  then show False using slot_sep [OF assms(1) a(1) b(1)] a(2,3) b(2,3) by auto
qed

subsection \<open>The laws\<close>

lemma alloc_abs_used:
  assumes h: "heap_at s ss" and u: "0 < units" "units \<le> 0xFFFFFF"
    and hit: "alloc_abs units ss = Some (ptr, ss')"
  shows "\<exists>e q. unat ptr - 8 + 8 * unat units \<le> unat e \<and> 8 \<le> unat ptr \<and> (ptr - 8, q, True) \<in> set ss
    \<and> (\<forall>a b. (a, b, False) \<in> set ss' \<longleftrightarrow> (a, b, False) \<in> set ss \<or> (a = ptr - 8 \<and> b = e))"
proof -
  obtain xs p q f ys where f: "fit units ss = Some (xs, (p, q, f), ys)"
    and r: "ptr = p + 8" "ss' = xs @ carve units (p, q, f) @ ys"
    using hit by (auto simp: alloc_abs_def split: option.splits)
  have ss: "ss = xs @ (p, q, True) # ys" "f" "p + 8 * units \<le> q"
    using fit_SomeD [OF f] by auto
  have m: "(p, q, True) \<in> set ss" by (simp add: ss)
  note b = slot_bounds [OF h m]
  have pb: "p \<le> 0xC0000000" using b(1,2) by simp
  note w = units_no_wrap [OF pb u(2)]
  have "unat p + 8 * unat units \<le> unat q" using ss(3) w by (simp add: word_le_nat_alt)
  then show ?thesis
    using ss r w(1) b(5) m
    by (intro exI [of _ "if p + 8 * units + 8 < q then p + 8 * units else q"] exI [of _ q])
       (auto simp: carve_def)
qed

text \<open>Everything an allocation that finds room does, and everything a free does.\<close>

definition allocates :: "u32 \<Rightarrow> 'k machine \<Rightarrow> slot list \<Rightarrow> u32 \<Rightarrow> 'k machine \<Rightarrow> slot list \<Rightarrow> bool" where
  "allocates sz s ss p s' ss' \<longleftrightarrow> heap_at s' ss' \<and> p \<noteq> 0 \<and> \<not> holds_slot ss p
     \<and> (\<forall>r. holds_slot ss' r \<longleftrightarrow> r = p \<or> holds_slot ss r)
     \<and> (\<forall>x. p \<le> x \<and> unat x < unat p + unat sz \<longrightarrow> x \<in> slot_extent ss' p)
     \<and> (\<forall>r. holds_slot ss r \<longrightarrow> slot_extent ss' r = slot_extent ss r)
     \<and> (\<forall>x. x \<notin> free_bytes ss \<longrightarrow> mem s' x = mem s x)
     \<and> (\<forall>x \<in> slot_extent ss' p. x \<in> free_bytes ss)
     \<and> first_slot s' = first_slot s \<and> arena_brk s' = arena_brk s \<and> unat p + unat sz \<le> 0xC0000000"

definition releases :: "u32 \<Rightarrow> 'k machine \<Rightarrow> slot list \<Rightarrow> 'k machine \<Rightarrow> slot list \<Rightarrow> bool" where
  "releases p s ss s' ss' \<longleftrightarrow> heap_at s' ss'
     \<and> (\<forall>r. holds_slot ss' r \<longleftrightarrow> r \<noteq> p \<and> holds_slot ss r)
     \<and> (\<forall>r. r \<noteq> p \<longrightarrow> slot_extent ss' r = slot_extent ss r)
     \<and> (\<forall>x. x \<notin> free_bytes ss \<and> (x < p - 8 \<or> p \<le> x) \<longrightarrow> mem s' x = mem s x)
     \<and> first_slot s' = first_slot s \<and> arena_brk s' = arena_brk s"

lemma arena_alloc:
  assumes h: "heap_at s ss" and room: "has_room sz ss"
  shows "\<exists>p s' ss'. rtl_alloc K sz s = Some (p, s') \<and> allocates sz s ss p s' ss'"
proof -
  obtain p ss' where hit: "alloc_abs (slot_units sz) ss = Some (p, ss')" and sz: "unat sz \<le> 0x7FFFFF0"
    using room by (auto simp: has_room_def)
  note u = slot_units_pos slot_units_fits(1) [OF sz]
  obtain s' where s': "rtl_alloc K sz s = Some (p, s')" "heap_at s' ss'"
    "\<And>x. x \<notin> free_bytes ss \<Longrightarrow> mem s' x = mem s x" "first_slot s' = first_slot s" "arena_brk s' = arena_brk s"
    using rtl_alloc_hit [OF h u(2) hit, of K] by blast
  obtain e q where e: "unat p - 8 + 8 * unat (slot_units sz) \<le> unat e" "8 \<le> unat p"
    "(p - 8, q, True) \<in> set ss"
    and used: "\<And>a b. (a, b, False) \<in> set ss' \<longleftrightarrow> (a, b, False) \<in> set ss \<or> (a = p - 8 \<and> b = e)"
    using alloc_abs_used [OF h u hit] by blast
  have new: "\<not> holds_slot ss p"
    using slot_same_start [OF h e(3)] by (auto simp: holds_slot_def)
  have e': "(p - 8, e, False) \<in> set ss'" using used by simp
  have le: "p - 8 \<le> p" using e(2) by (simp add: word_le_nat_alt unat_sub_if_size)
  obtain q' where q': "(p - 8, q', False) \<in> set ss'" "\<And>x. p - 8 \<le> x \<Longrightarrow> x < q' \<Longrightarrow> x \<in> free_bytes ss"
    using alloc_abs_block [OF h u hit] by blast
  have "q' = e" using slot_same_start [OF s'(2) q'(1) e'] by simp
  then have inside: "x \<in> free_bytes ss" if "x \<in> slot_extent ss' p" for x
    using that q'(2) [of x] slot_same_start [OF s'(2) e'] le by (fastforce simp: slot_extent_def)
  have fits: "x \<in> slot_extent ss' p" if "p \<le> x" "unat x < unat p + unat sz" for x
    using that e(1,2) slot_units_fits(2) [OF sz] e'
    by (auto simp: slot_extent_def word_less_nat_alt intro!: exI [of _ e])
  have ext: "slot_extent ss' r = slot_extent ss r" if "holds_slot ss r" for r
    using that new used unfolding slot_extent_def holds_slot_def by auto
  have "p \<noteq> 0" using e(2) by auto
  moreover have "holds_slot ss' r \<longleftrightarrow> r = p \<or> holds_slot ss r" for r
    unfolding holds_slot_def used by auto
  moreover have "unat p + unat sz \<le> 0xC0000000"
    using slot_bounds(2) [OF s'(2) e'] e(1,2) slot_units_fits(2) [OF sz] by (simp add: word_le_nat_alt)
  ultimately have "allocates sz s ss p s' ss'"
    using s'(2-5) new inside fits ext unfolding allocates_def by blast
  then show ?thesis using s'(1) by blast
qed

lemma arena_alloc_law:
  assumes h: "heap_at s ss" and room: "has_room sz ss"
  shows "\<exists>p s' ss'. rtl_alloc K sz s = Some (p, s') \<and> heap_at s' ss' \<and> p \<noteq> 0 \<and> \<not> holds_slot ss p
    \<and> (\<forall>r. holds_slot ss' r \<longleftrightarrow> r = p \<or> holds_slot ss r)
    \<and> (\<forall>x. p \<le> x \<and> unat x < unat p + unat sz \<longrightarrow> x \<in> slot_extent ss' p)
    \<and> (\<forall>r. holds_slot ss r \<longrightarrow> slot_extent ss' r = slot_extent ss r)
    \<and> (\<forall>r x. holds_slot ss r \<and> x \<in> slot_extent ss r \<longrightarrow> mem s' x = mem s x)"
proof -
  obtain p s' ss' where a: "rtl_alloc K sz s = Some (p, s')" "allocates sz s ss p s' ss'"
    using arena_alloc [OF assms] by blast
  show ?thesis
    using a free_extent_apart [OF h] unfolding allocates_def
    by (intro exI [of _ p] exI [of _ s'] exI [of _ ss']) auto
qed

lemma header_cong:
  assumes "unat (p + 8) = unat p + 8" "\<And>x. p \<le> x \<Longrightarrow> x < p + 8 \<Longrightarrow> m x = m' x"
  shows "next_slot m p = next_slot m' p" and "next_free m p = next_free m' p"
proof -
  have p: "unat p + 8 < 2 ^ 32" using unsigned_less [of "p + 8", where ?'a = nat] assms(1) by simp
  then have p4: "unat (p + 4) = unat p + 4" by (simp add: unat_add_no_wrap)
  have "m x = m' x" if "x \<in> region p 4 \<or> x \<in> region (p + 4) 4" for x
    using that p p4 assms by (intro assms(2)) (auto simp: region_unat word_le_nat_alt word_less_nat_alt)
  then show "next_slot m p = next_slot m' p" "next_free m p = next_free m' p"
    by (auto simp: next_slot_def next_free_def intro!: ld32_cong)
qed

lemma heap_at_mem_cong:
  assumes h: "heap_at s ss"
    and m: "\<And>p q f x. (p, q, f) \<in> set ss \<Longrightarrow> p \<le> x \<Longrightarrow> x < p + 8 \<Longrightarrow> m x = mem s x"
  shows "heap_at (s\<lparr>mem := m\<rparr>) ss"
proof -
  have same: "next_slot (mem s) p = next_slot m p" "next_free (mem s) p = next_free m p"
    if "(p, q, f) \<in> set ss" for p q f
    by (rule header_cong [OF slot_bounds(5) [OF h that] m [OF that, symmetric]], assumption+)+
  note d = heap_at_start [OF h]
  have "chain (next_slot m) (first_slot s) ss (arena_brk s)"
    using d(1) by (rule chain_cong [THEN iffD1, rotated]) (rule same)
  moreover have "fpath (next_free m) (free_anchor s) ss 0"
    using d(4) by (rule fpath_cong [THEN iffD1, rotated]) (rule same)
  ultimately show ?thesis using d(2,3,5) unfolding heap_at_def by simp
qed

lemma arena_put_law:
  assumes h: "heap_at s ss" and m: "\<And>x. x \<notin> slot_extent ss p \<Longrightarrow> m x = mem s x"
  shows "heap_at (s\<lparr>mem := m\<rparr>) ss"
proof (rule heap_at_mem_cong [OF h])
  fix a b f x assume a: "(a, b, f) \<in> set ss" "a \<le> x" "x < a + 8"
  have "x \<notin> slot_extent ss p"
  proof
    assume "x \<in> slot_extent ss p"
    then obtain q where q: "(p - 8, q, False) \<in> set ss" "p \<le> x" "x < q" by (auto simp: slot_extent_def)
    have "p - 8 < p" using slot_bounds(5) [OF h q(1)] by (simp add: word_less_nat_alt)
    moreover have "x < b" using slot_bounds(4) [OF h a(1)] a(3) by simp
    ultimately have "\<not> b \<le> p - 8" "\<not> q \<le> a" using a(2) q(2,3) by auto
    then have "a = p - 8" using slot_sep [OF h a(1) q(1)] by blast
    then show False using a(3) q(2) by simp
  qed
  then show "m x = mem s x" by (rule m)
qed

lemma rtl_free_globals: "rtl_free p s = Some t \<Longrightarrow> first_slot t = first_slot s \<and> arena_brk t = arena_brk s"
  by (auto simp: rtl_free_def merge_up_def Let_def split: option.splits prod.splits if_splits)

lemma arena_free:
  assumes h: "heap_at s ss" and held: "holds_slot ss p"
  shows "\<exists>s' ss'. rtl_free p s = Some s' \<and> releases p s ss s' ss'"
proof -
  obtain q where q: "(p - 8, q, False) \<in> set ss" using held by (auto simp: holds_slot_def)
  then obtain xs ys where ss: "ss = xs @ (p - 8, q, False) # ys" by (meson split_list)
  note h' = h [unfolded ss]
  obtain t where t: "rtl_free p s = Some t" "heap_at t (free_abs (p - 8) ss)"
    using rtl_free_heap [OF h'] ss by auto
  have used: "(a, b, False) \<in> set (free_abs (p - 8) ss) \<longleftrightarrow> (a, b, False) \<in> set ss \<and> a \<noteq> p - 8" for a b
    using free_abs_used [OF h'] by (simp add: ss)
  have "mem t x = mem s x" if "x \<notin> free_bytes ss" "x < p - 8 \<or> p \<le> x" for x
    using rtl_free_frame [OF h', of t x] t(1) that by (simp add: ss)
  moreover have "holds_slot (free_abs (p - 8) ss) r \<longleftrightarrow> r \<noteq> p \<and> holds_slot ss r" for r
    using used by (auto simp: holds_slot_def)
  moreover have "slot_extent (free_abs (p - 8) ss) r = slot_extent ss r" if "r \<noteq> p" for r
    using used that by (auto simp: slot_extent_def)
  ultimately have "releases p s ss t (free_abs (p - 8) ss)"
    using t(2) rtl_free_globals [OF t(1)] unfolding releases_def by blast
  then show ?thesis using t(1) by blast
qed

lemma header_apart:
  assumes h: "heap_at s ss" and held: "holds_slot ss p" and r: "r \<noteq> p" "x \<in> slot_extent ss r"
  shows "x < p - 8 \<or> p \<le> x"
proof -
  obtain q where q: "(p - 8, q, False) \<in> set ss" using held by (auto simp: holds_slot_def)
  obtain e where e: "(r - 8, e, False) \<in> set ss" "r \<le> x" "x < e" using r(2) by (auto simp: slot_extent_def)
  have "r - 8 < r" "p - 8 < p"
    using slot_bounds(5) [OF h e(1)] slot_bounds(5) [OF h q] by (simp_all add: word_less_nat_alt)
  moreover have "p \<le> q" using slot_bounds(4) [OF h q] by simp
  ultimately show ?thesis using slot_sep [OF h e(1) q] e(2,3) r(1) by auto
qed

lemma arena_free_law:
  assumes h: "heap_at s ss" and held: "holds_slot ss p"
  shows "\<exists>s' ss'. rtl_free p s = Some s' \<and> heap_at s' ss'
    \<and> (\<forall>r. holds_slot ss' r \<longleftrightarrow> r \<noteq> p \<and> holds_slot ss r)
    \<and> (\<forall>r. r \<noteq> p \<and> holds_slot ss r \<longrightarrow> slot_extent ss' r = slot_extent ss r)
    \<and> (\<forall>r x. r \<noteq> p \<and> holds_slot ss r \<and> x \<in> slot_extent ss r \<longrightarrow> mem s' x = mem s x)"
proof -
  obtain s' ss' where a: "rtl_free p s = Some s'" "releases p s ss s' ss'"
    using arena_free [OF assms] by blast
  have "mem s' x = mem s x" if "r \<noteq> p" "x \<in> slot_extent ss r" for r x
    using header_apart [OF h held that] free_extent_apart [OF h that(2)] a(2) by (simp add: releases_def)
  then show ?thesis using a unfolding releases_def by (intro exI [of _ s'] exI [of _ ss']) auto
qed

section \<open>The arena provides the interface\<close>

interpretation arena: allocator "rtl_alloc K" rtl_free heap_at has_room holds_slot slot_extent mem
  "\<lambda>m s. s\<lparr>mem := m\<rparr>" for K :: "'k kernel"
proof
  show "mem (s\<lparr>mem := m\<rparr>) = m" for m and s :: "'k machine" by simp
next
  fix s :: "'k machine" and v sz assume "heap_at s v" "has_room sz v"
  then show "\<exists>p s' v'. rtl_alloc K sz s = Some (p, s') \<and> heap_at s' v' \<and> p \<noteq> 0 \<and> \<not> holds_slot v p
    \<and> (\<forall>r. holds_slot v' r \<longleftrightarrow> r = p \<or> holds_slot v r)
    \<and> (\<forall>x. p \<le> x \<and> unat x < unat p + unat sz \<longrightarrow> x \<in> slot_extent v' p)
    \<and> (\<forall>r. holds_slot v r \<longrightarrow> slot_extent v' r = slot_extent v r)
    \<and> (\<forall>r x. holds_slot v r \<and> x \<in> slot_extent v r \<longrightarrow> mem s' x = mem s x)"
    by (rule arena_alloc_law)
next
  fix s :: "'k machine" and v p assume "heap_at s v" "holds_slot v p"
  then show "\<exists>s' v'. rtl_free p s = Some s' \<and> heap_at s' v'
    \<and> (\<forall>r. holds_slot v' r \<longleftrightarrow> r \<noteq> p \<and> holds_slot v r)
    \<and> (\<forall>r. r \<noteq> p \<and> holds_slot v r \<longrightarrow> slot_extent v' r = slot_extent v r)
    \<and> (\<forall>r x. r \<noteq> p \<and> holds_slot v r \<and> x \<in> slot_extent v r \<longrightarrow> mem s' x = mem s x)"
    by (rule arena_free_law)
next
  fix s :: "'k machine" and v and p r :: u32 assume "heap_at s v" "p \<noteq> r"
  then show "slot_extent v p \<inter> slot_extent v r = {}" by (rule slot_extents_disjoint)
next
  fix s :: "'k machine" and v p m assume "heap_at s v" "\<And>x. x \<notin> slot_extent v p \<Longrightarrow> m x = mem s x"
  then show "heap_at (s\<lparr>mem := m\<rparr>) v" by (rule arena_put_law)
qed

end
