(* ===== verification/Heap_Growth.thy ===== *)
theory Heap_Growth
  imports Heap_Blocks
begin

text \<open>
  \<open>rtl_alloc\<close> when the free list cannot serve the request: growth of an arena with nothing
  free, the first allocation of a process, a refused break, and the growth of an arena whose
  free list is not empty, which extends the last free slot over whatever follows it.
\<close>

section \<open>Sizes that are accepted or refused\<close>

lemma rtl_alloc_loop: "unat sz \<le> 0x7FFFFF0 \<Longrightarrow> rtl_alloc K sz s = alloc_loop K (slot_units sz) s"
  using slot_units_fits(1) [of sz] by (simp add: rtl_alloc_def Let_def leD)

text \<open>The rounding of the size wraps for the seven largest requests: they count as one unit.\<close>

lemma slot_units_wrapped:
  assumes "0xFFFFFFF9 \<le> sz"
  shows "slot_units sz = 1"
proof -
  obtain d where d: "unat sz = 0xFFFFFFF9 + d"
    using assms by (auto simp: word_le_nat_alt le_iff_add)
  then have "d < 8" using unsigned_less [of sz, where ?'a = nat] by simp
  then have "unat (sz + mask 3) < 8" by (simp add: unat_word_ariths mask_numeral d)
  then have "unat (c_align sz 8) = 0"
    using c_align_mask [of sz 3] by (simp add: unat_and_not_mask)
  then have "c_align sz 8 = 0" by (simp add: unat_eq_0)
  then show ?thesis by (simp add: slot_units_def)
qed

section \<open>Growth over the end of a non-empty free list\<close>

lemma xmem_grow_extends:
  assumes "arena_brk s \<noteq> 0" "arena_brk s < b" "b \<le> 0xC0000000" "l \<noteq> 0"
    and "b = arena_brk s + c_align (units * 8) 4096" "brk_grants K b b s"
  shows "\<exists>k. xmem_grow K units l s = (True, set_next_slot l (arena_brk s) (s\<lparr>kern := k, arena_brk := b\<rparr>))"
proof -
  obtain k where k: "sys_brk K b s = (b, s\<lparr>kern := k\<rparr>)"
    using sys_brk_grants [OF assms(6,3)] by blast
  have "arena_brk s \<noteq> b" using assms(2) by auto
  then show ?thesis
    using assms(1,4) k unfolding xmem_grow_def
    by (intro exI [of _ k]) (simp add: Let_def flip: assms(5))
qed

lemma page_growth:
  assumes "0 < units" "units \<le> 0xFFFFFF" "unat a \<le> 0xB8000000" "b = a + c_align (units * 8) 4096"
  shows "a < b" "b \<le> 0xC0000000" "a + 8 * units \<le> b"
proof -
  note pg = page_align [OF assms(2)]
  have ub: "unat b = unat a + unat (c_align (units * 8) 4096)"
    unfolding assms(4) using assms(3) pg(3) by (intro unat_add_no_wrap) simp
  have u8: "unat (units * 8) = 8 * unat units" using assms(2) by (simp add: unat_word_ariths word_le_nat_alt)
  have upos: "0 < unat units" using assms(1) by (simp add: word_less_nat_alt)
  show "a < b" "b \<le> 0xC0000000"
    using ub pg(1,3) u8 upos assms(3) by (simp_all add: word_less_nat_alt word_le_nat_alt)
  have "unat (a + 8 * units) = unat a + 8 * unat units"
    using assms(2,3) by (intro units_no_wrap) (simp_all add: word_le_nat_alt)
  then show "a + 8 * units \<le> b" using ub pg(1) u8 by (simp add: word_le_nat_alt)
qed

lemma fit_append_Some: "fit units xs = Some (us, t, vs) \<Longrightarrow> fit units (xs @ ys) = Some (us, t, vs @ ys)"
proof (induction xs arbitrary: us)
  case (Cons u xs)
  then show ?case by (cases u) (auto split: if_splits)
qed simp

lemma fit_None_small:
  assumes "fit units (xs @ (p, q, True) # ys) = None"
  shows "fit units xs = None" "q < p + 8 * units"
proof -
  show xs: "fit units xs = None"
    using assms by (cases "fit units xs") (auto simp: fit_append_Some)
  show "q < p + 8 * units"
    using assms by (simp add: fit_append_None [OF xs] not_le split: if_splits)
qed

lemma chain_prefix_relinked:
  assumes "chain (next_slot (mem s)) a xs p" "aligned 8 p" "p < b"
  shows "chain (next_slot (mem (set_next_slot p b (s\<lparr>kern := k, arena_brk := c\<rparr>)))) a (xs @ [(p, b, f)]) b"
proof -
  have "chain (next_slot (mem (set_next_slot p b (s\<lparr>kern := k, arena_brk := c\<rparr>)))) a xs p"
    using assms(1) by (rule chain_cong [THEN iffD1, rotated])
      (use chain_mem [OF assms(1)] assms(2) in force)
  then show ?thesis using assms(2,3) by (simp add: chain_append)
qed

text \<open>
  The last free slot is made to end at the old break, so it swallows the allocated slots after
  it, and the request is then served from it.
\<close>

lemma alloc_loop_swallows:
  assumes h: "heap_at s (xs @ (p, q, True) # ys)" and ys: "\<forall>(a, e, f) \<in> set ys. \<not> f"
    and u: "0 < units" "units \<le> 0xFFFFFF" and nofit: "fit units (xs @ (p, q, True) # ys) = None"
    and big: "p + 8 * units \<le> arena_brk s" and low: "unat (arena_brk s) \<le> 0xB8000000"
    and k: "brk_grants K (arena_brk s + c_align (units * 8) 4096) (arena_brk s + c_align (units * 8) 4096) s"
  shows "\<exists>s'. alloc_loop K units s = Some (p + 8, s')"
proof -
  let ?a = "arena_brk s" and ?b = "arena_brk s + c_align (units * 8) 4096"
  note d = heap_slotD [OF h] and st = heap_at_start [OF h]
  note pg = page_growth [OF u low refl]
  have pa: "p < ?a" using chain_le [OF d(2)] d(6) by simp
  then have a0: "?a \<noteq> 0" by auto
  have lf: "last_free 0 (xs @ (p, q, True) # ys) = p"
    using ys by (simp add: last_free_append last_free_no_free)
  obtain kk where g: "xmem_grow K units p s = (True, set_next_slot p ?a (s\<lparr>kern := kk, arena_brk := ?b\<rparr>))"
    (is "_ = (True, ?t)") using xmem_grow_extends [OF a0 pg(1,2) d(7) refl k] by blast
  have "alloc_walk units 0 (free_anchor s) s = Some (Exhausted p, s)"
    using alloc_walk_fit [OF st(1,4,2,3) u] nofit lf by simp
  then have loop: "alloc_loop K units s = alloc_loop K units ?t"
    by (subst alloc_loop.simps) (simp add: g)
  have ch: "chain (next_slot (mem ?t)) (first_slot s) (xs @ [(p, ?a, True)]) ?a"
    using d(1,4) pa by (rule chain_prefix_relinked)
  have "fpath (next_free (mem s)) (free_anchor s) (xs @ [(p, q, True)]) 0"
    using st(4) ys by (auto simp: fpath_append fpath_no_free)
  then have "fpath (next_free (mem s)) (free_anchor s) (xs @ [(p, ?a, True)]) 0"
    by (simp add: fpath_append)
  then have fp: "fpath (next_free (mem ?t)) (free_anchor s) (xs @ [(p, ?a, True)]) 0"
  proof (rule fpath_cong [THEN iffD1, rotated])
    fix a e assume "(a, e, True) \<in> set (xs @ [(p, ?a, True)])"
    then have "aligned 8 a" using chain_mem [OF ch] by blast
    then show "next_free (mem s) a = next_free (mem ?t) a" using d(4) by simp
  qed
  have "fit units xs = None" using nofit by (rule fit_None_small)
  then have "fit units (xs @ [(p, ?a, True)]) = Some (xs, (p, ?a, True), [])"
    using big by (simp add: fit_append_None)
  then have "alloc_walk units 0 (free_anchor s) ?t =
      Some (Took (p + 8), alloc_take (p + 8 * units) (last_free 0 xs) p ?t)"
    using alloc_walk_fit [OF ch fp st(2,3) u, of 0] by simp
  then show ?thesis unfolding loop by (simp add: alloc_loop.simps)
qed

end
