(* ===== verification/Runtime_Correct.thy ===== *)
theory Runtime_Correct
  imports Heap_Growth
begin

text \<open>
  The properties of the allocator, each with a run on a small concrete arena: one free slot
  from \<open>0x1000\<close> to \<open>0x2000\<close>, or that slot cut into an allocated and a free part.
\<close>

section \<open>Concrete arenas\<close>

definition demo_arena :: "(u32 \<times> u32 \<times> u32) list \<Rightarrow> u32 \<Rightarrow> u32 \<Rightarrow> unit machine" where
  "demo_arena headers anchor brk =
     \<lparr>mem = foldr (\<lambda>(p, n, f) m. st32 (st32 m p n) (p + 4) f) headers (\<lambda>_. 0),
      free_anchor = anchor, first_slot = 0x1000, arena_brk = brk, sys_errno = 0, kern = ()\<rparr>"

text \<open>A kernel that grants every break.\<close>

definition demo_kernel :: "unit kernel" where
  "demo_kernel nr args = (\<lambda>(m, k). (hd args, m, k))"

lemma demo_free: "heap_at (demo_arena [(0x1000, 0x2000, 0)] 0x1000 0x2000) [(0x1000, 0x2000, True)]"
  by (simp add: heap_at_def demo_arena_def next_slot_def next_free_def ld32_def st32_def aligned_def)

lemma demo_used: "heap_at (demo_arena [(0x1000, 0x2000, 0)] 0 0x2000) [(0x1000, 0x2000, False)]"
  by (simp add: heap_at_def demo_arena_def next_slot_def next_free_def ld32_def st32_def aligned_def)

lemma demo_split:
  "heap_at (demo_arena [(0x1000, 0x1018, 0), (0x1018, 0x2000, 0)] 0x1000 0x2000)
     [(0x1000, 0x1018, True), (0x1018, 0x2000, False)]"
  by (simp add: heap_at_def demo_arena_def next_slot_def next_free_def ld32_def st32_def aligned_def)

section \<open>Allocation\<close>

text \<open>C1. \<open>rtl_alloc\<close> on a well-formed arena takes the first free slot in address order that is
  large enough, splits it when more than one unit is left over, returns the address after the
  header, keeps the arena well formed and changes no byte outside the slots that were free.\<close>

theorem alloc_first_fit:
  assumes "heap_at s ss" "unat sz \<le> 0x7FFFFF0" "alloc_abs (slot_units sz) ss = Some (ptr, ss')"
  shows "\<exists>s'. rtl_alloc K sz s = Some (ptr, s') \<and> heap_at s' ss'
    \<and> (\<forall>x. x \<notin> free_bytes ss \<longrightarrow> mem s' x = mem s x)"
  using rtl_alloc_hit [OF assms(1) slot_units_fits(1) [OF assms(2)] assms(3), of K] by blast

theorem alloc_first_fit_witness:
  "\<exists>s'. rtl_alloc demo_kernel 16 (demo_arena [(0x1000, 0x2000, 0)] 0x1000 0x2000) = Some (0x1008, s')
    \<and> heap_at s' [(0x1000, 0x1018, False), (0x1018, 0x2000, True)]"
  using alloc_first_fit [OF demo_free, of 16 "0x1008" "[(0x1000, 0x1018, False), (0x1018, 0x2000, True)]" demo_kernel]
  by (fastforce simp: alloc_abs_def carve_def slot_units_def c_align_def)

text \<open>C2. \<open>rtl_free\<close> of a block the caller holds returns, leaves the arena well formed, and the new
  slot list is the old one with that slot free and joined with a free slot directly before and a
  free slot directly after it.\<close>

theorem free_joins_neighbours:
  assumes "heap_at s (xs @ (p, q, False) # ys)"
  shows "\<exists>t. rtl_free (p + 8) s = Some t \<and> heap_at t (free_abs p (xs @ (p, q, False) # ys))
    \<and> (\<forall>x. x \<notin> free_bytes (xs @ (p, q, False) # ys) \<and> (x < p \<or> p + 8 \<le> x) \<longrightarrow> mem t x = mem s x)"
proof -
  obtain t where "rtl_free (p + 8) s = Some t" "heap_at t (free_abs p (xs @ (p, q, False) # ys))"
    using rtl_free_heap [OF assms] by blast
  then show ?thesis using rtl_free_frame [OF assms] by blast
qed

theorem free_joins_neighbours_witness:
  "\<exists>t. rtl_free 0x1020 (demo_arena [(0x1000, 0x1018, 0), (0x1018, 0x2000, 0)] 0x1000 0x2000) = Some t
    \<and> heap_at t [(0x1000, 0x2000, True)]"
  using free_joins_neighbours [of _ "[(0x1000, 0x1018, True)]" "0x1018" "0x2000" "[]"] demo_split by fastforce

text \<open>C3. A caller that allocates, writes only inside the block it got, and frees it, finds the arena
  well formed, holds the same blocks as before, and finds their contents unchanged.\<close>

theorem alloc_fill_free_safe:
  fixes K :: "'k kernel"
  assumes "heap_at s ss" "has_room sz ss"
  shows "\<exists>p s1 ss1. rtl_alloc K sz s = Some (p, s1) \<and> heap_at s1 ss1 \<and> p \<noteq> 0 \<and> holds_slot ss1 p
    \<and> (\<forall>x. p \<le> x \<and> unat x < unat p + unat sz \<longrightarrow> x \<in> slot_extent ss1 p)
    \<and> (\<forall>m. (\<forall>x. x \<notin> slot_extent ss1 p \<longrightarrow> m x = mem s1 x) \<longrightarrow>
        (\<exists>s2 ss2. rtl_free p (s1\<lparr>mem := m\<rparr>) = Some s2 \<and> heap_at s2 ss2
          \<and> (\<forall>r. holds_slot ss2 r \<longleftrightarrow> holds_slot ss r)
          \<and> (\<forall>r x. holds_slot ss r \<and> x \<in> slot_extent ss r \<longrightarrow> x \<in> slot_extent ss2 r \<and> mem s2 x = mem s x)))"
  using assms by (rule arena.alloc_fill_free)

theorem alloc_fill_free_safe_witness:
  "\<exists>p s1. rtl_alloc demo_kernel 16 (demo_arena [(0x1000, 0x2000, 0)] 0x1000 0x2000) = Some (p, s1) \<and> p \<noteq> 0"
proof -
  have "has_room 16 [(0x1000, 0x2000, True)]"
    by (simp add: has_room_def alloc_abs_def carve_def slot_units_def c_align_def)
  then show ?thesis using alloc_fill_free_safe [OF demo_free, of 16 demo_kernel] by blast
qed

section \<open>Growth\<close>

text \<open>C4. When nothing is free, \<open>rtl_alloc\<close> asks the kernel for whole pages and, if the kernel moves
  the break there, cuts the block from the new pages and leaves every old byte as it was.\<close>

theorem alloc_grows:
  assumes "heap_at s ss" "\<forall>(p, q, f) \<in> set ss. \<not> f" "unat sz \<le> 0x7FFFFF0" "unat (arena_brk s) \<le> 0xB8000000"
    and "b = arena_brk s + c_align (slot_units sz * 8) 4096" "brk_grants K b b s"
  shows "\<exists>s'. rtl_alloc K sz s = Some (arena_brk s + 8, s')
    \<and> heap_at s' (ss @ carve (slot_units sz) (arena_brk s, b, True))
    \<and> (\<forall>x. x < arena_brk s \<or> b \<le> x \<longrightarrow> mem s' x = mem s x)"
  unfolding rtl_alloc_loop [OF assms(3)]
  using alloc_loop_grow [OF assms(1,2) slot_units_pos slot_units_fits(1) [OF assms(3)] assms(5,4,6)] .

theorem alloc_grows_witness:
  "\<exists>s'. rtl_alloc demo_kernel 16 (demo_arena [(0x1000, 0x2000, 0)] 0 0x2000) = Some (0x2008, s')
    \<and> heap_at s' [(0x1000, 0x2000, False), (0x2000, 0x2018, False), (0x2018, 0x3000, True)]"
  using alloc_grows [OF demo_used, of 16 "0x3000" demo_kernel]
  by (auto simp: demo_arena_def brk_grants_def demo_kernel_def slot_units_def c_align_def carve_def)

text \<open>C5. The first allocation of a process reads the break, starts the arena at the next page
  boundary and serves the request from there.\<close>

theorem alloc_first_call:
  fixes s :: "'k machine" and K :: "'k kernel"
  assumes "arena_brk s = 0" "free_anchor s = 0" "sys_brk K 0 s = (b, s\<lparr>kern := k\<rparr>)"
    and "a = c_align b 4096" "a \<noteq> 0" "unat a \<le> 0xB8000000" "aligned 8 a" "unat sz \<le> 0x7FFFFF0"
    and "e = a + c_align (slot_units sz * 8) 4096" "brk_grants K e e (heap_start b k s)"
  shows "\<exists>s'. rtl_alloc K sz s = Some (a + 8, s') \<and> heap_at s' (carve (slot_units sz) (a, e, True))"
proof -
  have a: "arena_brk (heap_start b k s) = a" using assms(4) by (simp add: heap_start_def)
  have "heap_at (heap_start b k s) []"
    using assms(2,4-7) by (intro heap_at_heap_start) (simp_all add: word_le_nat_alt)
  then show ?thesis
    using alloc_loop_grow [of "heap_start b k s" "[]" "slot_units sz" e K] slot_units_pos
      slot_units_fits(1) [OF assms(8)] assms(5,6,9,10)
    unfolding rtl_alloc_loop [OF assms(8)] alloc_loop_first [OF assms(1-3) assms(5) [unfolded assms(4)]] a
    by auto
qed

theorem alloc_first_call_witness:
  "\<exists>s'. rtl_alloc (\<lambda>nr args (m, k). (if args = [0] then 0x1234 else hd args, m, k)) 16
      \<lparr>mem = \<lambda>_. 0, free_anchor = 0, first_slot = 0, arena_brk = 0, sys_errno = 0, kern = ()\<rparr>
    = Some (0x2008, s') \<and> heap_at s' [(0x2000, 0x2018, False), (0x2018, 0x3000, True)]"
  using alloc_first_call
    [of "\<lparr>mem = \<lambda>_. 0, free_anchor = 0, first_slot = 0, arena_brk = 0, sys_errno = 0, kern = ()\<rparr>"
      "\<lambda>nr args (m, k). (if args = [0] then 0x1234 else hd args, m, k)" "0x1234" "()" "0x2000" 16 "0x3000"]
  by (simp add: sys_brk_def real_syscall_def c_align_def aligned_def slot_units_def brk_grants_def
      heap_start_def carve_def)

section \<open>Defects\<close>

text \<open>C6. When free slots exist but none fits, the growth moves the end of the last free slot to the
  old break although allocated slots lie between; the next round hands out a block that starts in
  that slot and runs over the slots the program still holds.\<close>

theorem alloc_swallows_held_blocks:
  assumes "heap_at s (xs @ (p, q, True) # ys)" "\<forall>(a, e, f) \<in> set ys. \<not> f"
    and "fit (slot_units sz) (xs @ (p, q, True) # ys) = None" "unat sz \<le> 0x7FFFFF0"
    and "p + 8 * slot_units sz \<le> arena_brk s" "unat (arena_brk s) \<le> 0xB8000000"
    and "b = arena_brk s + c_align (slot_units sz * 8) 4096" "brk_grants K b b s"
  shows "\<exists>s'. rtl_alloc K sz s = Some (p + 8, s') \<and> q < p + 8 * slot_units sz"
  unfolding rtl_alloc_loop [OF assms(4)]
  using alloc_loop_swallows [OF assms(1,2) slot_units_pos slot_units_fits(1) [OF assms(4)] assms(3,5,6)
      assms(8) [unfolded assms(7)]] fit_None_small(2) [OF assms(3)] by blast

theorem alloc_swallows_held_blocks_witness:
  "\<exists>s'. rtl_alloc demo_kernel 32 (demo_arena [(0x1000, 0x1018, 0), (0x1018, 0x2000, 0)] 0x1000 0x2000)
    = Some (0x1008, s') \<and> (0x1018::u32) < 0x1000 + 8 * slot_units 32"
  using alloc_swallows_held_blocks [of _ "[]" "0x1000" "0x1018" "[(0x1018, 0x2000, False)]" 32 "0x3000" demo_kernel] demo_split
  by (simp add: demo_arena_def brk_grants_def demo_kernel_def slot_units_def c_align_def)

text \<open>C7. A request of \<open>0xFFFFFFF9\<close> bytes or more is not refused: the rounding wraps to zero and the
  caller gets a block of one unit, the header alone.\<close>

theorem alloc_size_wraps:
  assumes "heap_at s ss" "0xFFFFFFF9 \<le> sz" "alloc_abs 1 ss = Some (ptr, ss')"
  shows "\<exists>s'. rtl_alloc K sz s = Some (ptr, s') \<and> heap_at s' ss'"
  using rtl_alloc_hit [OF assms(1), of sz ptr ss' K] assms(3) unfolding slot_units_wrapped [OF assms(2)] by auto

theorem alloc_size_wraps_witness:
  "\<exists>s'. rtl_alloc demo_kernel 0xFFFFFFFF (demo_arena [(0x1000, 0x2000, 0)] 0x1000 0x2000) = Some (0x1008, s')
    \<and> heap_at s' [(0x1000, 0x1008, False), (0x1008, 0x2000, True)]"
  using alloc_size_wraps [OF demo_free, of "0xFFFFFFFF" "0x1008" "[(0x1000, 0x1008, False), (0x1008, 0x2000, True)]" demo_kernel]
  by (simp add: alloc_abs_def carve_def)

end
