(* ===== verification/VM_Stack.thy ===== *)
theory VM_Stack
  imports Mette_Machine
begin

text \<open>
  The operand stack of \<open>src/vm/vm_stack.c\<close>: a record of three pointers into a mapped
  region, growing downwards, with the word at \<open>top\<close> on top. The abstraction
  \<open>stack_words\<close> reads the stack as a list, top first; the interface \<open>operand_stack\<close>
  states what the rest of the virtual machine relies on.
\<close>

section \<open>Words in memory\<close>

primrec read_words :: "memory \<Rightarrow> u32 \<Rightarrow> nat \<Rightarrow> u32 list" where
  "read_words m a 0 = []"
| "read_words m a (Suc n) = ld32 m a # read_words m (a + 4) n"

primrec write_words :: "memory \<Rightarrow> u32 \<Rightarrow> u32 list \<Rightarrow> memory" where
  "write_words m a [] = m"
| "write_words m a (w # ws) = write_words (st32 m a w) (a + 4) ws"

lemma length_read_words [simp]: "length (read_words m a n) = n"
  by (induction n arbitrary: a) auto

lemma read_words_cong:
  "(\<And>i. i < n \<Longrightarrow> ld32 m (a + 4 * of_nat i) = ld32 m' (a + 4 * of_nat i))
     \<Longrightarrow> read_words m a n = read_words m' a n"
proof (induction n arbitrary: a)
  case (Suc n)
  have "read_words m (a + 4) n = read_words m' (a + 4) n"
    using Suc.prems [of "Suc _"] by (intro Suc.IH) (simp add: algebra_simps)
  with Suc.prems [of 0] show ?case by simp
qed simp

lemma read_words_append: "read_words m a (k + n) = read_words m a k @ read_words m (a + 4 * of_nat k) n"
  by (induction k arbitrary: a) (simp_all add: algebra_simps)

text \<open>Word slots of an aligned region do not overlap.\<close>

lemma word_slots_distinct:
  fixes a :: u32
  assumes "i < 2 ^ 30" "j < 2 ^ 30" "i \<noteq> j"
  shows "a + 4 * of_nat i \<noteq> a + 4 * of_nat j"
proof
  assume "a + 4 * of_nat i = a + 4 * of_nat j"
  then have "(of_nat (4 * i) :: u32) = of_nat (4 * j)" by simp
  then have "unat (of_nat (4 * i) :: u32) = unat (of_nat (4 * j) :: u32)" by (rule arg_cong)
  moreover have "unat (of_nat (4 * k) :: u32) = 4 * k" if "k < 2 ^ 30" for k
    using that by (simp only: unat_of_nat) simp
  ultimately show False using assms by simp
qed

lemma ld32_st32_slot:
  assumes "aligned 4 a" "i < 2 ^ 30" "j < 2 ^ 30" "i \<noteq> j"
  shows "ld32 (st32 m (a + 4 * of_nat i) v) (a + 4 * of_nat j) = ld32 m (a + 4 * of_nat j)"
  using assms by (intro ld32_st32_disjoint aligned_regions_disjoint aligned_add4 word_slots_distinct)

lemma write_words_frame_slot:
  "aligned 4 a \<Longrightarrow> j < 2 ^ 30 \<Longrightarrow> length ws + k \<le> 2 ^ 30 \<Longrightarrow> j < k \<or> k + length ws \<le> j
     \<Longrightarrow> ld32 (write_words m (a + 4 * of_nat k) ws) (a + 4 * of_nat j) = ld32 m (a + 4 * of_nat j)"
proof (induction ws arbitrary: m k)
  case (Cons w ws)
  have "ld32 (write_words (st32 m (a + 4 * of_nat k) w) (a + 4 * of_nat (Suc k)) ws) (a + 4 * of_nat j)
      = ld32 (st32 m (a + 4 * of_nat k) w) (a + 4 * of_nat j)"
    using Cons.prems by (intro Cons.IH) auto
  moreover have "\<dots> = ld32 m (a + 4 * of_nat j)"
    using Cons.prems by (intro ld32_st32_slot) auto
  ultimately show ?case by (simp add: algebra_simps)
qed simp

lemma read_write_words:
  "aligned 4 a \<Longrightarrow> length ws \<le> 2 ^ 30 \<Longrightarrow> read_words (write_words m a ws) a (length ws) = ws"
proof (induction ws arbitrary: m a)
  case (Cons w ws)
  have "ld32 (write_words (st32 m a w) (a + 4 * of_nat 1) ws) (a + 4 * of_nat 0)
      = ld32 (st32 m a w) (a + 4 * of_nat 0)"
    using Cons.prems by (intro write_words_frame_slot) auto
  moreover have "read_words (write_words (st32 m a w) (a + 4) ws) (a + 4) (length ws) = ws"
    using Cons.prems aligned_add4 [of a 1] by (intro Cons.IH) auto
  ultimately show ?case by simp
qed simp

section \<open>The stack and its operations\<close>

record vm_stack =
  bottom :: u32
  limit :: u32
  top :: u32

text \<open>
  \<open>vm_stack_create\<close>: the header comes from the allocator passed in (\<open>vm_alloc\<close> is
  \<open>rtl_alloc\<close>), the words from \<open>mmap\<close> with
  \<open>PROT_READ|PROT_WRITE = 3\<close> and \<open>MAP_PRIVATE|MAP_ANONYMOUS|MAP_GROWSDOWN = 0x122\<close>.
\<close>

definition vm_stack_create ::
  "(u32 \<Rightarrow> 'k machine \<Rightarrow> (u32 \<times> 'k machine) option) \<Rightarrow> 'k kernel \<Rightarrow> u32 \<Rightarrow> 'k machine
     \<Rightarrow> stop + 'k machine \<times> vm_stack" where
  "vm_stack_create alloc K max_size s =
     bind_res (returns (alloc 12 s)) (\<lambda>(stack, s).
     if stack = 0 then Inl (Panic ''vm_stack_create: vm_alloc failed.'')
     else case sys_mmap K 0 max_size 3 0x122 (- 1) 0 s of (stack_mem, s) \<Rightarrow>
       if stack_mem = - 1 then Inl (Panic ''vm_stack_create: vm_mmap failed.'')
       else let b = stack_mem + 4 * (max_size div 4)
            in Inr (s, \<lparr>bottom = b, limit = stack_mem, top = b\<rparr>))"

definition vm_stack_push3 :: "memory \<Rightarrow> vm_stack \<Rightarrow> u32 list \<Rightarrow> stop + memory \<times> vm_stack" where
  "vm_stack_push3 m s src =
     (let t = top s - 4 * of_nat (length src)
      in if t < limit s then Inl (Panic ''vm_stack_push: stack overflow'')
         else Inr (write_words m t src, s\<lparr>top := t\<rparr>))"

definition vm_stack_push :: "memory \<Rightarrow> vm_stack \<Rightarrow> u32 \<Rightarrow> stop + memory \<times> vm_stack" where
  "vm_stack_push m s v = vm_stack_push3 m s [v]"

definition vm_stack_pop3 :: "memory \<Rightarrow> vm_stack \<Rightarrow> nat \<Rightarrow> stop + u32 list \<times> vm_stack" where
  "vm_stack_pop3 m s count =
     (let t = top s
      in if bottom s < t + 4 * of_nat count then Inl (Panic ''vm_stack_pop: stack underflow'')
         else Inr (read_words m t count, s\<lparr>top := t + 4 * of_nat count\<rparr>))"

definition vm_stack_pop :: "memory \<Rightarrow> vm_stack \<Rightarrow> stop + u32 \<times> vm_stack" where
  "vm_stack_pop m s = bind_res (vm_stack_pop3 m s 1) (\<lambda>(ws, s'). Inr (hd ws, s'))"

definition vm_stack_top :: "vm_stack \<Rightarrow> u32" where
  "vm_stack_top s = top s"

section \<open>The stack as a list\<close>

text \<open>
  The invariant: word-aligned pointers with \<open>limit \<le> top \<le> bottom\<close>, inside user space
  and above the first pages, which \<open>mmap\<close> never hands out.
\<close>

definition stack_ok :: "vm_stack \<Rightarrow> bool" where
  "stack_ok s \<longleftrightarrow> aligned 4 (limit s) \<and> aligned 4 (top s) \<and> aligned 4 (bottom s)
     \<and> 0x10000 \<le> unat (limit s) \<and> unat (limit s) \<le> unat (top s) \<and> unat (top s) \<le> unat (bottom s)
     \<and> unat (bottom s) \<le> 0xC0000000"

definition depth :: "vm_stack \<Rightarrow> nat" where
  "depth s = (unat (bottom s) - unat (top s)) div 4"

definition capacity :: "vm_stack \<Rightarrow> nat" where
  "capacity s = (unat (bottom s) - unat (limit s)) div 4"

definition stack_words :: "memory \<Rightarrow> vm_stack \<Rightarrow> u32 list" where
  "stack_words m s = read_words m (top s) (depth s)"

definition stack_bytes :: "vm_stack \<Rightarrow> u32 set" where
  "stack_bytes s = {x. limit s \<le> x \<and> x < bottom s}"

lemma length_stack_words [simp]: "length (stack_words m s) = depth s"
  by (simp add: stack_words_def)

lemma unat_sub4: "4 * n \<le> unat a \<Longrightarrow> unat (a - 4 * of_nat n) = unat a - 4 * n" for a :: u32
proof -
  assume n: "4 * n \<le> unat a"
  then have "4 * n < 2 ^ 32" using unsigned_less [of a, where ?'a = nat] by simp
  then have u: "unat (of_nat (4 * n) :: u32) = 4 * n" by (simp only: unat_of_nat) simp
  have "unat (a - of_nat (4 * n)) = unat a - 4 * n"
    using n u by (subst unat_sub) (simp_all only: word_le_nat_alt)
  then show ?thesis by simp
qed

lemma unat_add4: "unat a + 4 * n < 2 ^ 32 \<Longrightarrow> unat (a + 4 * of_nat n) = unat a + 4 * n" for a :: u32
proof -
  assume n: "unat a + 4 * n < 2 ^ 32"
  then have u: "unat (of_nat (4 * n) :: u32) = 4 * n" by (simp only: unat_of_nat) simp
  have "unat (a + of_nat (4 * n)) = unat a + 4 * n"
    using n by (subst unat_add_no_wrap) (simp_all only: u)
  then show ?thesis by simp
qed

lemma write_words_frame:
  assumes "unat a + 4 * length ws < 2 ^ 32" "x < a \<or> a + 4 * of_nat (length ws) \<le> x"
  shows "write_words m a ws x = m x"
  using assms
proof (induction ws arbitrary: m a)
  case (Cons w ws)
  have a4: "unat (a + 4) = unat a + 4" using Cons.prems(1) unat_add4 [of a 1] by simp
  have "unat (a + 4 * of_nat (length (w # ws))) = unat a + 4 * length (w # ws)"
    using Cons.prems(1) by (rule unat_add4)
  then have out: "unat x < unat a \<or> unat a + 4 * length (w # ws) \<le> unat x"
    using Cons.prems(2) by (simp only: word_less_nat_alt word_le_nat_alt)
  have "unat (a + 4 + 4 * of_nat (length ws)) = unat a + 4 + 4 * length ws"
    using Cons.prems(1) a4 by (subst unat_add4) auto
  then have "write_words (st32 m a w) (a + 4) ws x = st32 m a w x"
    using Cons.prems(1) out a4 by (intro Cons.IH) (auto simp: word_less_nat_alt word_le_nat_alt)
  moreover have "x \<notin> region a 4"
  proof
    assume "x \<in> region a 4"
    then obtain i where "i < 4" "x = a + of_nat i" by (auto simp: region_iff)
    then have "unat x = unat a + i"
      using Cons.prems(1) by (auto simp: unat_add_no_wrap unat_of_nat)
    with out \<open>i < 4\<close> show False by simp
  qed
  ultimately show ?case by (simp add: st32_frame)
qed simp

lemma stack_okD:
  assumes "stack_ok s"
  shows "unat (bottom s) = unat (top s) + 4 * depth s"
    and "unat (bottom s) = unat (limit s) + 4 * capacity s"
    and "aligned 4 (top s)" and "0x10000 \<le> unat (limit s)" and "unat (bottom s) \<le> 0xC0000000"
    and "unat (limit s) \<le> unat (top s)"
  using assms by (auto simp: stack_ok_def depth_def capacity_def aligned_def dvd_diff_nat)

lemma stack_ok_retop:
  assumes "stack_ok s" "unat t + 4 * d = unat (bottom s)" "d \<le> capacity s"
  shows "stack_ok (s\<lparr>top := t\<rparr>)" and "depth (s\<lparr>top := t\<rparr>) = d"
proof -
  have "4 dvd unat (bottom s)" using assms(1) by (simp add: stack_ok_def aligned_def)
  then have "4 dvd unat t" using assms(2) by (metis dvd_add_left_iff dvd_triv_left)
  then show "stack_ok (s\<lparr>top := t\<rparr>)"
    using assms stack_okD(2) [OF assms(1)] by (auto simp: stack_ok_def aligned_def)
  show "depth (s\<lparr>top := t\<rparr>) = d" using assms(2) by (simp add: depth_def)
qed

lemma capacity_retop [simp]: "capacity (s\<lparr>top := t\<rparr>) = capacity s"
  by (simp add: capacity_def)

lemma depth_le_capacity: "stack_ok s \<Longrightarrow> depth s \<le> capacity s"
  by (auto simp: stack_ok_def depth_def capacity_def intro!: div_le_mono)

lemma depth_bound: "stack_ok s \<Longrightarrow> depth s < 2 ^ 30"
  using stack_okD(1,5) [of s] by simp

subsection \<open>Pushing\<close>

lemma push3_fits:
  assumes ok: "stack_ok s" and n: "length ws \<le> 0x4000" and room: "depth s + length ws \<le> capacity s"
  shows "vm_stack_push3 m s ws =
    Inr (write_words m (top s - 4 * of_nat (length ws)) ws, s\<lparr>top := top s - 4 * of_nat (length ws)\<rparr>)"
proof -
  note d = stack_okD [OF ok]
  have "unat (top s - 4 * of_nat (length ws)) = unat (top s) - 4 * length ws"
    using d n by (intro unat_sub4) linarith
  then show ?thesis using d room by (simp add: vm_stack_push3_def Let_def word_less_nat_alt)
qed

lemma push3_overflow:
  assumes ok: "stack_ok s" and n: "length ws \<le> 0x4000" and room: "capacity s < depth s + length ws"
  shows "vm_stack_push3 m s ws = Inl (Panic ''vm_stack_push: stack overflow'')"
proof -
  note d = stack_okD [OF ok]
  have "unat (top s - 4 * of_nat (length ws)) = unat (top s) - 4 * length ws"
    using d n by (intro unat_sub4) linarith
  then show ?thesis using d room n by (simp add: vm_stack_push3_def Let_def word_less_nat_alt)
qed

text \<open>The bytes a push writes lie between \<open>limit\<close> and the old \<open>top\<close>.\<close>

lemma push3_words:
  assumes ok: "stack_ok s" and n: "length ws \<le> 0x4000" and room: "depth s + length ws \<le> capacity s"
    and eq: "vm_stack_push3 m s ws = Inr (m', s')"
  shows "stack_words m' s' = ws @ stack_words m s"
    and "stack_ok s' \<and> bottom s' = bottom s \<and> limit s' = limit s \<and> depth s' = length ws + depth s"
    and "x \<notin> stack_bytes s \<Longrightarrow> m' x = m x"
proof -
  note d = stack_okD [OF ok]
  define t where "t = top s - 4 * of_nat (length ws)"
  have ut: "unat t = unat (top s) - 4 * length ws" unfolding t_def
    using d n by (intro unat_sub4) linarith
  have le: "4 * length ws \<le> unat (top s)" using d n by linarith
  have m': "m' = write_words m t ws" and s': "s' = s\<lparr>top := t\<rparr>"
    using eq push3_fits [OF ok n room] by (simp_all add: t_def)
  have tback: "t + 4 * of_nat (length ws) = top s" by (simp add: t_def)
  have sum: "unat t + 4 * (length ws + depth s) = unat (bottom s)" using ut d le by simp
  have lim: "unat (limit s) \<le> unat t" using sum d(2) room by simp
  have al: "aligned 4 t" using stack_ok_retop(1) [OF ok sum] room d
    by (simp add: stack_ok_def)
  show ok': "stack_ok s' \<and> bottom s' = bottom s \<and> limit s' = limit s \<and> depth s' = length ws + depth s"
    using stack_ok_retop [OF ok sum] room by (simp add: s')
  have b30: "length ws + depth s < 2 ^ 30" using sum d(5) by simp
  have "read_words m' (top s) (depth s) = read_words m (top s) (depth s)"
  proof (rule read_words_cong)
    fix i assume i: "i < depth s"
    have "ld32 (write_words m (t + 4 * of_nat 0) ws) (t + 4 * of_nat (length ws + i))
        = ld32 m (t + 4 * of_nat (length ws + i))"
      using al i b30 by (intro write_words_frame_slot) auto
    then show "ld32 m' (top s + 4 * of_nat i) = ld32 m (top s + 4 * of_nat i)"
      by (simp add: m' flip: tback) (simp add: algebra_simps)
  qed
  then show "stack_words m' s' = ws @ stack_words m s"
    using ok' al b30 by (simp add: stack_words_def s' read_words_append tback)
       (simp add: m' read_write_words)
  assume x: "x \<notin> stack_bytes s"
  have "unat t + 4 * length ws < 2 ^ 32" using sum d(5) by simp
  then show "m' x = m x" unfolding m'
  proof (rule write_words_frame)
    show "x < t \<or> t + 4 * of_nat (length ws) \<le> x"
      using x lim d(1) unfolding tback stack_bytes_def
      by (auto simp: word_less_nat_alt word_le_nat_alt)
  qed
qed

subsection \<open>Popping\<close>

lemma pop3_fits:
  assumes ok: "stack_ok s" and n: "n \<le> depth s"
  shows "vm_stack_pop3 m s n = Inr (take n (stack_words m s), s\<lparr>top := top s + 4 * of_nat n\<rparr>)"
    and "stack_words m (s\<lparr>top := top s + 4 * of_nat n\<rparr>) = drop n (stack_words m s)"
    and "stack_ok (s\<lparr>top := top s + 4 * of_nat n\<rparr>)"
    and "depth (s\<lparr>top := top s + 4 * of_nat n\<rparr>) = depth s - n"
proof -
  note d = stack_okD [OF ok]
  have ut: "unat (top s + 4 * of_nat n) = unat (top s) + 4 * n" using d n by (intro unat_add4) simp
  have sum: "unat (top s + 4 * of_nat n) + 4 * (depth s - n) = unat (bottom s)" using ut d n by simp
  have cap: "depth s - n \<le> capacity s" using depth_le_capacity [OF ok] by simp
  show "stack_ok (s\<lparr>top := top s + 4 * of_nat n\<rparr>)"
    and dp: "depth (s\<lparr>top := top s + 4 * of_nat n\<rparr>) = depth s - n"
    using stack_ok_retop [OF ok sum cap] by auto
  have split: "stack_words m s = read_words m (top s) n @ read_words m (top s + 4 * of_nat n) (depth s - n)"
    using n read_words_append [of m "top s" n "depth s - n"] by (simp add: stack_words_def)
  show "vm_stack_pop3 m s n = Inr (take n (stack_words m s), s\<lparr>top := top s + 4 * of_nat n\<rparr>)"
    using ut d n by (simp add: vm_stack_pop3_def Let_def word_less_nat_alt split)
  show "stack_words m (s\<lparr>top := top s + 4 * of_nat n\<rparr>) = drop n (stack_words m s)"
    by (simp add: split dp) (simp add: stack_words_def dp)
qed

lemma pop3_underflow:
  assumes ok: "stack_ok s" and n: "depth s < n" "n \<le> 0x4000"
  shows "vm_stack_pop3 m s n = Inl (Panic ''vm_stack_pop: stack underflow'')"
proof -
  note d = stack_okD [OF ok]
  have "unat (top s + 4 * of_nat n) = unat (top s) + 4 * n" using d n by (intro unat_add4) simp
  then show ?thesis using d n by (simp add: vm_stack_pop3_def Let_def word_less_nat_alt)
qed

section \<open>The interface the virtual machine relies on\<close>

text \<open>
  A bounded stack over some memory: \<open>words\<close> is its content, top first, \<open>cap\<close> the number
  of words it can hold, \<open>chunk\<close> the most words one call moves.
\<close>

locale operand_stack =
  fixes push3 :: "'m \<Rightarrow> 's \<Rightarrow> 'v list \<Rightarrow> 'e + 'm \<times> 's"
    and pop3 :: "'m \<Rightarrow> 's \<Rightarrow> nat \<Rightarrow> 'e + 'v list \<times> 's"
    and words :: "'m \<Rightarrow> 's \<Rightarrow> 'v list"
    and cap :: "'s \<Rightarrow> nat"
    and ok :: "'s \<Rightarrow> bool"
    and chunk :: nat
  assumes push_fits: "\<lbrakk>ok s; length ws \<le> chunk; length (words m s) + length ws \<le> cap s\<rbrakk>
      \<Longrightarrow> \<exists>m' s'. push3 m s ws = Inr (m', s')"
    and push_full: "\<lbrakk>ok s; length ws \<le> chunk; cap s < length (words m s) + length ws\<rbrakk>
      \<Longrightarrow> \<exists>e. push3 m s ws = Inl e"
    and push_words: "\<lbrakk>ok s; length ws \<le> chunk; push3 m s ws = Inr (m', s')\<rbrakk>
      \<Longrightarrow> ok s' \<and> cap s' = cap s \<and> words m' s' = ws @ words m s"
    and pop_fits: "\<lbrakk>ok s; n \<le> length (words m s)\<rbrakk>
      \<Longrightarrow> \<exists>s'. pop3 m s n = Inr (take n (words m s), s') \<and> ok s' \<and> cap s' = cap s
            \<and> words m s' = drop n (words m s)"
    and pop_empty: "\<lbrakk>ok s; n \<le> chunk; length (words m s) < n\<rbrakk> \<Longrightarrow> \<exists>e. pop3 m s n = Inl e"
begin

lemma push_iff:
  "ok s \<Longrightarrow> length ws \<le> chunk
     \<Longrightarrow> (\<exists>m' s'. push3 m s ws = Inr (m', s')) \<longleftrightarrow> length (words m s) + length ws \<le> cap s"
  using push_fits push_full by (metis not_le sum.distinct(1))

lemma pop_iff:
  "ok s \<Longrightarrow> n \<le> chunk \<Longrightarrow> (\<exists>ws s'. pop3 m s n = Inr (ws, s')) \<longleftrightarrow> n \<le> length (words m s)"
  using pop_fits pop_empty by (metis not_le sum.distinct(1))

lemma pop_words:
  "\<lbrakk>ok s; n \<le> chunk; pop3 m s n = Inr (ws, s')\<rbrakk>
     \<Longrightarrow> ok s' \<and> cap s' = cap s \<and> words m s = ws @ words m s' \<and> length ws = n"
  using pop_fits [of s n m] pop_empty [of s n m]
  by (cases "n \<le> length (words m s)") (auto simp: not_le)

text \<open>What one push stores, one pop of as many words returns, in the same order.\<close>

lemma push_pop:
  assumes "ok s" "length ws \<le> chunk" "push3 m s ws = Inr (m', s')"
  shows "\<exists>s''. pop3 m' s' (length ws) = Inr (ws, s'') \<and> ok s'' \<and> words m' s'' = words m s"
proof -
  have p: "ok s'" "words m' s' = ws @ words m s" using push_words [OF assms] by auto
  show ?thesis using pop_fits [OF p(1), of "length ws" m'] p(2) by auto
qed

text \<open>The effect of an instruction: operands off, results on.\<close>

lemma exchange:
  assumes "ok s" "n \<le> chunk" "length rs \<le> chunk"
    and "pop3 m s n = Inr (args, s1)" "push3 m' s1 rs = Inr (m2, s2)"
    and "words m' s1 = words m s1"
  shows "ok s2 \<and> cap s2 = cap s \<and> args = take n (words m s) \<and> words m2 s2 = rs @ drop n (words m s)"
  using pop_words [OF assms(1,2,4)] push_words [of s1 rs m' m2 s2] assms(3,5,6) by auto

end

interpretation vms: operand_stack vm_stack_push3 vm_stack_pop3 stack_words capacity stack_ok "0x4000"
proof (unfold_locales, goal_cases)
  case (1 s ws m)
  then show ?case by (simp add: push3_fits)
next
  case (2 s ws m)
  then show ?case by (simp add: push3_overflow)
next
  case (3 s ws m m' s')
  have room: "depth s + length ws \<le> capacity s"
    using 3 push3_overflow [of s ws m] by (cases "capacity s < depth s + length ws") auto
  show ?case
    using push3_words [OF 3(1,2) room 3(3)] by (simp add: capacity_def)
next
  case (4 s n m)
  then show ?case using pop3_fits(1,2) [of s n m] pop3_fits(3,4) [of s n] by simp
next
  case (5 s n m)
  then show ?case by (simp add: pop3_underflow)
qed

text \<open>Single words.\<close>

lemma vm_stack_pop_fits:
  assumes "stack_ok s" "0 < depth s"
  shows "vm_stack_pop m s = Inr (hd (stack_words m s), s\<lparr>top := top s + 4\<rparr>)"
  using pop3_fits(1) [OF assms(1), of 1 m] assms(2)
  by (cases "stack_words m s") (auto simp: vm_stack_pop_def dest: arg_cong [where f = length])

lemma push_frame:
  "\<lbrakk>stack_ok s; length ws \<le> 0x4000; vm_stack_push3 m s ws = Inr (m', s'); x \<notin> stack_bytes s\<rbrakk> \<Longrightarrow> m' x = m x"
  using push3_words(3) [of s ws m m' s' x] push3_overflow [of s ws m]
  by (cases "capacity s < depth s + length ws") auto

end
