(* ===== verification/VM_Opcodes.thy ===== *)
theory VM_Opcodes
  imports Mette_Memory
begin

text \<open>
  The instruction table of \<open>src/vm_arch/vm_opcodes.in\<close>, the generator
  \<open>vm_gen_opcodes.c\<close> that turns it into the three \<open>.tab\<close> files, those files as they are
  checked in, and the decoding of an opcode byte by the interpreter.
\<close>

section \<open>The instruction table\<close>

record vm_opcode_info_t =
  mnemonic :: string
  description :: string
  stack_in :: u8
  stack_out :: u8

abbreviation op_info :: "string \<Rightarrow> string \<Rightarrow> u8 \<Rightarrow> u8 \<Rightarrow> vm_opcode_info_t" where
  "op_info mn descr i r \<equiv> \<lparr>mnemonic = mn, description = descr, stack_in = i, stack_out = r\<rparr>"

definition opcodes :: "vm_opcode_info_t list" where
  "opcodes = [
    op_info ''ADD'' ''Addition'' 2 1,
    op_info ''SUB'' ''Subtraction'' 2 1,
    op_info ''MULU'' ''Multiplication (unsigned*unsigned)'' 2 2,
    op_info ''MULS'' ''Multiplication (signed*signed)'' 2 2,
    op_info ''DIVU'' ''Division (unsigned/unsigned)'' 2 2,
    op_info ''DIVS'' ''Division (signed/signed)'' 2 2,
    op_info ''AND'' ''Bitwise AND'' 2 1,
    op_info ''OR'' ''Bitwise OR'' 2 1,
    op_info ''XOR'' ''Bitwise XOR'' 2 1,
    op_info ''NOT'' ''Bitwise NOT'' 2 1,
    op_info ''LSL'' ''Logical shift left'' 2 1,
    op_info ''LSR'' ''Logical shift right'' 2 1,
    op_info ''ASR'' ''Arithmetic shift right'' 2 1,
    op_info ''CMP.LT'' ''Compare (less than)'' 2 1,
    op_info ''CMP.GT'' ''Compare (greater than)'' 2 1,
    op_info ''CMP.B'' ''Compare (below)'' 2 1,
    op_info ''CMP.A'' ''Compare (above)'' 2 1,
    op_info ''CMP.EQ'' ''Compare (equal)'' 2 1,
    op_info ''LDC.0'' ''Load 0 on the stack'' 0 1,
    op_info ''LDC.1'' ''Load 1 on the stack'' 0 1,
    op_info ''LDC.2'' ''Load 2 on the stack'' 0 1,
    op_info ''LDC.UB'' ''Load an unsigned byte on the stack'' 0 1,
    op_info ''LDC.SB'' ''Load a signed byte on the stack'' 0 1,
    op_info ''LDC.W'' ''Load a 32-bit value on the stack'' 0 1,
    op_info ''LEA'' ''Load an effective address on the stack'' 0 1,
    op_info ''LDM.UB'' ''Load a 8-bit unsigned from memory'' 1 1,
    op_info ''LDM.SB'' ''Load a 8-bit signed from memory'' 1 1,
    op_info ''LDM.UH'' ''Load a 16-bit unsigned from memory'' 1 1,
    op_info ''LDM.SH'' ''Load a 16-bit signed from memory'' 1 1,
    op_info ''LDM.W'' ''Load a 32-bit from memory'' 1 1,
    op_info ''STM.B'' ''Store a 8-bit to memory'' 2 0,
    op_info ''STM.H'' ''Store a 16-bit to memory'' 2 0,
    op_info ''STM.W'' ''Store a 32-bit to memory'' 2 0,
    op_info ''LOCALS'' ''Create a space for local vars'' 0 0,
    op_info ''LDLOC'' ''Load a local'' 0 1,
    op_info ''STLOC'' ''Store a local'' 1 0,
    op_info ''DUP'' ''Duplicate the topmost entry on the stack'' 1 2,
    op_info ''SWAP'' ''Swap two entries on the top of the stack'' 2 2,
    op_info ''POP'' ''Discard the topmost entry on the stack'' 1 0,
    op_info ''BR'' ''Branch short (8-bit offset)'' 0 0,
    op_info ''BR.T'' ''Branch if true (8-bit offset)'' 1 0,
    op_info ''BR.F'' ''Branch if false (8-bit offset)'' 1 0,
    op_info ''CALL'' ''Call a subroutine (32-bit offset)'' 0 0,
    op_info ''RET'' ''Return from the subroutine'' 0 0,
    op_info ''ICALL'' ''Indirect call'' 1 0,
    op_info ''IJMP'' ''Indirect jump'' 1 0,
    op_info ''NCALL'' ''Call a native subroutine'' 0 0]"

section \<open>The generator: \<open>vm_gen_opcodes.c\<close>\<close>

definition sanitize_mnem :: "string \<Rightarrow> string" where
  "sanitize_mnem text = map (\<lambda>c. if c = CHR ''.'' then CHR ''_'' else c) text"

definition make_opcode_value :: "nat \<Rightarrow> u8 \<Rightarrow> u8" where
  "make_opcode_value index argcount = of_nat index OR push_bit 6 argcount"

text \<open>
  \<open>main\<close>: refuse 64 opcodes or more, else the entries of the three tables: the labels of
  \<open>vm_opcodes.switch.tab\<close>, the bytes of \<open>vm_opcodes.codes.tab\<close> and the strings of
  \<open>vm_opcodes.names.tab\<close>.
\<close>

definition gen_tables :: "vm_opcode_info_t list \<Rightarrow> (string list \<times> u8 list \<times> string list) option" where
  "gen_tables infos =
     (if 64 \<le> length infos then None
      else Some (map (\<lambda>i. ''op_'' @ sanitize_mnem (mnemonic i)) infos,
                 map (\<lambda>(index, i). make_opcode_value index (stack_in i)) (enumerate 0 infos),
                 map mnemonic infos))"

section \<open>The generated files\<close>

text \<open>\<open>vm_opcodes.codes.tab\<close>, used by the assembler.\<close>

definition vm_insn_to_opcode :: "u8 list" where
  "vm_insn_to_opcode = [
    0x80, 0x81, 0x82, 0x83, 0x84, 0x85, 0x86, 0x87,
    0x88, 0x89, 0x8A, 0x8B, 0x8C, 0x8D, 0x8E, 0x8F,
    0x90, 0x91, 0x12, 0x13, 0x14, 0x15, 0x16, 0x17,
    0x18, 0x59, 0x5A, 0x5B, 0x5C, 0x5D, 0x9E, 0x9F,
    0xA0, 0x21, 0x22, 0x63, 0x64, 0xA5, 0x66, 0x27,
    0x68, 0x69, 0x2A, 0x2B, 0x6C, 0x6D, 0x2E]"

text \<open>\<open>vm_opcodes.names.tab\<close>, used by the interpreter's debug output.\<close>

definition vm_insn_to_name :: "string list" where
  "vm_insn_to_name = [
    ''ADD'', ''SUB'', ''MULU'', ''MULS'', ''DIVU'', ''DIVS'', ''AND'', ''OR'',
    ''XOR'', ''NOT'', ''LSL'', ''LSR'', ''ASR'', ''CMP.LT'', ''CMP.GT'', ''CMP.B'',
    ''CMP.A'', ''CMP.EQ'', ''LDC.0'', ''LDC.1'', ''LDC.2'', ''LDC.UB'', ''LDC.SB'', ''LDC.W'',
    ''LEA'', ''LDM.UB'', ''LDM.SB'', ''LDM.UH'', ''LDM.SH'', ''LDM.W'', ''STM.B'', ''STM.H'',
    ''STM.W'', ''LOCALS'', ''LDLOC'', ''STLOC'', ''DUP'', ''SWAP'', ''POP'', ''BR'',
    ''BR.T'', ''BR.F'', ''CALL'', ''RET'', ''ICALL'', ''IJMP'', ''NCALL'']"

text \<open>The labels of \<open>vm_step\<close>, and the dispatch table of \<open>vm_opcodes.switch.tab\<close>.\<close>

datatype vm_label =
    op_invalid
  | op_ADD | op_SUB | op_MULU | op_MULS | op_DIVU | op_DIVS
  | op_AND | op_OR | op_XOR | op_NOT | op_LSL | op_LSR
  | op_ASR | op_CMP_LT | op_CMP_GT | op_CMP_B | op_CMP_A | op_CMP_EQ
  | op_LDC_0 | op_LDC_1 | op_LDC_2 | op_LDC_UB | op_LDC_SB | op_LDC_W
  | op_LEA | op_LDM_UB | op_LDM_SB | op_LDM_UH | op_LDM_SH | op_LDM_W
  | op_STM_B | op_STM_H | op_STM_W | op_LOCALS | op_LDLOC | op_STLOC
  | op_DUP | op_SWAP | op_POP | op_BR | op_BR_T | op_BR_F
  | op_CALL | op_RET | op_ICALL | op_IJMP | op_NCALL

definition offtab :: "vm_label list" where
  "offtab = [
    op_ADD, op_SUB, op_MULU, op_MULS, op_DIVU, op_DIVS,
    op_AND, op_OR, op_XOR, op_NOT, op_LSL, op_LSR,
    op_ASR, op_CMP_LT, op_CMP_GT, op_CMP_B, op_CMP_A, op_CMP_EQ,
    op_LDC_0, op_LDC_1, op_LDC_2, op_LDC_UB, op_LDC_SB, op_LDC_W,
    op_LEA, op_LDM_UB, op_LDM_SB, op_LDM_UH, op_LDM_SH, op_LDM_W,
    op_STM_B, op_STM_H, op_STM_W, op_LOCALS, op_LDLOC, op_STLOC,
    op_DUP, op_SWAP, op_POP, op_BR, op_BR_T, op_BR_F,
    op_CALL, op_RET, op_ICALL, op_IJMP, op_NCALL]"

primrec label_name :: "vm_label \<Rightarrow> string" where
  "label_name op_invalid = ''op_invalid''"
| "label_name op_ADD = ''op_ADD''"
| "label_name op_SUB = ''op_SUB''"
| "label_name op_MULU = ''op_MULU''"
| "label_name op_MULS = ''op_MULS''"
| "label_name op_DIVU = ''op_DIVU''"
| "label_name op_DIVS = ''op_DIVS''"
| "label_name op_AND = ''op_AND''"
| "label_name op_OR = ''op_OR''"
| "label_name op_XOR = ''op_XOR''"
| "label_name op_NOT = ''op_NOT''"
| "label_name op_LSL = ''op_LSL''"
| "label_name op_LSR = ''op_LSR''"
| "label_name op_ASR = ''op_ASR''"
| "label_name op_CMP_LT = ''op_CMP_LT''"
| "label_name op_CMP_GT = ''op_CMP_GT''"
| "label_name op_CMP_B = ''op_CMP_B''"
| "label_name op_CMP_A = ''op_CMP_A''"
| "label_name op_CMP_EQ = ''op_CMP_EQ''"
| "label_name op_LDC_0 = ''op_LDC_0''"
| "label_name op_LDC_1 = ''op_LDC_1''"
| "label_name op_LDC_2 = ''op_LDC_2''"
| "label_name op_LDC_UB = ''op_LDC_UB''"
| "label_name op_LDC_SB = ''op_LDC_SB''"
| "label_name op_LDC_W = ''op_LDC_W''"
| "label_name op_LEA = ''op_LEA''"
| "label_name op_LDM_UB = ''op_LDM_UB''"
| "label_name op_LDM_SB = ''op_LDM_SB''"
| "label_name op_LDM_UH = ''op_LDM_UH''"
| "label_name op_LDM_SH = ''op_LDM_SH''"
| "label_name op_LDM_W = ''op_LDM_W''"
| "label_name op_STM_B = ''op_STM_B''"
| "label_name op_STM_H = ''op_STM_H''"
| "label_name op_STM_W = ''op_STM_W''"
| "label_name op_LOCALS = ''op_LOCALS''"
| "label_name op_LDLOC = ''op_LDLOC''"
| "label_name op_STLOC = ''op_STLOC''"
| "label_name op_DUP = ''op_DUP''"
| "label_name op_SWAP = ''op_SWAP''"
| "label_name op_POP = ''op_POP''"
| "label_name op_BR = ''op_BR''"
| "label_name op_BR_T = ''op_BR_T''"
| "label_name op_BR_F = ''op_BR_F''"
| "label_name op_CALL = ''op_CALL''"
| "label_name op_RET = ''op_RET''"
| "label_name op_ICALL = ''op_ICALL''"
| "label_name op_IJMP = ''op_IJMP''"
| "label_name op_NCALL = ''op_NCALL''"

section \<open>Decoding\<close>

text \<open>
  \<open>ops_in = opcode >> 6; opcode &= 0x3F; goto *(&&op_invalid + offtab[opcode])\<close>. The table has
  64 entries; those past the listed ones are zero and lead to \<open>op_invalid\<close>.
\<close>

definition decode_ops_in :: "u8 \<Rightarrow> nat" where
  "decode_ops_in opcode = unat (drop_bit 6 opcode)"

definition decode_label :: "u8 \<Rightarrow> vm_label" where
  "decode_label opcode =
     (let i = unat (opcode AND 0x3F) in if i < length offtab then offtab ! i else op_invalid)"

lemma decode_ops_in_le: "decode_ops_in b \<le> 3"
proof -
  have "unat (drop_bit 6 b) = unat b div 64"
    by (simp only: unat_drop_bit_eq) (simp add: drop_bit_eq_div)
  then show ?thesis
    using unsigned_less [of b, where ?'a = nat] by (simp add: decode_ops_in_def)
qed

section \<open>What the generator encodes\<close>

lemma opcode_value_fields:
  assumes "i < 64" "n < 4"
  shows "drop_bit 6 (make_opcode_value i n) = n" "unat (make_opcode_value i n AND 0x3F) = i"
proof -
  have "take_bit 6 i = i" using assms(1) by (intro take_bit_nat_eq_self) simp
  then have "take_bit 6 (of_nat i :: u8) = of_nat i" by (metis of_nat_take_bit)
  then have i: "\<not> bit (of_nat i :: u8) k" if "6 \<le> k" for k
    using that by (metis bit_take_bit_iff not_le)
  have "take_bit 2 (unat n) = unat n" using assms(2) by (intro take_bit_nat_eq_self) (simp add: word_less_nat_alt)
  then have "take_bit 2 n = n" by (simp only: word_unat_eq_iff unsigned_take_bit_eq)
  then have n: "\<not> bit n k" if "2 \<le> k" for k
    using that by (metis bit_take_bit_iff not_le)
  show "drop_bit 6 (make_opcode_value i n) = n"
    using i n unfolding make_opcode_value_def by (intro bit_word_eqI) (auto simp: bit_simps)
  have "make_opcode_value i n AND mask 6 = of_nat i"
    using i unfolding make_opcode_value_def by (intro bit_word_eqI) (auto simp: bit_simps simp flip: not_le)
  moreover have "mask 6 = (0x3F :: u8)" by (simp add: mask_eq_exp_minus_1)
  ultimately show "unat (make_opcode_value i n AND 0x3F) = i" using assms(1) by (simp add: unat_of_nat)
qed

lemma generated_entry:
  assumes "gen_tables infos = Some (labels, codes, names)" "i < length infos" "stack_in (infos ! i) < 4"
  shows "decode_ops_in (codes ! i) = unat (stack_in (infos ! i))" "unat (codes ! i AND 0x3F) = i"
    "labels ! i = ''op_'' @ sanitize_mnem (mnemonic (infos ! i))" "names ! i = mnemonic (infos ! i)"
  using assms opcode_value_fields [of i "stack_in (infos ! i)"]
  by (auto simp: gen_tables_def decode_ops_in_def nth_enumerate_eq split: if_splits)

end
