(* ===== verification/VM_Core.thy ===== *)
theory VM_Core
  imports VM_Stack VM_Opcodes Heap_Blocks "HOL-Library.Signed_Division"
begin

text \<open>
  The interpreter of \<open>src/vm/vm_core.c\<close>: call frames, the 47 instructions of \<open>vm_step\<close> and
  the creation of a context. The context, the stack headers and the module header are
  records; the program, the operand words, the call frames and the local variables live in
  the byte memory. The debug output of \<open>vm_step\<close> is not modelled.
\<close>

section \<open>The context\<close>

record vm_module_t =
  next_module :: u32
  base :: u32
  entry :: u32
  ncalls_table :: u32

record vm_context_t =
  dstack :: vm_stack
  cstack :: vm_stack
  pc :: u32
  locals :: u32
  vm_module :: vm_module_t

text \<open>
  What a step depends on besides the state: the kernel and the native procedures (the thunks),
  given by their addresses.
\<close>

type_synonym 'k thunk = "'k machine \<Rightarrow> vm_context_t \<Rightarrow> stop + 'k machine \<times> vm_context_t"

record 'k vm_env =
  kernel :: "'k kernel"
  thunk_at :: "u32 \<Rightarrow> 'k thunk option"

definition vm_alloc :: "'k vm_env \<Rightarrow> u32 \<Rightarrow> 'k machine \<Rightarrow> stop + u32 \<times> 'k machine" where
  "vm_alloc E sz s = returns (rtl_alloc (kernel E) sz s)"

definition vm_free :: "u32 \<Rightarrow> 'k machine \<Rightarrow> stop + 'k machine" where
  "vm_free ptr s = returns (rtl_free ptr s)"

section \<open>Call frames\<close>

text \<open>\<open>vm_callframe_t\<close> is three words: \<open>return_pc\<close>, \<open>locals\<close>, \<open>dstack_top\<close>.\<close>

definition vm_save_frame :: "'k vm_env \<Rightarrow> u32 \<Rightarrow> 'k machine \<Rightarrow> vm_context_t \<Rightarrow> stop + 'k machine \<times> vm_context_t" where
  "vm_save_frame E p s ctx =
     bind_res (vm_alloc E 12 s) (\<lambda>(frame, s).
     let m = st32 (mem s) frame p;
         m = st32 m (frame + 4) (locals ctx);
         m = st32 m (frame + 8) (vm_stack_top (dstack ctx))
     in bind_res (vm_stack_push m (cstack ctx) frame) (\<lambda>(m, cs).
          Inr (s\<lparr>mem := m\<rparr>, ctx\<lparr>cstack := cs, locals := 0\<rparr>)))"

definition vm_restore_frame :: "'k machine \<Rightarrow> vm_context_t \<Rightarrow> stop + u32 \<times> 'k machine \<times> vm_context_t" where
  "vm_restore_frame s ctx =
     bind_res (vm_free (locals ctx) s) (\<lambda>s.
     bind_res (vm_stack_pop (mem s) (cstack ctx)) (\<lambda>(frame, cs).
     let ctx = ctx\<lparr>cstack := cs, locals := ld32 (mem s) (frame + 4)\<rparr>;
         p = ld32 (mem s) frame
     in bind_res (vm_free frame s) (\<lambda>s. Inr (p, s, ctx))))"

section \<open>One instruction\<close>

text \<open>
  An instruction ends in \<open>push_none\<close>, \<open>push_1\<close> or \<open>push_2\<close>, with the words it pushes in the order
  of the pushes, and the program counter to store.
\<close>

type_synonym 'k outcome = "stop + u32 list \<times> u32 \<times> 'k machine \<times> vm_context_t"

definition push_none :: "u32 \<Rightarrow> 'k machine \<Rightarrow> vm_context_t \<Rightarrow> 'k outcome" where
  "push_none p s ctx = Inr ([], p, s, ctx)"

definition push_1 :: "u32 \<Rightarrow> u32 \<Rightarrow> 'k machine \<Rightarrow> vm_context_t \<Rightarrow> 'k outcome" where
  "push_1 r0 p s ctx = Inr ([r0], p, s, ctx)"

definition push_2 :: "u32 \<Rightarrow> u32 \<Rightarrow> u32 \<Rightarrow> 'k machine \<Rightarrow> vm_context_t \<Rightarrow> 'k outcome" where
  "push_2 r0 r1 p s ctx = Inr ([r1, r0], p, s, ctx)"

text \<open>
  \<open>TARGET_DIVU\<close>, \<open>TARGET_DIVS\<close>: quotient and remainder; the processor faults on a zero divisor
  and on the quotient of \<open>-2^31\<close> by \<open>-1\<close>.
\<close>

definition TARGET_DIVU :: "u32 \<Rightarrow> u32 \<Rightarrow> stop + u32 \<times> u32" where
  "TARGET_DIVU a b = (if b = 0 then Inl Divide_error else Inr (a div b, a mod b))"

definition TARGET_DIVS :: "u32 \<Rightarrow> u32 \<Rightarrow> stop + u32 \<times> u32" where
  "TARGET_DIVS a b =
     (if b = 0 \<or> (a = 0x80000000 \<and> b = - 1) then Inl Divide_error
      else Inr (word_of_int (sint a sdiv sint b), word_of_int (sint a smod sint b)))"

text \<open>Shifts: C leaves a count of 32 or more undefined.\<close>

definition shift_op :: "(nat \<Rightarrow> u32 \<Rightarrow> u32) \<Rightarrow> u32 \<Rightarrow> u32 \<Rightarrow> stop + u32" where
  "shift_op f v count = (if count < 32 then Inr (f (unat count) v) else Inl Undefined_shift)"

text \<open>The checks of \<open>LDLOC\<close> and \<open>STLOC\<close>; the result is the address of the local.\<close>

definition local_addr :: "u8 \<Rightarrow> 'k machine \<Rightarrow> vm_context_t \<Rightarrow> stop + u32" where
  "local_addr index s ctx =
     (if locals ctx = 0 then Inl (Panic ''vm_step: accessing locals where none have been allocated.'')
      else if ld32 (mem s) (locals ctx) \<le> ucast index then Inl (Panic ''vm_step: local index out of bounds.'')
      else Inr (locals ctx + 4 + 4 * ucast index))"

text \<open>
  Control flow: the target of a short branch, the call, the return (\<open>vm_step\<close> repeats the body
  of \<open>vm_restore_frame\<close> there) and the native call. The program counter a native procedure leaves
  is overwritten after it returns; its index is not compared with the size of the table.
\<close>

definition branch_pc :: "bool \<Rightarrow> u32 \<Rightarrow> 'k machine \<Rightarrow> u32" where
  "branch_pc taken p s = (if taken then p + 1 + scast (mem s p) else p + 1)"

definition vm_call :: "'k vm_env \<Rightarrow> u32 \<Rightarrow> 'k machine \<Rightarrow> vm_context_t \<Rightarrow> 'k outcome" where
  "vm_call E p s ctx =
     (let offset = vm_fetch32_ua False (mem s) p
      in bind_res (vm_save_frame E (p + 4) s ctx) (\<lambda>(s, ctx). push_none (p + 4 + offset) s ctx))"

definition vm_return :: "'k machine \<Rightarrow> vm_context_t \<Rightarrow> 'k outcome" where
  "vm_return s ctx =
     bind_res (vm_free (locals ctx) s) (\<lambda>s.
     bind_res (vm_stack_pop (mem s) (cstack ctx)) (\<lambda>(frame, cs).
     let ctx = ctx\<lparr>cstack := cs, locals := ld32 (mem s) (frame + 4)\<rparr>;
         p = ld32 (mem s) frame
     in bind_res (vm_free frame s) (\<lambda>s. push_none p s ctx)))"

definition vm_ncall :: "'k vm_env \<Rightarrow> u32 \<Rightarrow> 'k machine \<Rightarrow> vm_context_t \<Rightarrow> 'k outcome" where
  "vm_ncall E p s ctx =
     (let index = ucast (vm_fetch16_ua False (mem s) p) :: u32
      in if ncalls_table (vm_module ctx) = 0
         then Inl (Panic ''vm_step: no ncalls defined, but a ncall insn encountered.'')
         else let addr = ld32 (mem s) (ncalls_table (vm_module ctx) + 4 * index)
              in case thunk_at E addr of
                   None \<Rightarrow> Inl (Wild_call addr)
                 | Some thunk \<Rightarrow> bind_res (thunk s ctx) (\<lambda>(s, ctx). push_none (p + 2) s ctx))"

text \<open>
  The body at each label. \<open>a1\<close>, \<open>a2\<close> are \<open>ARG1\<close> and \<open>ARG2\<close>, \<open>hi\<close> is what the uninitialised
  \<open>r1\<close> holds, \<open>p\<close> is \<open>pc\<close> after the opcode byte.
\<close>

primrec vm_exec :: "vm_label \<Rightarrow> 'k vm_env \<Rightarrow> u32 \<Rightarrow> u32 \<Rightarrow> u32 \<Rightarrow> u32 \<Rightarrow> 'k machine \<Rightarrow> vm_context_t \<Rightarrow> 'k outcome" where
  "vm_exec op_invalid E hi a1 a2 p s ctx = Inl (Panic ''vm_step: unknown opcode.'')"
| "vm_exec op_ADD E hi a1 a2 p s ctx = push_1 (a2 + a1) p s ctx"
| "vm_exec op_SUB E hi a1 a2 p s ctx = push_1 (a2 - a1) p s ctx"
| "vm_exec op_MULU E hi a1 a2 p s ctx = push_2 (a1 * a2) hi p s ctx"
| "vm_exec op_MULS E hi a1 a2 p s ctx = push_2 (a1 * a2) hi p s ctx"
| "vm_exec op_DIVU E hi a1 a2 p s ctx =
     bind_res (TARGET_DIVU a2 a1) (\<lambda>(r1, r0). push_2 r0 r1 p s ctx)"
| "vm_exec op_DIVS E hi a1 a2 p s ctx =
     bind_res (TARGET_DIVS a2 a1) (\<lambda>(r1, r0). push_2 r0 r1 p s ctx)"
| "vm_exec op_AND E hi a1 a2 p s ctx = push_1 (a1 AND a2) p s ctx"
| "vm_exec op_OR E hi a1 a2 p s ctx = push_1 (a1 OR a2) p s ctx"
| "vm_exec op_XOR E hi a1 a2 p s ctx = push_1 (a1 XOR a2) p s ctx"
| "vm_exec op_NOT E hi a1 a2 p s ctx = push_1 (NOT a1) p s ctx"
| "vm_exec op_LSL E hi a1 a2 p s ctx =
     bind_res (shift_op push_bit a2 a1) (\<lambda>r0. push_1 r0 p s ctx)"
| "vm_exec op_LSR E hi a1 a2 p s ctx =
     bind_res (shift_op drop_bit a2 a1) (\<lambda>r0. push_1 r0 p s ctx)"
| "vm_exec op_ASR E hi a1 a2 p s ctx =
     bind_res (shift_op signed_drop_bit a2 a1) (\<lambda>r0. push_1 r0 p s ctx)"
| "vm_exec op_CMP_LT E hi a1 a2 p s ctx = push_1 (c_bool (sint a1 < sint a2)) p s ctx"
| "vm_exec op_CMP_GT E hi a1 a2 p s ctx = push_1 (c_bool (sint a1 > sint a2)) p s ctx"
| "vm_exec op_CMP_B E hi a1 a2 p s ctx = push_1 (c_bool (a1 < a2)) p s ctx"
| "vm_exec op_CMP_A E hi a1 a2 p s ctx = push_1 (c_bool (a1 > a2)) p s ctx"
| "vm_exec op_CMP_EQ E hi a1 a2 p s ctx = push_1 (c_bool (a2 = a1)) p s ctx"
| "vm_exec op_LDC_0 E hi a1 a2 p s ctx = push_1 0 p s ctx"
| "vm_exec op_LDC_1 E hi a1 a2 p s ctx = push_1 1 p s ctx"
| "vm_exec op_LDC_2 E hi a1 a2 p s ctx = push_1 2 p s ctx"
| "vm_exec op_LDC_UB E hi a1 a2 p s ctx = push_1 (ucast (mem s p)) (p + 1) s ctx"
| "vm_exec op_LDC_SB E hi a1 a2 p s ctx = push_1 (scast (mem s p)) (p + 1) s ctx"
| "vm_exec op_LDC_W E hi a1 a2 p s ctx = push_1 (vm_fetch32_ua False (mem s) p) (p + 4) s ctx"
| "vm_exec op_LEA E hi a1 a2 p s ctx =
     push_1 (vm_fetch32_ua False (mem s) p + (p + 4)) (p + 4) s ctx"
| "vm_exec op_LDM_UB E hi a1 a2 p s ctx = push_1 (ucast (mem s a1)) p s ctx"
| "vm_exec op_LDM_SB E hi a1 a2 p s ctx = push_1 (scast (mem s a1)) p s ctx"
| "vm_exec op_LDM_UH E hi a1 a2 p s ctx = push_1 (ucast (ld16 (mem s) a1)) p s ctx"
| "vm_exec op_LDM_SH E hi a1 a2 p s ctx = push_1 (scast (ld16 (mem s) a1)) p s ctx"
| "vm_exec op_LDM_W E hi a1 a2 p s ctx = push_1 (ld32 (mem s) a1) p s ctx"
| "vm_exec op_STM_B E hi a1 a2 p s ctx = push_none p (s\<lparr>mem := (mem s)(a1 := ucast a2)\<rparr>) ctx"
| "vm_exec op_STM_H E hi a1 a2 p s ctx = push_none p (s\<lparr>mem := st16 (mem s) a1 (ucast a2)\<rparr>) ctx"
| "vm_exec op_STM_W E hi a1 a2 p s ctx = push_none p (s\<lparr>mem := st32 (mem s) a1 a2\<rparr>) ctx"
| "vm_exec op_LOCALS E hi a1 a2 p s ctx =
     (let count = ucast (mem s p) :: u32
      in bind_res (vm_alloc E (8 + (count - 1) * 4) s) (\<lambda>(l, s).
           push_none (p + 1) (s\<lparr>mem := st32 (mem s) l count\<rparr>) (ctx\<lparr>locals := l\<rparr>)))"
| "vm_exec op_LDLOC E hi a1 a2 p s ctx =
     bind_res (local_addr (mem s p) s ctx) (\<lambda>a. push_1 (ld32 (mem s) a) (p + 1) s ctx)"
| "vm_exec op_STLOC E hi a1 a2 p s ctx =
     bind_res (local_addr (mem s p) s ctx) (\<lambda>a. push_none (p + 1) (s\<lparr>mem := st32 (mem s) a a1\<rparr>) ctx)"
| "vm_exec op_DUP E hi a1 a2 p s ctx = push_2 a1 a1 p s ctx"
| "vm_exec op_SWAP E hi a1 a2 p s ctx = push_2 a2 a1 p s ctx"
| "vm_exec op_POP E hi a1 a2 p s ctx = push_none p s ctx"
| "vm_exec op_BR E hi a1 a2 p s ctx = push_none (branch_pc True p s) s ctx"
| "vm_exec op_BR_T E hi a1 a2 p s ctx = push_none (branch_pc (a1 \<noteq> 0) p s) s ctx"
| "vm_exec op_BR_F E hi a1 a2 p s ctx = push_none (branch_pc (a1 = 0) p s) s ctx"
| "vm_exec op_CALL E hi a1 a2 p s ctx = vm_call E p s ctx"
| "vm_exec op_RET E hi a1 a2 p s ctx = vm_return s ctx"
| "vm_exec op_ICALL E hi a1 a2 p s ctx =
     bind_res (vm_save_frame E p s ctx) (\<lambda>(s, ctx). push_none a1 s ctx)"
| "vm_exec op_IJMP E hi a1 a2 p s ctx = push_none a1 s ctx"
| "vm_exec op_NCALL E hi a1 a2 p s ctx = vm_ncall E p s ctx"

section \<open>\<open>vm_step\<close>\<close>

primrec push_all :: "u32 list \<Rightarrow> 'k machine \<Rightarrow> vm_context_t \<Rightarrow> stop + 'k machine \<times> vm_context_t" where
  "push_all [] s ctx = Inr (s, ctx)"
| "push_all (r # rs) s ctx =
     bind_res (vm_stack_push (mem s) (dstack ctx) r) (\<lambda>(m, ds).
       push_all rs (s\<lparr>mem := m\<rparr>) (ctx\<lparr>dstack := ds\<rparr>))"

text \<open>
  \<open>junk\<close> gives what the uninitialised \<open>buf[0..2]\<close> and \<open>r1\<close> (index 3) hold when the step
  starts: a byte whose two top bits pop too few words makes the instruction read them.
\<close>

definition vm_step :: "'k vm_env \<Rightarrow> (nat \<Rightarrow> u32) \<Rightarrow> 'k machine \<Rightarrow> vm_context_t \<Rightarrow> stop + 'k machine \<times> vm_context_t" where
  "vm_step E junk s ctx =
     (let opcode = mem s (pc ctx); p = pc ctx + 1
      in bind_res (vm_stack_pop3 (mem s) (dstack ctx) (decode_ops_in opcode)) (\<lambda>(args, ds).
         let buf = (\<lambda>i. if i < length args then args ! i else junk i)
         in bind_res (vm_exec (decode_label opcode) E (junk 3) (buf 0) (buf 1) p s (ctx\<lparr>dstack := ds\<rparr>))
            (\<lambda>(rs, p, s, ctx).
              bind_res (push_all rs s ctx) (\<lambda>(s, ctx). Inr (s, ctx\<lparr>pc := p\<rparr>)))))"

text \<open>The loop of \<open>main\<close>: a number of steps, each with its own junk.\<close>

primrec vm_run :: "nat \<Rightarrow> 'k vm_env \<Rightarrow> (nat \<Rightarrow> nat \<Rightarrow> u32) \<Rightarrow> 'k machine \<Rightarrow> vm_context_t \<Rightarrow> stop + 'k machine \<times> vm_context_t" where
  "vm_run 0 E junk s ctx = Inr (s, ctx)"
| "vm_run (Suc n) E junk s ctx =
     bind_res (vm_step E (junk 0) s ctx) (\<lambda>(s, ctx). vm_run n E (\<lambda>i. junk (Suc i)) s ctx)"

section \<open>\<open>vm_context_create\<close>\<close>

text \<open>The context takes five words; its fields are a record here.\<close>

definition vm_context_create :: "'k vm_env \<Rightarrow> vm_module_t \<Rightarrow> 'k machine \<Rightarrow> stop + 'k machine \<times> vm_context_t" where
  "vm_context_create E mo s =
     bind_res (vm_alloc E 20 s) (\<lambda>(ctx, s).
     if ctx = 0 then Inl (Panic ''vm_context_create: failed to allocate context.'')
     else bind_res (vm_stack_create (rtl_alloc (kernel E)) (kernel E) 65536 s) (\<lambda>(s, ds).
          bind_res (vm_stack_create (rtl_alloc (kernel E)) (kernel E) 8192 s) (\<lambda>(s, cs).
          Inr (s, \<lparr>dstack = ds, cstack = cs, pc = entry mo, locals = 0, vm_module = mo\<rparr>))))"

end
