(* ===== verification/VM_Effect.thy ===== *)
theory VM_Effect
  imports VM_Core
begin

text \<open>
  What every instruction does to the operand stack: the words it takes off, the words it puts
  on, and the agreement of both with the numbers \<open>vm_opcodes.in\<close> lists. The well-formedness
  of the two stacks is kept by every instruction that stays inside the interpreter.
\<close>

section \<open>Pushing the results\<close>

definition vm_ok :: "vm_context_t \<Rightarrow> bool" where
  "vm_ok ctx \<longleftrightarrow> stack_ok (dstack ctx) \<and> stack_ok (cstack ctx)"

lemma vm_okD: "vm_ok ctx \<Longrightarrow> stack_ok (dstack ctx)" "vm_ok ctx \<Longrightarrow> stack_ok (cstack ctx)"
  by (simp_all add: vm_ok_def)

lemma push_cases:
  assumes ok: "stack_ok st"
  obtains (fits) m' st' where "depth st < capacity st" "vm_stack_push m st r = Inr (m', st')"
      "stack_words m' st' = r # stack_words m st" "stack_ok st'" "bottom st' = bottom st" "limit st' = limit st"
      "depth st' = Suc (depth st)" "\<And>x. x \<notin> stack_bytes st \<Longrightarrow> m' x = m x"
  | (full) "depth st = capacity st" "vm_stack_push m st r = Inl (Panic ''vm_stack_push: stack overflow'')"
proof (cases "depth st < capacity st")
  case True
  then have room: "depth st + length [r] \<le> capacity st" by simp
  obtain m' st' where eq: "vm_stack_push3 m st [r] = Inr (m', st')" using push3_fits [OF ok _ room] by auto
  show thesis
    using fits [OF True, of m' st'] push3_words [OF ok _ room eq] eq by (simp add: vm_stack_push_def)
next
  case False
  then have "capacity st < depth st + length [r]" "depth st = capacity st"
    using depth_le_capacity [OF ok] by auto
  then show thesis using full push3_overflow [OF ok, of "[r]"] by (simp add: vm_stack_push_def)
qed

lemma capacity_same: "bottom st' = bottom st \<Longrightarrow> limit st' = limit st \<Longrightarrow> capacity st' = capacity st"
  by (simp add: capacity_def)

lemma stack_bytes_same: "bottom st' = bottom st \<Longrightarrow> limit st' = limit st \<Longrightarrow> stack_bytes st' = stack_bytes st"
  by (simp add: stack_bytes_def)

text \<open>All pushes fit, or the step panics.\<close>

lemma push_all_cases:
  assumes "stack_ok (dstack ctx)"
  obtains (fits) m' ds' where "depth (dstack ctx) + length rs \<le> capacity (dstack ctx)"
      "push_all rs s ctx = Inr (s\<lparr>mem := m'\<rparr>, ctx\<lparr>dstack := ds'\<rparr>)"
      "stack_words m' ds' = rev rs @ stack_words (mem s) (dstack ctx)"
      "stack_ok ds'" "bottom ds' = bottom (dstack ctx)" "limit ds' = limit (dstack ctx)"
      "\<And>x. x \<notin> stack_bytes (dstack ctx) \<Longrightarrow> m' x = mem s x"
  | (full) "capacity (dstack ctx) < depth (dstack ctx) + length rs"
      "push_all rs s ctx = Inl (Panic ''vm_stack_push: stack overflow'')"
  using assms
proof (induction rs arbitrary: s ctx thesis)
  case Nil
  show ?case
    using Nil(1) [of "mem s" "dstack ctx"] Nil(3) depth_le_capacity [OF Nil(3)] by simp
next
  case (Cons r rs)
  note fits = Cons.prems(1) and full = Cons.prems(2)
  from Cons.prems(3) show ?case
  proof (cases rule: push_cases [where m = "mem s" and r = r])
    case one: (fits m1 st1)
    let ?s = "s\<lparr>mem := m1\<rparr>" and ?ctx = "ctx\<lparr>dstack := st1\<rparr>"
    have st1: "stack_ok (dstack ?ctx)" using one by simp
    note cap = capacity_same [OF one(5,6)] and bytes = stack_bytes_same [OF one(5,6)]
    have more: "push_all (r # rs) s ctx = push_all rs ?s ?ctx" using one(2) by simp
    show ?thesis
    proof (rule Cons.IH [OF _ _ st1, of ?s])
      fix m' ds'
      assume a: "depth (dstack ?ctx) + length rs \<le> capacity (dstack ?ctx)"
        "push_all rs ?s ?ctx = Inr (?s\<lparr>mem := m'\<rparr>, ?ctx\<lparr>dstack := ds'\<rparr>)"
        "stack_words m' ds' = rev rs @ stack_words (mem ?s) (dstack ?ctx)"
        "stack_ok ds'" "bottom ds' = bottom (dstack ?ctx)" "limit ds' = limit (dstack ?ctx)"
        "\<And>x. x \<notin> stack_bytes (dstack ?ctx) \<Longrightarrow> m' x = mem ?s x"
      show ?thesis
        using a one more cap bytes by (intro fits [of m' ds']) simp_all
    next
      assume "capacity (dstack ?ctx) < depth (dstack ?ctx) + length rs"
        "push_all rs ?s ?ctx = Inl (Panic ''vm_stack_push: stack overflow'')"
      then show ?thesis using one more cap by (intro full) simp_all
    qed
  next
    case full': full
    then show ?thesis by (intro full) simp_all
  qed
qed

lemma push_all_words:
  assumes "stack_ok (dstack ctx)" "push_all rs s ctx = Inr (s', ctx')"
  shows "s' = s\<lparr>mem := mem s'\<rparr> \<and> ctx' = ctx\<lparr>dstack := dstack ctx'\<rparr> \<and> stack_ok (dstack ctx')
    \<and> bottom (dstack ctx') = bottom (dstack ctx) \<and> limit (dstack ctx') = limit (dstack ctx)
    \<and> stack_words (mem s') (dstack ctx') = rev rs @ stack_words (mem s) (dstack ctx)
    \<and> (\<forall>x. x \<notin> stack_bytes (dstack ctx) \<longrightarrow> mem s' x = mem s x)"
  using assms(2) by (cases rule: push_all_cases [OF assms(1), of rs s]) auto

section \<open>Frames keep the stacks\<close>

lemma vm_stack_pop_ok:
  assumes "stack_ok st" "vm_stack_pop m st = Inr (w, st')"
  shows "stack_ok st' \<and> bottom st' = bottom st \<and> limit st' = limit st \<and> 0 < depth st
    \<and> w = hd (stack_words m st) \<and> depth st' = depth st - 1"
proof -
  have "0 < depth st"
    using pop3_underflow [OF assms(1), of 1 m] assms(2) by (cases "depth st") (auto simp: vm_stack_pop_def)
  then show ?thesis
    using vm_stack_pop_fits [OF assms(1), of m] pop3_fits(3,4) [OF assms(1), of 1] assms(2) by auto
qed

lemma vm_save_frame_stacks:
  assumes "vm_save_frame E p s ctx = Inr (s', ctx')" "stack_ok (cstack ctx)"
  shows "dstack ctx' = dstack ctx \<and> vm_module ctx' = vm_module ctx \<and> locals ctx' = 0 \<and> stack_ok (cstack ctx')
    \<and> bottom (cstack ctx') = bottom (cstack ctx) \<and> limit (cstack ctx') = limit (cstack ctx)
    \<and> depth (cstack ctx') = Suc (depth (cstack ctx))"
proof -
  obtain f s1 m m' cs where "vm_stack_push m (cstack ctx) f = Inr (m', cs)"
    "ctx' = ctx\<lparr>cstack := cs, locals := 0\<rparr>"
    using assms(1) by (auto simp: vm_save_frame_def bind_res_eq_Inr Let_def)
  with assms(2) show ?thesis
    by (cases rule: push_cases [where m = m and r = f]) auto
qed

lemma vm_return_restores:
  "vm_return s ctx = bind_res (vm_restore_frame s ctx) (\<lambda>(p, s, ctx). push_none p s ctx)"
  by (simp add: vm_return_def vm_restore_frame_def bind_res_assoc Let_def split_def)

lemma vm_restore_frame_stacks:
  assumes "vm_restore_frame s ctx = Inr (p, s', ctx')" "stack_ok (cstack ctx)"
  shows "dstack ctx' = dstack ctx \<and> vm_module ctx' = vm_module ctx \<and> stack_ok (cstack ctx')
    \<and> bottom (cstack ctx') = bottom (cstack ctx) \<and> limit (cstack ctx') = limit (cstack ctx)
    \<and> depth (cstack ctx) = Suc (depth (cstack ctx'))"
proof -
  obtain m f cs where "vm_stack_pop m (cstack ctx) = Inr (f, cs)"
    "dstack ctx' = dstack ctx" "vm_module ctx' = vm_module ctx" "cstack ctx' = cs"
    using assms(1) by (auto simp: vm_restore_frame_def bind_res_eq_Inr Let_def)
  then show ?thesis using vm_stack_pop_ok [OF assms(2)] by auto
qed

section \<open>Words off and words on\<close>

text \<open>How many words the code at a label pushes.\<close>

definition label_outs :: "vm_label \<Rightarrow> nat" where
  "label_outs l =
     (if l \<in> {op_MULU, op_MULS, op_DIVU, op_DIVS, op_DUP, op_SWAP} then 2
      else if l \<in> {op_STM_B, op_STM_H, op_STM_W, op_LOCALS, op_STLOC, op_POP, op_BR, op_BR_T, op_BR_F,
                   op_CALL, op_RET, op_ICALL, op_IJMP, op_NCALL} then 0
      else 1)"

lemmas push_defs = push_none_def push_1_def push_2_def

lemma vm_exec_effect:
  assumes "vm_exec l E hi a1 a2 p s ctx = Inr (rs, p', s', ctx')" "vm_ok ctx" "l \<noteq> op_NCALL"
  shows "length rs = label_outs l \<and> dstack ctx' = dstack ctx \<and> vm_module ctx' = vm_module ctx \<and> vm_ok ctx'"
  using assms
  by (cases l)
    (auto simp: push_defs label_outs_def vm_ok_def bind_res_eq_Inr Let_def vm_call_def vm_return_restores
      dest: vm_save_frame_stacks vm_restore_frame_stacks)

section \<open>A whole step\<close>

text \<open>Enough operands: the step is the body of the label on the topmost words.\<close>

definition popped :: "vm_context_t \<Rightarrow> nat \<Rightarrow> vm_context_t" where
  "popped ctx n = ctx\<lparr>dstack := (dstack ctx)\<lparr>top := top (dstack ctx) + 4 * of_nat n\<rparr>\<rparr>"

definition operand :: "(nat \<Rightarrow> u32) \<Rightarrow> nat \<Rightarrow> u32 list \<Rightarrow> nat \<Rightarrow> u32" where
  "operand junk n ws i = (if i < n then ws ! i else junk i)"

lemma vm_step_pops:
  assumes "vm_ok ctx" "b = mem s (pc ctx)" "decode_ops_in b \<le> depth (dstack ctx)"
  defines "n \<equiv> decode_ops_in b" and "ws \<equiv> stack_words (mem s) (dstack ctx)"
  shows "vm_step E junk s ctx =
    bind_res (vm_exec (decode_label b) E (junk 3) (operand junk n ws 0) (operand junk n ws 1) (pc ctx + 1) s
                (popped ctx n))
      (\<lambda>(rs, p, s, ctx). bind_res (push_all rs s ctx) (\<lambda>(s, ctx). Inr (s, ctx\<lparr>pc := p\<rparr>)))"
proof -
  have "vm_stack_pop3 (mem s) (dstack ctx) n = Inr (take n ws, (dstack ctx)\<lparr>top := top (dstack ctx) + 4 * of_nat n\<rparr>)"
    using pop3_fits(1) [OF vm_okD(1) [OF assms(1)], of n "mem s"] assms(3) by (simp add: n_def ws_def)
  moreover have "length ws = depth (dstack ctx)" by (simp add: ws_def)
  then have "(if i < length (take n ws) then take n ws ! i else junk i) = operand junk n ws i" for i
    using assms(3) by (auto simp: operand_def n_def)
  ultimately show ?thesis
    unfolding vm_step_def Let_def assms(2) [symmetric] n_def [symmetric]
    by (simp only: bind_res_simps prod.case popped_def)
qed

lemma vm_step_underflow:
  assumes "vm_ok ctx" "depth (dstack ctx) < decode_ops_in (mem s (pc ctx))"
  shows "vm_step E junk s ctx = Inl (Panic ''vm_stack_pop: stack underflow'')"
  using pop3_underflow [OF vm_okD(1) [OF assms(1)] assms(2), of "mem s"]
    decode_ops_in_le [of "mem s (pc ctx)"]
  by (simp add: vm_step_def Let_def)

lemma popped_ok:
  assumes "vm_ok ctx" "n \<le> depth (dstack ctx)"
  shows "vm_ok (popped ctx n)" "depth (dstack (popped ctx n)) = depth (dstack ctx) - n"
    "stack_words m (dstack (popped ctx n)) = drop n (stack_words m (dstack ctx))"
    "capacity (dstack (popped ctx n)) = capacity (dstack ctx)"
    "stack_bytes (dstack (popped ctx n)) = stack_bytes (dstack ctx)"
  using pop3_fits [OF vm_okD(1) [OF assms(1)] assms(2)] assms(1)
  by (simp_all add: popped_def vm_ok_def stack_bytes_def)

lemma popped_simps [simp]:
  "cstack (popped ctx n) = cstack ctx" "locals (popped ctx n) = locals ctx"
  "vm_module (popped ctx n) = vm_module ctx" "pc (popped ctx n) = pc ctx"
  by (simp_all add: popped_def)

lemma popped_twice [simp]: "popped ctx n\<lparr>dstack := ds\<rparr> = ctx\<lparr>dstack := ds\<rparr>"
  by (simp add: popped_def)

text \<open>What a step that returns has done.\<close>

lemma vm_step_depth:
  assumes ok: "vm_ok ctx" and b: "b = mem s (pc ctx)" and l: "decode_label b \<noteq> op_NCALL"
    and step: "vm_step E junk s ctx = Inr (s', ctx')"
  shows "vm_ok ctx' \<and> decode_ops_in b \<le> depth (dstack ctx)
    \<and> depth (dstack ctx') + decode_ops_in b = depth (dstack ctx) + label_outs (decode_label b)"
proof -
  have n: "decode_ops_in b \<le> depth (dstack ctx)"
    using vm_step_underflow [OF ok] step b by (metis Inl_Inr_False not_le)
  let ?c0 = "popped ctx (decode_ops_in b)"
  obtain r where r: "\<exists>a1 a2. vm_exec (decode_label b) E (junk 3) a1 a2 (pc ctx + 1) s ?c0 = Inr r"
    "(case r of (rs, p, s, ctx) \<Rightarrow> bind_res (push_all rs s ctx) (\<lambda>(s, ctx). Inr (s, ctx\<lparr>pc := p\<rparr>))) = Inr (s', ctx')"
    using step unfolding vm_step_pops [OF ok b n, of E junk] bind_res_eq_Inr by blast
  obtain rs p s1 c1 where rr: "r = (rs, p, s1, c1)" by (cases r)
  with r(1) have ex: "\<exists>a1 a2. vm_exec (decode_label b) E (junk 3) a1 a2 (pc ctx + 1) s ?c0 = Inr (rs, p, s1, c1)"
    by simp
  obtain c2 where pa: "push_all rs s1 c1 = Inr (s', c2)" "ctx' = c2\<lparr>pc := p\<rparr>"
    using r(2) by (auto simp: rr bind_res_eq_Inr)
  have e: "length rs = label_outs (decode_label b)" "dstack c1 = dstack ?c0" "vm_ok c1"
    using vm_exec_effect [OF _ popped_ok(1) [OF ok n] l] ex by blast+
  note w = push_all_words [OF vm_okD(1) [OF e(3)] pa(1)]
  have "length (stack_words (mem s') (dstack c2)) = length rs + depth (dstack c1)"
    using w by (simp only: length_append length_rev length_stack_words)
  then have "depth (dstack c2) = length rs + depth (dstack c1)" by simp
  moreover have "cstack c2 = cstack c1" using w by (metis vm_context_t.select_convs(2) vm_context_t.surjective vm_context_t.update_convs(1))
  ultimately show ?thesis
    using e n popped_ok(2) [OF ok n] pa(2) w by (simp add: vm_ok_def)
qed

section \<open>Agreement with the instruction table\<close>

lemma tables_agree:
  "map decode_label vm_insn_to_opcode = offtab"
  "map decode_ops_in vm_insn_to_opcode = map (\<lambda>i. unat (stack_in i)) opcodes"
  "map label_outs offtab = map (\<lambda>i. unat (stack_out i)) opcodes"
  by code_simp+

lemma listed_effect:
  assumes "i < 46"
  shows "decode_ops_in (vm_insn_to_opcode ! i) = unat (stack_in (opcodes ! i))"
    "label_outs (decode_label (vm_insn_to_opcode ! i)) = unat (stack_out (opcodes ! i))"
    "decode_label (vm_insn_to_opcode ! i) \<noteq> op_NCALL"
proof -
  have len: "length vm_insn_to_opcode = 47" "length offtab = 47" "length opcodes = 47"
    "distinct offtab" "offtab ! 46 = op_NCALL"
    by code_simp+
  have l: "decode_label (vm_insn_to_opcode ! i) = offtab ! i"
    using arg_cong [OF tables_agree(1), of "\<lambda>xs. xs ! i"] assms len by simp
  show "decode_ops_in (vm_insn_to_opcode ! i) = unat (stack_in (opcodes ! i))"
    using arg_cong [OF tables_agree(2), of "\<lambda>xs. xs ! i"] assms len by simp
  show "label_outs (decode_label (vm_insn_to_opcode ! i)) = unat (stack_out (opcodes ! i))"
    unfolding l using arg_cong [OF tables_agree(3), of "\<lambda>xs. xs ! i"] assms len by simp
  show "decode_label (vm_insn_to_opcode ! i) \<noteq> op_NCALL"
    unfolding l using assms len nth_eq_iff_index_eq [OF len(4), of i 46] by simp
qed

end
