(* ===== verification/VM_Values.thy ===== *)
theory VM_Values
  imports VM_Effect
begin

text \<open>
  Instructions that only compute: their meaning in integer arithmetic, the proof that the
  interpreter's word code has that meaning, and the list machine that runs straight-line code
  built from them.
\<close>

section \<open>Meaning in the integers\<close>

text \<open>The value of a 32-bit pattern read as a signed number.\<close>

definition signed32 :: "int \<Rightarrow> int" where
  "signed32 x = (if x < 2 ^ 31 then x else x - 2 ^ 32)"

definition unsigned32 :: "int \<Rightarrow> int" where
  "unsigned32 x = x mod 2 ^ 32"

text \<open>
  \<open>a\<close> is the top word, \<open>b\<close> the one below, both read as unsigned numbers; the result lists the
  words left, top first. \<open>None\<close> means that the instruction traps.
\<close>

definition int_sem :: "vm_label \<Rightarrow> int \<Rightarrow> int \<Rightarrow> int list option" where
  "int_sem l a b =
     (case l of
        op_ADD \<Rightarrow> Some [unsigned32 (b + a)]
      | op_SUB \<Rightarrow> Some [unsigned32 (b - a)]
      | op_DIVU \<Rightarrow> if a = 0 then None else Some [b mod a, b div a]
      | op_DIVS \<Rightarrow> if a = 0 \<or> (signed32 b = - (2 ^ 31) \<and> signed32 a = - 1) then None
          else Some [unsigned32 (signed32 b smod signed32 a), unsigned32 (signed32 b sdiv signed32 a)]
      | op_AND \<Rightarrow> Some [a AND b]
      | op_XOR \<Rightarrow> Some [a XOR b]
      | op_LSL \<Rightarrow> if a < 32 then Some [unsigned32 (b * 2 ^ nat a)] else None
      | op_LSR \<Rightarrow> if a < 32 then Some [b div 2 ^ nat a] else None
      | op_ASR \<Rightarrow> if a < 32 then Some [unsigned32 (signed32 b div 2 ^ nat a)] else None
      | op_CMP_B \<Rightarrow> Some [of_bool (a < b)]
      | op_CMP_A \<Rightarrow> Some [of_bool (b < a)]
      | op_CMP_EQ \<Rightarrow> Some [of_bool (a = b)]
      | op_LDC_0 \<Rightarrow> Some [0]
      | op_LDC_1 \<Rightarrow> Some [1]
      | op_LDC_2 \<Rightarrow> Some [2]
      | op_DUP \<Rightarrow> Some [a, a]
      | op_SWAP \<Rightarrow> Some [b, a]
      | op_POP \<Rightarrow> Some []
      | _ \<Rightarrow> None)"

text \<open>
  The instructions covered. \<open>OR\<close>, \<open>NOT\<close>, \<open>CMP.LT\<close> and \<open>CMP.GT\<close> are left out because the comments of
  \<open>vm_opcodes.in\<close> say something else than the interpreter does, and \<open>MULU\<close> and \<open>MULS\<close> because one of
  the two words they leave is not initialised on i386; what these six do is stated separately.
\<close>

definition value_labels :: "vm_label set" where
  "value_labels = {op_ADD, op_SUB, op_DIVU, op_DIVS, op_AND, op_XOR, op_LSL, op_LSR, op_ASR,
     op_CMP_B, op_CMP_A, op_CMP_EQ, op_LDC_0, op_LDC_1, op_LDC_2, op_DUP, op_SWAP, op_POP}"

subsection \<open>Words and integers\<close>

lemma uint_less32: "uint (w :: u32) < 4294967296"
  using uint_lt2p [of w] by simp

lemma signed32_uint: "signed32 (uint w) = sint w" for w :: u32
proof -
  have "sint w = signed_take_bit 31 (uint w)" by (simp add: sint_uint)
  then have e: "sint w = (uint w + 2147483648) mod 4294967296 - 2147483648"
    by (simp add: signed_take_bit_eq_take_bit_shift take_bit_eq_mod)
  have b: "0 \<le> uint w" "uint w < 4294967296" using uint_less32 by auto
  show ?thesis
  proof (cases "uint w < 2147483648")
    case True
    then have "(uint w + 2147483648) mod 4294967296 = uint w + 2147483648"
      using b by (intro mod_pos_pos_trivial) auto
    then show ?thesis using True by (simp add: e signed32_def)
  next
    case False
    have "(uint w + 2147483648) mod 4294967296 = (uint w + 2147483648 - 4294967296) mod 4294967296"
      by (simp only: minus_mod_self2)
    also have "\<dots> = uint w + 2147483648 - 4294967296"
      using b False by (intro mod_pos_pos_trivial) auto
    finally show ?thesis using False by (simp add: e signed32_def)
  qed
qed

lemma uint_unsigned32:
  "uint (a + b) = unsigned32 (uint a + uint b)" "uint (a - b) = unsigned32 (uint a - uint b)"
  "uint (word_of_int i :: u32) = unsigned32 i" for a b :: u32
  by (simp_all add: unsigned32_def uint_word_ariths uint_word_of_int)

lemma uint_sint32: "uint w = unsigned32 (sint w)" for w :: u32
proof -
  have "uint w = uint (word_of_int (sint w) :: u32)" by simp
  then show ?thesis by (simp only: unsigned32_def uint_word_of_int) simp
qed

lemma uint_shifts:
  fixes w :: u32
  shows "uint (push_bit n w) = unsigned32 (uint w * 2 ^ n)" "uint (drop_bit n w) = uint w div 2 ^ n"
    "uint (signed_drop_bit n w) = unsigned32 (sint w div 2 ^ n)"
proof -
  have "uint (push_bit n w) = take_bit LENGTH(32) (push_bit n (uint w))" by (rule unsigned_push_bit_eq)
  then show "uint (push_bit n w) = unsigned32 (uint w * 2 ^ n)"
    by (simp add: push_bit_eq_mult take_bit_eq_mod unsigned32_def)
  have "uint (drop_bit n w) = drop_bit n (take_bit LENGTH(32) (uint w))" by (rule unsigned_drop_bit_eq)
  moreover have "take_bit LENGTH(32) (uint w) = uint w"
    using uint_less32 [of w] by (simp add: take_bit_int_eq_self)
  ultimately show "uint (drop_bit n w) = uint w div 2 ^ n" by (simp only: drop_bit_eq_div)
  show "uint (signed_drop_bit n w) = unsigned32 (sint w div 2 ^ n)"
    by (simp add: uint_sint32 [of "signed_drop_bit n w"] sint_signed_drop_bit_eq drop_bit_eq_div)
qed

lemma uint_bitwise:
  fixes a b :: u32
  shows "uint (a AND b) = uint a AND uint b" "uint (a OR b) = uint a OR uint b"
    "uint (a XOR b) = uint a XOR uint b" "uint (NOT a) = 2 ^ 32 - 1 - uint a"
proof -
  show "uint (a AND b) = uint a AND uint b" "uint (a OR b) = uint a OR uint b"
    "uint (a XOR b) = uint a XOR uint b"
    by (simp_all add: unsigned_and_eq unsigned_or_eq unsigned_xor_eq)
  have "uint (- 1 - a) = uint (- 1 :: u32) - uint a"
    by (simp only: uint_minus_simple_alt [symmetric] word_order.extremum)
  moreover have "NOT a = - 1 - a" by (simp add: not_eq_complement)
  moreover have "uint (- 1 :: u32) = 2 ^ 32 - 1"
    by (simp add: unsigned_minus_1_eq_mask mask_eq_exp_minus_1)
  ultimately show "uint (NOT a) = 2 ^ 32 - 1 - uint a" by (simp only:)
qed

lemma uint_c_bool: "uint (c_bool b) = of_bool b"
  by (simp add: c_bool_def)

lemmas word_values = uint_unsigned32 uint_shifts uint_bitwise uint_c_bool uint_div uint_mod signed32_uint

section \<open>The interpreter computes these meanings\<close>

lemma int_sem_trap:
  "l \<in> value_labels \<Longrightarrow> int_sem l a b = None \<longleftrightarrow>
     (l = op_DIVU \<and> a = 0) \<or> (l = op_DIVS \<and> (a = 0 \<or> signed32 b = - (2 ^ 31) \<and> signed32 a = - 1))
     \<or> (l \<in> {op_LSL, op_LSR, op_ASR} \<and> \<not> a < 32)"
  unfolding value_labels_def by (elim insertE emptyE) (simp_all add: int_sem_def)

lemma word_sint_eq: "a = b \<longleftrightarrow> sint a = sint b" for a b :: u32
  by (metis uint_sint32 word_uint_eq_iff)

lemma divs_trap: "(b = 0 \<or> a = 0x80000000 \<and> b = - 1) \<longleftrightarrow>
    (uint b = 0 \<or> signed32 (uint a) = - (2 ^ 31) \<and> signed32 (uint b) = - 1)" for a b :: u32
proof -
  have "a = 0x80000000 \<longleftrightarrow> sint a = - (2 ^ 31)" for a :: u32
    by (subst word_sint_eq) simp
  moreover have "b = - 1 \<longleftrightarrow> sint b = - 1" for b :: u32
    by (subst word_sint_eq) simp
  ultimately show ?thesis by (simp add: signed32_uint unsigned_eq_0_iff)
qed

lemma TARGET_DIVS_uint: "TARGET_DIVS a b =
    (if uint b = 0 \<or> signed32 (uint a) = - (2 ^ 31) \<and> signed32 (uint b) = - 1 then Inl Divide_error
     else Inr (word_of_int (sint a sdiv sint b), word_of_int (sint a smod sint b)))"
  unfolding TARGET_DIVS_def divs_trap ..

lemma TARGET_DIVU_uint: "TARGET_DIVU a b = (if uint b = 0 then Inl Divide_error else Inr (a div b, a mod b))"
  by (simp add: TARGET_DIVU_def unsigned_eq_0_iff)

lemma shift_op_uint:
  "shift_op f v c = (if uint c < 32 then Inr (f (nat (uint c)) v) else Inl Undefined_shift)"
  by (simp add: shift_op_def word_less_def)

text \<open>The statement of agreement, for one label.\<close>

definition computes :: "vm_label \<Rightarrow> 'k vm_env \<Rightarrow> u32 \<Rightarrow> u32 \<Rightarrow> u32 \<Rightarrow> u32 \<Rightarrow> 'k machine \<Rightarrow> vm_context_t \<Rightarrow> bool" where
  "computes l E hi a1 a2 p s ctx \<longleftrightarrow>
     (case int_sem l (uint a1) (uint a2) of
        None \<Rightarrow> vm_exec l E hi a1 a2 p s ctx
          = Inl (if l \<in> {op_DIVU, op_DIVS} then Divide_error else Undefined_shift)
      | Some rs \<Rightarrow> \<exists>ws. vm_exec l E hi a1 a2 p s ctx = Inr (ws, p, s, ctx) \<and> map uint (rev ws) = rs)"

lemmas value_simps = computes_def int_sem_def push_defs

lemma computes_arith:
  "computes op_ADD E hi a1 a2 p s ctx" "computes op_SUB E hi a1 a2 p s ctx"
  "computes op_DIVU E hi a1 a2 p s ctx"
  by (simp_all add: value_simps TARGET_DIVU_uint uint_unsigned32 uint_div uint_mod add.commute)

lemma computes_divs: "computes op_DIVS E hi a1 a2 p s ctx"
  by (cases "uint a1 = 0 \<or> signed32 (uint a2) = - (2 ^ 31) \<and> signed32 (uint a1) = - 1")
    (simp_all only: value_simps vm_exec.simps vm_label.case TARGET_DIVS_uint if_True if_False bind_res_simps
      option.case prod.case, auto simp: uint_unsigned32 signed32_uint)

lemma computes_bits:
  "computes op_AND E hi a1 a2 p s ctx" "computes op_XOR E hi a1 a2 p s ctx"
  "computes op_LSL E hi a1 a2 p s ctx" "computes op_LSR E hi a1 a2 p s ctx"
  "computes op_ASR E hi a1 a2 p s ctx"
  by (simp_all add: value_simps uint_bitwise shift_op_uint uint_shifts signed32_uint)

lemma computes_compare:
  "computes op_CMP_B E hi a1 a2 p s ctx" "computes op_CMP_A E hi a1 a2 p s ctx"
  "computes op_CMP_EQ E hi a1 a2 p s ctx"
  by (simp_all add: value_simps uint_c_bool word_less_def word_uint_eq_iff eq_commute)

lemma computes_stack:
  "computes op_LDC_0 E hi a1 a2 p s ctx" "computes op_LDC_1 E hi a1 a2 p s ctx"
  "computes op_LDC_2 E hi a1 a2 p s ctx" "computes op_DUP E hi a1 a2 p s ctx"
  "computes op_SWAP E hi a1 a2 p s ctx" "computes op_POP E hi a1 a2 p s ctx"
  by (simp_all add: value_simps)

lemma vm_exec_value: "l \<in> value_labels \<Longrightarrow> computes l E hi a1 a2 p s ctx"
  unfolding value_labels_def
  by (elim insertE emptyE)
    (simp_all only: computes_arith computes_divs computes_bits computes_compare computes_stack)

end
