(* ===== verification/VM_Straight.thy ===== *)
theory VM_Straight
  imports VM_Values
begin

text \<open>
  Straight-line code: sequences of constants (\<open>LDC.W\<close>) and of instructions that only compute,
  as the assembler encodes them. A list of integers is the abstract machine; the interpreter,
  run on the encoded bytes, refines it.
\<close>

section \<open>Encoding\<close>

datatype instr = Const u32 | Value vm_label

definition opcode_of :: "vm_label \<Rightarrow> u8" where
  "opcode_of l = the (map_of (zip offtab vm_insn_to_opcode) l)"

definition le_bytes :: "u32 \<Rightarrow> u8 list" where
  "le_bytes w = [ucast w, ucast (drop_bit 8 w), ucast (drop_bit 16 w), ucast (drop_bit 24 w)]"

primrec encode :: "instr \<Rightarrow> u8 list" where
  "encode (Const w) = opcode_of op_LDC_W # le_bytes w"
| "encode (Value l) = [opcode_of l]"

section \<open>The list machine\<close>

definition label_ins :: "vm_label \<Rightarrow> nat" where
  "label_ins l = decode_ops_in (opcode_of l)"

primrec list_step :: "instr \<Rightarrow> int list \<Rightarrow> int list option" where
  "list_step (Const w) ws = Some (uint w # ws)"
| "list_step (Value l) ws =
     (let n = label_ins l; arg = (\<lambda>i. if i < n then ws ! i else 0)
      in if l \<in> value_labels \<and> n \<le> length ws
         then map_option (\<lambda>rs. rs @ drop n ws) (int_sem l (arg 0) (arg 1)) else None)"

primrec list_run :: "nat \<Rightarrow> instr list \<Rightarrow> int list \<Rightarrow> int list option" where
  "list_run room [] ws = Some ws"
| "list_run room (i # is) ws =
     (case list_step i ws of None \<Rightarrow> None
      | Some ws' \<Rightarrow> if length ws' \<le> room then list_run room is ws' else None)"

lemma list_run_append:
  "list_run room (xs @ ys) ws = (case list_run room xs ws of None \<Rightarrow> None | Some ws' \<Rightarrow> list_run room ys ws')"
  by (induction xs arbitrary: ws) (auto split: option.splits)

section \<open>Decoding what was encoded\<close>

lemma decode_opcode_of:
  "l \<in> value_labels \<Longrightarrow> decode_label (opcode_of l) = l"
  "decode_label (opcode_of op_LDC_W) = op_LDC_W" "decode_ops_in (opcode_of op_LDC_W) = 0"
proof -
  show "decode_label (opcode_of l) = l" if "l \<in> value_labels"
    using that unfolding value_labels_def by (elim insertE emptyE; hypsubst; code_simp)
qed code_simp+

lemma int_sem_operands:
  assumes "l \<in> value_labels"
  shows "int_sem l (uint (operand junk (label_ins l) ws 0)) (uint (operand junk (label_ins l) ws 1)) =
    int_sem l (if 0 < label_ins l then uint (ws ! 0) else 0) (if 1 < label_ins l then uint (ws ! 1) else 0)"
proof (cases "label_ins l \<le> 1")
  case False
  then show ?thesis by (simp add: operand_def)
next
  case True
  have "label_ins l = 0 \<and> l \<in> {op_LDC_0, op_LDC_1, op_LDC_2} \<or> label_ins l = 1 \<and> l \<in> {op_DUP, op_POP}"
    using assms True unfolding value_labels_def by (elim insertE emptyE; hypsubst; code_simp)
  then show ?thesis by (elim disjE conjE insertE emptyE) (simp_all add: operand_def int_sem_def)
qed

lemma ld32_le_bytes: "bytes_at m a (le_bytes w) \<Longrightarrow> ld32 m a = w"
proof -
  assume "bytes_at m a (le_bytes w)"
  then have "ld32 m a = ld32 (st32 m a w) a"
    by (simp add: ld32_def st32_def le_bytes_def add.assoc)
  then show ?thesis by simp
qed

section \<open>One instruction refines one list step\<close>

definition refines :: "'k machine \<Rightarrow> vm_context_t \<Rightarrow> int list \<Rightarrow> bool" where
  "refines s ctx ws \<longleftrightarrow> vm_ok ctx \<and> map uint (stack_words (mem s) (dstack ctx)) = ws"

text \<open>What straight-line code leaves alone: all but the operand stack and the program counter.\<close>

definition only_stack :: "'k machine \<Rightarrow> vm_context_t \<Rightarrow> 'k machine \<Rightarrow> vm_context_t \<Rightarrow> bool" where
  "only_stack s ctx s' ctx' \<longleftrightarrow>
     (\<exists>m p ds. s' = s\<lparr>mem := m\<rparr> \<and> ctx' = ctx\<lparr>dstack := ds, pc := p\<rparr>
        \<and> bottom ds = bottom (dstack ctx) \<and> limit ds = limit (dstack ctx)
        \<and> (\<forall>x. x \<notin> stack_bytes (dstack ctx) \<longrightarrow> m x = mem s x))"

lemma only_stackI:
  assumes "bottom ds = bottom (dstack ctx)" "limit ds = limit (dstack ctx)"
    "\<And>x. x \<notin> stack_bytes (dstack ctx) \<Longrightarrow> m x = mem s x"
  shows "only_stack s ctx (s\<lparr>mem := m\<rparr>) (ctx\<lparr>dstack := ds, pc := p\<rparr>)"
  using assms unfolding only_stack_def by blast

lemma only_stackD:
  assumes "only_stack s ctx s' ctx'"
  shows "capacity (dstack ctx') = capacity (dstack ctx)" "stack_bytes (dstack ctx') = stack_bytes (dstack ctx)"
    "x \<notin> stack_bytes (dstack ctx) \<Longrightarrow> mem s' x = mem s x"
  using assms by (auto simp: only_stack_def capacity_def stack_bytes_def)

lemma only_stack_refl: "only_stack s ctx s ctx"
  unfolding only_stack_def
  by (rule exI [of _ "mem s"], rule exI [of _ "pc ctx"], rule exI [of _ "dstack ctx"]) simp

lemma only_stack_trans:
  assumes "only_stack s ctx s1 ctx1" "only_stack s1 ctx1 s2 ctx2"
  shows "only_stack s ctx s2 ctx2"
proof -
  obtain m p ds where 1: "s1 = s\<lparr>mem := m\<rparr>" "ctx1 = ctx\<lparr>dstack := ds, pc := p\<rparr>"
    "bottom ds = bottom (dstack ctx)" "limit ds = limit (dstack ctx)"
    "\<forall>x. x \<notin> stack_bytes (dstack ctx) \<longrightarrow> m x = mem s x"
    using assms(1) unfolding only_stack_def by blast
  obtain m' p' ds' where 2: "s2 = s1\<lparr>mem := m'\<rparr>" "ctx2 = ctx1\<lparr>dstack := ds', pc := p'\<rparr>"
    "bottom ds' = bottom (dstack ctx1)" "limit ds' = limit (dstack ctx1)"
    "\<forall>x. x \<notin> stack_bytes (dstack ctx1) \<longrightarrow> m' x = mem s1 x"
    using assms(2) unfolding only_stack_def by blast
  have "stack_bytes (dstack ctx1) = stack_bytes (dstack ctx)" using 1 by (simp add: stack_bytes_def)
  then have "only_stack s ctx (s\<lparr>mem := m'\<rparr>) (ctx\<lparr>dstack := ds', pc := p'\<rparr>)"
    using 1 2 by (intro only_stackI) simp_all
  then show ?thesis by (simp add: 1 2)
qed

text \<open>A step whose body returns words and leaves machine and context alone.\<close>

lemma vm_step_pushes:
  assumes ok: "vm_ok ctx" and b: "b = mem s (pc ctx)" and n: "decode_ops_in b \<le> depth (dstack ctx)"
    and ex: "vm_exec (decode_label b) E (junk 3) (operand junk (decode_ops_in b) (stack_words (mem s) (dstack ctx)) 0)
        (operand junk (decode_ops_in b) (stack_words (mem s) (dstack ctx)) 1) (pc ctx + 1) s
        (popped ctx (decode_ops_in b)) = Inr (rs, p, s, popped ctx (decode_ops_in b))"
    and room: "depth (dstack ctx) - decode_ops_in b + length rs \<le> capacity (dstack ctx)"
  shows "\<exists>s' ctx'. vm_step E junk s ctx = Inr (s', ctx') \<and> vm_ok ctx' \<and> pc ctx' = p \<and> only_stack s ctx s' ctx'
    \<and> stack_words (mem s') (dstack ctx') = rev rs @ drop (decode_ops_in b) (stack_words (mem s) (dstack ctx))"
proof -
  let ?c = "popped ctx (decode_ops_in b)"
  note q = popped_ok [OF ok n]
  from vm_okD(1) [OF q(1)] obtain m' ds' where f: "push_all rs s ?c = Inr (s\<lparr>mem := m'\<rparr>, ?c\<lparr>dstack := ds'\<rparr>)"
    "stack_words m' ds' = rev rs @ stack_words (mem s) (dstack ?c)"
    "stack_ok ds'" "bottom ds' = bottom (dstack ?c)" "limit ds' = limit (dstack ?c)"
    "\<And>x. x \<notin> stack_bytes (dstack ?c) \<Longrightarrow> m' x = mem s x"
    by (cases rule: push_all_cases [where rs = rs and s = s]) (use room q in auto)
  have "only_stack s ctx (s\<lparr>mem := m'\<rparr>) (ctx\<lparr>dstack := ds', pc := p\<rparr>)"
    using f(4-6) q(5) by (intro only_stackI) (simp_all add: popped_def)
  moreover have "vm_step E junk s ctx = Inr (s\<lparr>mem := m'\<rparr>, ctx\<lparr>dstack := ds', pc := p\<rparr>)"
    unfolding vm_step_pops [OF ok b n, of E junk] ex by (simp add: f(1))
  moreover have "vm_ok (ctx\<lparr>dstack := ds', pc := p\<rparr>)" using ok f(3) by (simp add: vm_ok_def)
  ultimately show ?thesis using f(2) q(3) by auto
qed

lemma list_step_refined:
  assumes ok: "vm_ok ctx" and code: "bytes_at (mem s) (pc ctx) (encode i)"
    and step: "list_step i (map uint (stack_words (mem s) (dstack ctx))) = Some rs"
    and room: "length rs \<le> capacity (dstack ctx)"
  shows "\<exists>s' ctx'. vm_step E junk s ctx = Inr (s', ctx') \<and> vm_ok ctx'
    \<and> pc ctx' = pc ctx + of_nat (length (encode i)) \<and> only_stack s ctx s' ctx'
    \<and> map uint (stack_words (mem s') (dstack ctx')) = rs"
proof (cases i)
  case (Const w)
  have b: "mem s (pc ctx) = opcode_of op_LDC_W" and w: "ld32 (mem s) (pc ctx + 1) = w"
    using code by (simp_all add: Const ld32_le_bytes)
  have "\<exists>s' ctx'. vm_step E junk s ctx = Inr (s', ctx') \<and> vm_ok ctx' \<and> pc ctx' = pc ctx + 1 + 4
    \<and> only_stack s ctx s' ctx'
    \<and> stack_words (mem s') (dstack ctx') = rev [w] @ drop 0 (stack_words (mem s) (dstack ctx))"
  proof -
    have "Suc (depth (dstack ctx)) \<le> capacity (dstack ctx)" using step room by (auto simp: Const)
    then show ?thesis
      using vm_step_pushes [OF ok b [symmetric], of E junk "[w]" "pc ctx + 1 + 4"]
      by (simp add: decode_opcode_of push_1_def vm_fetch32_ld32 w)
  qed
  then show ?thesis using step by (auto simp: Const le_bytes_def add.assoc)
next
  case (Value l)
  let ?ws = "stack_words (mem s) (dstack ctx)" and ?n = "label_ins l"
  have b: "mem s (pc ctx) = opcode_of l" using code by (simp add: Value)
  have l: "l \<in> value_labels" and n: "?n \<le> depth (dstack ctx)"
    using step by (auto simp: Value Let_def split: if_splits)
  obtain rs' where rs': "int_sem l (if 0 < ?n then uint (?ws ! 0) else 0) (if 1 < ?n then uint (?ws ! 1) else 0) = Some rs'"
    and rs: "rs = rs' @ drop ?n (map uint ?ws)"
  proof -
    have e: "(if i < ?n then map uint ?ws ! i else 0) = (if i < ?n then uint (?ws ! i) else 0)" for i
      using n by simp
    have "map_option (\<lambda>rs. rs @ drop ?n (map uint ?ws))
        (int_sem l (if 0 < ?n then uint (?ws ! 0) else 0) (if 1 < ?n then uint (?ws ! 1) else 0)) = Some rs"
      using step l n unfolding Value list_step.simps Let_def e by (simp del: One_nat_def)
    then show thesis using that by blast
  qed
  obtain vs where vs: "vm_exec l E (junk 3) (operand junk ?n ?ws 0) (operand junk ?n ?ws 1) (pc ctx + 1) s (popped ctx ?n)
      = Inr (vs, pc ctx + 1, s, popped ctx ?n)" "map uint (rev vs) = rs'"
    using vm_exec_value [OF l, of E "junk 3" "operand junk ?n ?ws 0" "operand junk ?n ?ws 1" "pc ctx + 1" s "popped ctx ?n"] rs'
    unfolding computes_def int_sem_operands [OF l] by auto
  have "length vs = length rs'" using arg_cong [OF vs(2), of length] by simp
  then have "depth (dstack ctx) - ?n + length vs \<le> capacity (dstack ctx)"
    using room rs n by simp
  then obtain s' ctx' where "vm_step E junk s ctx = Inr (s', ctx')" "vm_ok ctx'" "pc ctx' = pc ctx + 1"
    "only_stack s ctx s' ctx'" "stack_words (mem s') (dstack ctx') = rev vs @ drop ?n ?ws"
    using vm_step_pushes [OF ok b [symmetric], of E junk vs "pc ctx + 1"] n vs(1)
    unfolding label_ins_def decode_opcode_of(1) [OF l] by blast
  then show ?thesis using vs(2) by (auto simp: Value rs drop_map)
qed

section \<open>Straight-line code\<close>

definition encode_all :: "instr list \<Rightarrow> u8 list" where
  "encode_all is = concat (map encode is)"

lemma bytes_at_frame:
  assumes "bytes_at m a xs" "\<And>i. i < length xs \<Longrightarrow> m' (a + of_nat i) = m (a + of_nat i)"
  shows "bytes_at m' a xs"
  using assms by (simp add: bytes_at_iff)

lemma list_run_refined:
  assumes "vm_ok ctx" "bytes_at (mem s) (pc ctx) (encode_all is)"
    and "list_run (capacity (dstack ctx)) is (map uint (stack_words (mem s) (dstack ctx))) = Some rs"
    and "\<And>i. i < length (encode_all is) \<Longrightarrow> pc ctx + of_nat i \<notin> stack_bytes (dstack ctx)"
  shows "\<exists>s' ctx'. vm_run (length is) E junk s ctx = Inr (s', ctx') \<and> vm_ok ctx'
    \<and> pc ctx' = pc ctx + of_nat (length (encode_all is)) \<and> only_stack s ctx s' ctx'
    \<and> map uint (stack_words (mem s') (dstack ctx')) = rs"
  using assms
proof (induction "is" arbitrary: s ctx junk)
  case Nil
  then show ?case by (simp add: encode_all_def only_stack_refl)
next
  case (Cons i "is")
  let ?ws = "map uint (stack_words (mem s) (dstack ctx))"
  obtain rs1 where rs1: "list_step i ?ws = Some rs1" "length rs1 \<le> capacity (dstack ctx)"
    "list_run (capacity (dstack ctx)) is rs1 = Some rs"
    using Cons.prems(3) by (auto split: option.splits if_splits)
  have len: "length (encode_all (i # is)) = length (encode i) + length (encode_all is)"
    by (simp add: encode_all_def)
  have code: "bytes_at (mem s) (pc ctx) (encode i)"
    "bytes_at (mem s) (pc ctx + of_nat (length (encode i))) (encode_all is)"
    using Cons.prems(2) by (simp_all add: encode_all_def bytes_at_append)
  obtain s1 ctx1 where one: "vm_step E (junk 0) s ctx = Inr (s1, ctx1)" "vm_ok ctx1"
    "pc ctx1 = pc ctx + of_nat (length (encode i))" "only_stack s ctx s1 ctx1"
    "map uint (stack_words (mem s1) (dstack ctx1)) = rs1"
    using list_step_refined [OF Cons.prems(1) code(1) rs1(1,2), of E "junk 0"] by blast
  note os = only_stackD [OF one(4)]
  have out: "pc ctx1 + of_nat k \<notin> stack_bytes (dstack ctx)" if "k < length (encode_all is)" for k
    using Cons.prems(4) [of "length (encode i) + k"] that len by (simp add: one(3) add.assoc)
  have "bytes_at (mem s1) (pc ctx1) (encode_all is)"
    using code(2) unfolding one(3) [symmetric] by (rule bytes_at_frame) (simp add: os(3) out)
  then obtain s2 ctx2 where "vm_run (length is) E (\<lambda>k. junk (Suc k)) s1 ctx1 = Inr (s2, ctx2)" "vm_ok ctx2"
    "pc ctx2 = pc ctx1 + of_nat (length (encode_all is))" "only_stack s1 ctx1 s2 ctx2"
    "map uint (stack_words (mem s2) (dstack ctx2)) = rs"
    using Cons.IH [OF one(2), of s1 "\<lambda>k. junk (Suc k)"] rs1(3) out unfolding os(1,2) one(5) by blast
  then show ?case
    using one only_stack_trans [OF one(4)] by (auto simp: len algebra_simps)
qed

end
