(* ===== verification/VM_Frames.thy ===== *)
theory VM_Frames
  imports VM_Effect
begin

text \<open>
  Calls and returns: what \<open>vm_save_frame\<close> and the body of \<open>RET\<close> do to the arena, to the control
  stack and to the blocks the program holds, when the control stack lies outside the arena.
\<close>

section \<open>The arena's addresses\<close>

definition arena_bytes :: "'k machine \<Rightarrow> u32 set" where
  "arena_bytes s = {x. first_slot s \<le> x \<and> x < arena_brk s}"

lemma slot_in_arena:
  assumes "heap_at s ss" "(p, q, f) \<in> set ss" "p \<le> x" "x < q"
  shows "x \<in> arena_bytes s"
  using chain_mem [OF heap_at_start(1) [OF assms(1)] assms(2)] assms(3,4) by (auto simp: arena_bytes_def)

lemma free_in_arena: "heap_at s ss \<Longrightarrow> x \<in> free_bytes ss \<Longrightarrow> x \<in> arena_bytes s"
  unfolding free_bytes_def by (blast intro: slot_in_arena)

lemma held_start:
  assumes "heap_at s ss" "holds_slot ss p"
  shows "p - 8 < p" "p \<noteq> 0" "aligned 8 (p - 8)" "x \<in> {p - 8..<p} \<Longrightarrow> x \<in> arena_bytes s"
proof -
  obtain q where q: "(p - 8, q, False) \<in> set ss" using assms(2) by (auto simp: holds_slot_def)
  note b = slot_bounds [OF assms(1) q]
  show "p - 8 < p" "p \<noteq> 0" "aligned 8 (p - 8)" using b(3,5,6) by (auto simp: word_less_nat_alt)
  show "x \<in> arena_bytes s" if "x \<in> {p - 8..<p}"
    using slot_in_arena [OF assms(1) q, of x] that b(4) by auto
qed

lemma extent_in_arena:
  assumes "heap_at s ss" "x \<in> slot_extent ss p"
  shows "x \<in> arena_bytes s"
proof -
  obtain q where q: "(p - 8, q, False) \<in> set ss" "p \<le> x" "x < q" using assms(2) by (auto simp: slot_extent_def)
  have "p - 8 < p" using held_start(1) [OF assms(1)] q(1) by (auto simp: holds_slot_def)
  then show ?thesis using slot_in_arena [OF assms(1) q(1)] q by auto
qed

lemma held_aligned:
  assumes "heap_at s ss" "holds_slot ss p"
  shows "aligned 4 p"
proof -
  obtain q where q: "(p - 8, q, False) \<in> set ss" using assms(2) by (auto simp: holds_slot_def)
  have "unat p = unat (p - 8) + 8" using slot_bounds(5) [OF assms(1) q] by simp
  moreover have "8 dvd unat (p - 8)" using held_start(3) [OF assms] by (simp add: aligned_def)
  ultimately have "8 dvd unat p" by simp
  then show ?thesis unfolding aligned_def by (rule dvd_trans [rotated]) simp
qed

lemma heap_at_outside:
  assumes "heap_at s ss" "\<And>x. x \<in> arena_bytes s \<Longrightarrow> m x = mem s x"
  shows "heap_at (s\<lparr>mem := m\<rparr>) ss"
proof (rule heap_at_mem_cong [OF assms(1)])
  fix p q f x assume a: "(p, q, f) \<in> set ss" "p \<le> x" "x < p + 8"
  then have "x < q" using slot_bounds(4) [OF assms(1) a(1)] by simp
  then show "m x = mem s x" using slot_in_arena [OF assms(1) a(1,2)] by (intro assms(2))
qed

section \<open>Saving a frame\<close>

definition frame_pushed :: "u32 \<Rightarrow> 'k machine \<Rightarrow> slot list \<Rightarrow> vm_context_t \<Rightarrow> u32 \<Rightarrow> 'k machine \<Rightarrow> slot list \<Rightarrow> vm_stack \<Rightarrow> bool" where
  "frame_pushed p s ss ctx f s' ss' cs \<longleftrightarrow>
     heap_at s' ss' \<and> f \<noteq> 0 \<and> \<not> holds_slot ss f \<and> (\<forall>r. holds_slot ss' r \<longleftrightarrow> r = f \<or> holds_slot ss r)
     \<and> (\<forall>r. holds_slot ss r \<longrightarrow> slot_extent ss' r = slot_extent ss r)
     \<and> (\<forall>x. f \<le> x \<and> unat x < unat f + 12 \<longrightarrow> x \<in> slot_extent ss' f) \<and> unat f + 12 \<le> 0xC0000000
     \<and> read_words (mem s') f 3 = [p, locals ctx, top (dstack ctx)]
     \<and> stack_words (mem s') cs = f # stack_words (mem s) (cstack ctx) \<and> stack_ok cs
     \<and> bottom cs = bottom (cstack ctx) \<and> limit cs = limit (cstack ctx)
     \<and> (\<forall>x. x \<notin> free_bytes ss \<and> x \<notin> stack_bytes (cstack ctx) \<longrightarrow> mem s' x = mem s x)
     \<and> first_slot s' = first_slot s \<and> arena_brk s' = arena_brk s"

lemma frame_words: "st32 (st32 (st32 m f a) (f + 4) b) (f + 8) c = write_words m f [a, b, c]"
  by (simp add: add.assoc)

lemma read_words_cong_bytes:
  assumes "unat a + 4 * n < 2 ^ 32" "\<And>x. a \<le> x \<Longrightarrow> unat x < unat a + 4 * n \<Longrightarrow> m x = m' x"
  shows "read_words m a n = read_words m' a n"
  using assms
proof (induction n arbitrary: a)
  case (Suc n)
  have a4: "unat (a + 4) = unat a + 4" using Suc.prems(1) unat_add4 [of a 1] by simp
  have "ld32 m a = ld32 m' a"
  proof (rule ld32_cong)
    fix x assume "x \<in> region a 4"
    then have "unat a \<le> unat x" "unat x < unat a + 4" using Suc.prems(1) by (auto simp: region_unat)
    then show "m x = m' x" by (intro Suc.prems(2)) (auto simp: word_le_nat_alt)
  qed
  moreover have "read_words m (a + 4) n = read_words m' (a + 4) n"
    using Suc.prems a4 by (intro Suc.IH) (auto simp: word_le_nat_alt)
  ultimately show ?case by simp
qed simp

lemma stack_words_outside:
  assumes "stack_ok st" "\<And>x. x \<in> stack_bytes st \<Longrightarrow> m x = m' x"
  shows "stack_words m st = stack_words m' st"
  unfolding stack_words_def
proof (rule read_words_cong_bytes)
  note d = stack_okD [OF assms(1)]
  show "unat (top st) + 4 * depth st < 2 ^ 32" using d(1,5) by simp
  show "m x = m' x" if "top st \<le> x" "unat x < unat (top st) + 4 * depth st" for x
    using that d(1,6) by (intro assms(2)) (auto simp: stack_bytes_def word_le_nat_alt word_less_nat_alt)
qed

lemma save_frame_spec:
  assumes h: "heap_at s ss" and room: "has_room 12 ss"
    and cs: "stack_ok (cstack ctx)" "depth (cstack ctx) < capacity (cstack ctx)"
    and apart: "stack_bytes (cstack ctx) \<inter> arena_bytes s = {}"
  shows "\<exists>f s' ss' st. vm_save_frame E p s ctx = Inr (s', ctx\<lparr>cstack := st, locals := 0\<rparr>)
    \<and> frame_pushed p s ss ctx f s' ss' st"
proof -
  obtain f s1 ss1 where al: "rtl_alloc (kernel E) 12 s = Some (f, s1)" and a: "allocates 12 s ss f s1 ss1"
    using arena_alloc [OF h room] by blast
  have h1: "heap_at s1 ss1" and f: "holds_slot ss1 f" "unat f + 12 \<le> 0xC0000000"
    and ext: "\<And>x. f \<le> x \<Longrightarrow> unat x < unat f + 12 \<Longrightarrow> x \<in> slot_extent ss1 f"
    and inside: "\<And>x. x \<in> slot_extent ss1 f \<Longrightarrow> x \<in> free_bytes ss"
    and same: "\<And>x. x \<notin> free_bytes ss \<Longrightarrow> mem s1 x = mem s x"
    and gl: "first_slot s1 = first_slot s" "arena_brk s1 = arena_brk s"
    using a by (auto simp: allocates_def)
  have m_same: "m' x = mem s x" if "x \<notin> free_bytes ss" "m' x = mem s1 x" for m' :: memory and x
    using that same by simp
  define m where "m = write_words (mem s1) f [p, locals ctx, top (dstack ctx)]"
  have m_frame: "m x = mem s1 x" if "x \<notin> slot_extent ss1 f" for x
  proof -
    have u: "unat (f + 12) = unat f + 12" using f(2) by (simp add: unat_add_no_wrap)
    have "x < f \<or> f + 12 \<le> x" using that ext [of x] u by (force simp: word_less_nat_alt word_le_nat_alt)
    then show ?thesis unfolding m_def using f(2) by (intro write_words_frame) simp_all
  qed
  have h2: "heap_at (s1\<lparr>mem := m\<rparr>) ss1" using arena_put_law [OF h1 m_frame] .
  have "read_words m f (length [p, locals ctx, top (dstack ctx)]) = [p, locals ctx, top (dstack ctx)]"
    unfolding m_def by (rule read_write_words [OF held_aligned [OF h1 f(1)]]) simp
  then have words: "read_words m f 3 = [p, locals ctx, top (dstack ctx)]" by (simp add: numeral_3_eq_3)
  have out: "x \<notin> stack_bytes (cstack ctx)" if "x \<in> arena_bytes s" for x using apart that by blast
  from cs(1) obtain m' st where push: "vm_stack_push m (cstack ctx) f = Inr (m', st)"
    "stack_words m' st = f # stack_words m (cstack ctx)" "stack_ok st" "bottom st = bottom (cstack ctx)"
    "limit st = limit (cstack ctx)" "\<And>x. x \<notin> stack_bytes (cstack ctx) \<Longrightarrow> m' x = m x"
    by (cases rule: push_cases [where m = m and r = f]) (use cs(2) in auto)
  have arena1: "arena_bytes (s1\<lparr>mem := m\<rparr>) = arena_bytes s" using gl by (simp add: arena_bytes_def)
  have h3: "heap_at (s1\<lparr>mem := m'\<rparr>) ss1"
    using heap_at_outside [OF h2, of m'] push(6) out unfolding arena1 by simp
  have "stack_words m (cstack ctx) = stack_words (mem s) (cstack ctx)"
    using cs(1)
  proof (rule stack_words_outside)
    fix x assume "x \<in> stack_bytes (cstack ctx)"
    then have nf: "x \<notin> free_bytes ss" using out free_in_arena [OF h] by blast
    then have "m x = mem s1 x" using inside by (intro m_frame) blast
    then show "m x = mem s x" using nf by (rule m_same [rotated])
  qed
  moreover have "read_words m' f 3 = read_words m f 3"
  proof (rule read_words_cong_bytes)
    show "m' x = m x" if "f \<le> x" "unat x < unat f + 4 * 3" for x
      using that ext [of x] inside [of x] free_in_arena [OF h, of x] out [of x] push(6) [of x] by simp
  qed (use f(2) in simp)
  moreover have "m' x = mem s x" if "x \<notin> free_bytes ss" "x \<notin> stack_bytes (cstack ctx)" for x
  proof -
    have "m x = mem s1 x" using that inside by (intro m_frame) blast
    then show ?thesis using that push(6) m_same [OF that(1)] by simp
  qed
  moreover have "f \<noteq> 0" "\<not> holds_slot ss f" "\<forall>r. holds_slot ss1 r \<longleftrightarrow> r = f \<or> holds_slot ss r"
    "\<forall>r. holds_slot ss r \<longrightarrow> slot_extent ss1 r = slot_extent ss r"
    using a unfolding allocates_def by blast+
  ultimately have "frame_pushed p s ss ctx f (s1\<lparr>mem := m'\<rparr>) ss1 st"
    unfolding frame_pushed_def using h3 push(2-5) words f(2) ext gl
    by (intro conjI) simp_all
  moreover have "vm_save_frame E p s ctx = Inr (s1\<lparr>mem := m'\<rparr>, ctx\<lparr>cstack := st, locals := 0\<rparr>)"
    using push(1) by (simp add: vm_save_frame_def vm_alloc_def al frame_words m_def vm_stack_top_def)
  ultimately show ?thesis by blast
qed

section \<open>Returning\<close>

text \<open>
  The state a return meets: the frame is held and on top of the control stack, and the locals of
  the procedure, if it has any, are another held block.
\<close>

definition returnable :: "u32 \<Rightarrow> u32 \<Rightarrow> u32 \<Rightarrow> 'k machine \<Rightarrow> slot list \<Rightarrow> vm_context_t \<Rightarrow> bool" where
  "returnable f p l s ss ctx \<longleftrightarrow>
     heap_at s ss \<and> holds_slot ss f \<and> (\<forall>x. f \<le> x \<and> unat x < unat f + 12 \<longrightarrow> x \<in> slot_extent ss f)
     \<and> unat f + 12 \<le> 0xC0000000 \<and> (\<exists>t. read_words (mem s) f 3 = [p, l, t])
     \<and> stack_ok (cstack ctx) \<and> 0 < depth (cstack ctx) \<and> hd (stack_words (mem s) (cstack ctx)) = f
     \<and> stack_bytes (cstack ctx) \<inter> arena_bytes s = {}
     \<and> (locals ctx = 0 \<or> (holds_slot ss (locals ctx) \<and> locals ctx \<noteq> f))"

definition frame_popped :: "u32 \<Rightarrow> 'k machine \<Rightarrow> slot list \<Rightarrow> vm_context_t \<Rightarrow> 'k machine \<Rightarrow> slot list \<Rightarrow> vm_stack \<Rightarrow> bool" where
  "frame_popped f s ss ctx s' ss' st \<longleftrightarrow>
     heap_at s' ss' \<and> (\<forall>r. holds_slot ss' r \<longleftrightarrow> holds_slot ss r \<and> r \<noteq> f \<and> (locals ctx = 0 \<or> r \<noteq> locals ctx))
     \<and> stack_ok st \<and> bottom st = bottom (cstack ctx) \<and> limit st = limit (cstack ctx)
     \<and> stack_words (mem s') st = tl (stack_words (mem s) (cstack ctx))
     \<and> (\<forall>x. x \<notin> arena_bytes s \<longrightarrow> mem s' x = mem s x)
     \<and> (\<forall>r x. holds_slot ss r \<and> r \<noteq> f \<and> r \<noteq> locals ctx \<and> x \<in> slot_extent ss r \<longrightarrow> mem s' x = mem s x)
     \<and> first_slot s' = first_slot s \<and> arena_brk s' = arena_brk s"

lemma vm_free_spec:
  assumes "heap_at s ss" "p = 0 \<or> holds_slot ss p"
  shows "\<exists>s' ss'. vm_free p s = Inr s' \<and> heap_at s' ss'
    \<and> (\<forall>r. holds_slot ss' r \<longleftrightarrow> holds_slot ss r \<and> (r \<noteq> p \<or> p = 0))
    \<and> (\<forall>r. r \<noteq> p \<or> p = 0 \<longrightarrow> slot_extent ss' r = slot_extent ss r)
    \<and> (\<forall>x. x \<notin> arena_bytes s \<or> (\<exists>r. r \<noteq> p \<and> x \<in> slot_extent ss r) \<longrightarrow> mem s' x = mem s x)
    \<and> first_slot s' = first_slot s \<and> arena_brk s' = arena_brk s"
proof (cases "p = 0")
  case True
  then show ?thesis
    using assms(1) by (intro exI [of _ s] exI [of _ ss]) (simp add: vm_free_def rtl_free_def)
next
  case False
  then have held: "holds_slot ss p" using assms(2) by simp
  obtain s' ss' where r: "rtl_free p s = Some s'" "releases p s ss s' ss'"
    using arena_free [OF assms(1) held] by blast
  have "mem s' x = mem s x" if "x \<notin> arena_bytes s" for x
    using that free_in_arena [OF assms(1), of x] held_start(4) [OF assms(1) held, of x] r(2)
    by (force simp: releases_def not_le)
  moreover have "mem s' x = mem s x" if "q \<noteq> p" "x \<in> slot_extent ss q" for x q
    using header_apart [OF assms(1) held that] free_extent_apart [OF assms(1) that(2)] r(2)
    by (simp add: releases_def)
  ultimately show ?thesis
    using r False by (intro exI [of _ s'] exI [of _ ss']) (auto simp: vm_free_def releases_def)
qed

lemma return_spec:
  assumes r: "returnable f p l s ss ctx"
  shows "\<exists>s' ss' st. vm_return s ctx = Inr ([], p, s', ctx\<lparr>cstack := st, locals := l\<rparr>)
    \<and> frame_popped f s ss ctx s' ss' st"
proof -
  have h: "heap_at s ss" and f: "holds_slot ss f" "unat f + 12 \<le> 0xC0000000"
    and ext: "\<And>x. f \<le> x \<Longrightarrow> unat x < unat f + 12 \<Longrightarrow> x \<in> slot_extent ss f"
    and cs: "stack_ok (cstack ctx)" "0 < depth (cstack ctx)" "hd (stack_words (mem s) (cstack ctx)) = f"
    and apart: "stack_bytes (cstack ctx) \<inter> arena_bytes s = {}"
    and loc: "locals ctx = 0 \<or> holds_slot ss (locals ctx)" "f \<noteq> locals ctx"
    using r held_start(2) [of s ss f] by (auto simp: returnable_def)
  obtain t where t: "read_words (mem s) f 3 = [p, l, t]" using r by (auto simp: returnable_def)
  obtain s1 ss1 where free1: "vm_free (locals ctx) s = Inr s1" and h1: "heap_at s1 ss1"
    and hold1: "\<forall>r. holds_slot ss1 r \<longleftrightarrow> holds_slot ss r \<and> (r \<noteq> locals ctx \<or> locals ctx = 0)"
    and ext1: "\<forall>r. r \<noteq> locals ctx \<or> locals ctx = 0 \<longrightarrow> slot_extent ss1 r = slot_extent ss r"
    and same1: "\<forall>x. x \<notin> arena_bytes s \<or> (\<exists>r. r \<noteq> locals ctx \<and> x \<in> slot_extent ss r) \<longrightarrow> mem s1 x = mem s x"
    and gl1: "first_slot s1 = first_slot s" "arena_brk s1 = arena_brk s"
    using vm_free_spec [OF h loc(1)] by blast
  have "stack_words (mem s1) (cstack ctx) = stack_words (mem s) (cstack ctx)"
    using cs(1) by (rule stack_words_outside) (use same1 apart in blast)
  then have pop: "vm_stack_pop (mem s1) (cstack ctx) = Inr (f, (cstack ctx)\<lparr>top := top (cstack ctx) + 4\<rparr>)"
    using vm_stack_pop_fits [OF cs(1,2), of "mem s1"] cs(3) by simp
  have "read_words (mem s1) f 3 = read_words (mem s) f 3"
  proof (rule read_words_cong_bytes)
    show "mem s1 x = mem s x" if "f \<le> x" "unat x < unat f + 4 * 3" for x
      using that ext [of x] same1 loc(2) by auto
  qed (use f(2) in simp)
  then have fr: "ld32 (mem s1) f = p" "ld32 (mem s1) (f + 4) = l" using t by (simp_all add: numeral_3_eq_3)
  have f1: "f = 0 \<or> holds_slot ss1 f" using hold1 f(1) loc(2) by blast
  obtain s2 ss2 where free2: "vm_free f s1 = Inr s2" and h2: "heap_at s2 ss2"
    and hold2: "\<forall>r. holds_slot ss2 r \<longleftrightarrow> holds_slot ss1 r \<and> (r \<noteq> f \<or> f = 0)"
    and same2: "\<forall>x. x \<notin> arena_bytes s1 \<or> (\<exists>r. r \<noteq> f \<and> x \<in> slot_extent ss1 r) \<longrightarrow> mem s2 x = mem s1 x"
    and gl2: "first_slot s2 = first_slot s1" "arena_brk s2 = arena_brk s1"
    using vm_free_spec [OF h1 f1] by blast
  let ?st = "(cstack ctx)\<lparr>top := top (cstack ctx) + 4\<rparr>"
  note pp = pop3_fits [OF cs(1), of 1]
  have arena1: "arena_bytes s1 = arena_bytes s" using gl1 by (simp add: arena_bytes_def)
  have out: "mem s2 x = mem s x" if "x \<notin> arena_bytes s" for x
    using that same1 same2 by (simp add: arena1)
  have "stack_words (mem s2) ?st = tl (stack_words (mem s) (cstack ctx))"
  proof -
    have "stack_words (mem s2) ?st = stack_words (mem s) ?st"
      by (rule stack_words_outside) (use pp(3) cs(2) apart out in \<open>auto simp: stack_bytes_def\<close>)
    also have "\<dots> = tl (stack_words (mem s) (cstack ctx))" using pp(2) cs(2) by (simp add: drop_Suc)
    finally show ?thesis .
  qed
  moreover have "mem s2 x = mem s x" if "holds_slot ss r" "r \<noteq> f" "r \<noteq> locals ctx" "x \<in> slot_extent ss r" for r x
    using that same1 same2 ext1 by metis
  moreover have "stack_ok ?st" using pp(3) cs(2) by simp
  moreover have "vm_return s ctx = Inr ([], p, s2, ctx\<lparr>cstack := ?st, locals := l\<rparr>)"
    by (simp add: vm_return_def free1 pop fr free2 push_none_def)
  moreover have "\<forall>r. holds_slot ss2 r \<longleftrightarrow> holds_slot ss r \<and> r \<noteq> f \<and> (locals ctx = 0 \<or> r \<noteq> locals ctx)"
    using hold1 hold2 held_start(2) [OF h f(1)] by blast
  ultimately show ?thesis using h2 out gl1 gl2 unfolding frame_popped_def
    by (intro exI [of _ s2] exI [of _ ss2] exI [of _ ?st]) auto
qed

section \<open>The call and return instructions\<close>

lemma popped_0 [simp]: "popped ctx 0 = ctx"
  by (simp add: popped_def)

lemma decode_call_ret:
  "decode_label 0x2A = op_CALL" "decode_ops_in 0x2A = 0" "decode_label 0x2B = op_RET" "decode_ops_in 0x2B = 0"
  by code_simp+

lemma vm_step_no_operands:
  assumes "vm_ok ctx" "decode_ops_in (mem s (pc ctx)) = 0"
    and "\<And>a1 a2. vm_exec (decode_label (mem s (pc ctx))) E (junk 3) a1 a2 (pc ctx + 1) s ctx = Inr ([], p, s', ctx')"
  shows "vm_step E junk s ctx = Inr (s', ctx'\<lparr>pc := p\<rparr>)"
  using vm_step_pops [OF assms(1) refl, of s E junk] assms(2,3) by simp

lemma step_call_spec:
  assumes ok: "vm_ok ctx" and b: "mem s (pc ctx) = 0x2A" and h: "heap_at s ss" "has_room 12 ss"
    and cs: "depth (cstack ctx) < capacity (cstack ctx)" "stack_bytes (cstack ctx) \<inter> arena_bytes s = {}"
  shows "\<exists>f s' ss' st. vm_step E junk s ctx
      = Inr (s', ctx\<lparr>cstack := st, locals := 0, pc := pc ctx + 5 + ld32 (mem s) (pc ctx + 1)\<rparr>)
    \<and> frame_pushed (pc ctx + 5) s ss ctx f s' ss' st
    \<and> returnable f (pc ctx + 5) (locals ctx) s' ss'
        (ctx\<lparr>cstack := st, locals := 0, pc := pc ctx + 5 + ld32 (mem s) (pc ctx + 1)\<rparr>)"
proof -
  obtain f s' ss' st where sf: "vm_save_frame E (pc ctx + 5) s ctx = Inr (s', ctx\<lparr>cstack := st, locals := 0\<rparr>)"
    and fp: "frame_pushed (pc ctx + 5) s ss ctx f s' ss' st"
    using save_frame_spec [OF h vm_okD(2) [OF ok] cs] by blast
  have "pc ctx + 1 + 4 = pc ctx + 5" by simp
  then have "vm_step E junk s ctx
      = Inr (s', ctx\<lparr>cstack := st, locals := 0\<rparr>\<lparr>pc := pc ctx + 5 + ld32 (mem s) (pc ctx + 1)\<rparr>)"
    by (intro vm_step_no_operands [OF ok])
      (simp_all only: b decode_call_ret vm_exec.simps vm_call_def push_none_def vm_fetch32_ld32 sf Let_def
        bind_res_simps prod.case)
  moreover have "returnable f (pc ctx + 5) (locals ctx) s' ss'
      (ctx\<lparr>cstack := st, locals := 0, pc := pc ctx + 5 + ld32 (mem s) (pc ctx + 1)\<rparr>)"
  proof -
    have "depth st = Suc (depth (cstack ctx))"
      using fp unfolding frame_pushed_def by (metis length_Cons length_stack_words)
    moreover have "arena_bytes s' = arena_bytes s" "stack_bytes st = stack_bytes (cstack ctx)"
      using fp by (simp_all add: frame_pushed_def arena_bytes_def stack_bytes_def)
    ultimately show ?thesis using fp cs(2) by (simp add: returnable_def frame_pushed_def)
  qed
  ultimately show ?thesis using fp by (intro exI [of _ f] exI [of _ s'] exI [of _ ss'] exI [of _ st]) simp
qed

lemma step_ret_spec:
  assumes ok: "vm_ok ctx" and b: "mem s (pc ctx) = 0x2B" and r: "returnable f p l s ss ctx"
  shows "\<exists>s' ss' st. vm_step E junk s ctx = Inr (s', ctx\<lparr>cstack := st, locals := l, pc := p\<rparr>)
    \<and> frame_popped f s ss ctx s' ss' st"
proof -
  obtain s' ss' st where rt: "vm_return s ctx = Inr ([], p, s', ctx\<lparr>cstack := st, locals := l\<rparr>)"
    and post: "frame_popped f s ss ctx s' ss' st"
    using return_spec [OF r] by blast
  have "vm_step E junk s ctx = Inr (s', ctx\<lparr>cstack := st, locals := l\<rparr>\<lparr>pc := p\<rparr>)"
    by (rule vm_step_no_operands [OF ok]) (simp_all add: b decode_call_ret rt)
  then show ?thesis using post by auto
qed

end
