(* ===== verification/VM_Correct.thy ===== *)
theory VM_Correct
  imports VM_Straight VM_Frames
begin

text \<open>
  The properties of the operand stack and of the interpreter, with runs on a small context: a
  data stack of four words at \<open>0x20000\<close>, a control stack of two at \<open>0x30000\<close>.
\<close>

section \<open>A concrete context\<close>

definition demo_ctx :: "u32 \<Rightarrow> u32 \<Rightarrow> vm_context_t" where
  "demo_ctx t p =
     \<lparr>dstack = \<lparr>bottom = 0x20010, limit = 0x20000, top = t\<rparr>,
      cstack = \<lparr>bottom = 0x30008, limit = 0x30000, top = 0x30008\<rparr>,
      pc = p, locals = 0, vm_module = \<lparr>next_module = 0, base = 0, entry = 0, ncalls_table = 0\<rparr>\<rparr>"

definition demo_machine :: "memory \<Rightarrow> unit machine" where
  "demo_machine m = \<lparr>mem = m, free_anchor = 0, first_slot = 0, arena_brk = 0, sys_errno = 0, kern = ()\<rparr>"

definition demo_env :: "unit vm_env" where
  "demo_env = \<lparr>kernel = (\<lambda>nr args (m, k). (hd args, m, k)), thunk_at = (\<lambda>_. None)\<rparr>"

lemma demo_ctx_ok: "vm_ok (demo_ctx 0x20010 p)" "vm_ok (demo_ctx 0x20008 p)"
  by (simp_all add: vm_ok_def demo_ctx_def stack_ok_def aligned_def)

section \<open>The operand stack\<close>

text \<open>C8. What \<open>vm_stack_push3\<close> stores, \<open>vm_stack_pop3\<close> gives back in the same order, and below it
  the stack is as before; a push with room for the words succeeds and writes only the mapped
  stack region.\<close>

theorem stack_push_pop:
  assumes "stack_ok st" "length ws \<le> 0x4000" "depth st + length ws \<le> capacity st"
  shows "\<exists>m' st' st''. vm_stack_push3 m st ws = Inr (m', st') \<and> vm_stack_pop3 m' st' (length ws) = Inr (ws, st'')
    \<and> stack_ok st'' \<and> stack_words m' st'' = stack_words m st \<and> (\<forall>x. x \<notin> stack_bytes st \<longrightarrow> m' x = m x)"
proof -
  obtain m' st' where p: "vm_stack_push3 m st ws = Inr (m', st')"
    using vms.push_fits [of st ws m] assms by auto
  obtain st'' where q: "vm_stack_pop3 m' st' (length ws) = Inr (ws, st'')" "stack_ok st''"
    "stack_words m' st'' = stack_words m st"
    using vms.push_pop [OF assms(1,2) p] by auto
  have "\<forall>x. x \<notin> stack_bytes st \<longrightarrow> m' x = m x" using push_frame [OF assms(1,2) p] by simp
  then show ?thesis using p q by (intro exI [of _ m'] exI [of _ st'] exI [of _ st'']) simp
qed

theorem stack_push_pop_witness:
  "\<exists>m' st' st''. vm_stack_push3 (\<lambda>_. 0) (dstack (demo_ctx 0x20010 0)) [7, 8, 9] = Inr (m', st')
    \<and> vm_stack_pop3 m' st' (length [7, 8, 9 :: u32]) = Inr ([7, 8, 9], st'')"
proof -
  have "depth (dstack (demo_ctx 0x20010 0)) + length [7, 8, 9 :: u32] \<le> capacity (dstack (demo_ctx 0x20010 0))"
    by (simp add: demo_ctx_def depth_def capacity_def)
  then show ?thesis
    using stack_push_pop [OF vm_okD(1) [OF demo_ctx_ok(1)], of "[7, 8, 9]" 0 "\<lambda>_. 0"] by auto
qed

text \<open>C9. A push panics exactly when the words do not fit between \<open>limit\<close> and \<open>top\<close>, and a pop
  exactly when fewer words are on the stack than it asks for.\<close>

theorem stack_panics_iff:
  assumes "stack_ok st" "length ws \<le> 0x4000" "n \<le> 0x4000"
  shows "(vm_stack_push3 m st ws = Inl (Panic ''vm_stack_push: stack overflow'')
      \<longleftrightarrow> capacity st < depth st + length ws)
    \<and> (vm_stack_pop3 m st n = Inl (Panic ''vm_stack_pop: stack underflow'') \<longleftrightarrow> depth st < n)"
  using push3_fits [OF assms(1,2), of m] push3_overflow [OF assms(1,2), of m]
    pop3_fits(1) [OF assms(1), of n m] pop3_underflow [OF assms(1) _ assms(3), of m]
  by (metis Inl_Inr_False not_le)

theorem stack_panics_iff_witness:
  "vm_stack_push3 (\<lambda>_. 0) (dstack (demo_ctx 0x20008 0)) [1, 2, 3] = Inl (Panic ''vm_stack_push: stack overflow'')
   \<and> vm_stack_pop3 (\<lambda>_. 0) (dstack (demo_ctx 0x20008 0)) 3 = Inl (Panic ''vm_stack_pop: stack underflow'')"
  using stack_panics_iff [of "dstack (demo_ctx 0x20008 0)" "[1, 2, 3]" 3 "\<lambda>_. 0"] demo_ctx_ok
  by (simp add: vm_ok_def demo_ctx_def depth_def capacity_def)

section \<open>The instruction table\<close>

text \<open>The checked-in tables are what the generator makes of the instruction table.\<close>

lemma tables_up_to_date: "gen_tables opcodes = Some (map label_name offtab, vm_insn_to_opcode, vm_insn_to_name)"
  by code_simp

text \<open>C10. For every instruction table with fewer than 64 entries and at most three operands each, the
  byte generated for an entry decodes to its number of operands and its index, at which the other
  two tables have its label and its name; so different entries have different bytes.\<close>

theorem generated_opcodes_decode:
  assumes "gen_tables infos = Some (labels, codes, names)" "i < length infos" "stack_in (infos ! i) < 4"
  shows "decode_ops_in (codes ! i) = unat (stack_in (infos ! i)) \<and> unat (codes ! i AND 0x3F) = i
    \<and> labels ! i = ''op_'' @ sanitize_mnem (mnemonic (infos ! i)) \<and> names ! i = mnemonic (infos ! i)
    \<and> (\<forall>j < length infos. stack_in (infos ! j) < 4 \<and> codes ! j = codes ! i \<longrightarrow> j = i)"
  using generated_entry [OF assms] generated_entry(2) [OF assms(1)] by metis

theorem generated_opcodes_decode_witness:
  "decode_ops_in (vm_insn_to_opcode ! 32) = 2 \<and> unat (vm_insn_to_opcode ! 32 AND 0x3F) = 32 \<and> vm_insn_to_name ! 32 = ''STM.W''"
proof -
  have "length opcodes = 47" "stack_in (opcodes ! 32) = 2" "mnemonic (opcodes ! 32) = ''STM.W''" by code_simp+
  then show ?thesis using generated_opcodes_decode [OF tables_up_to_date, of 32] by simp
qed

text \<open>C11. Every listed instruction but \<open>NOT\<close>, whose entry and comment disagree, and the native call takes
  from the data stack as many words as the table says and leaves as many, and keeps both stacks
  well formed.\<close>

theorem step_effect_as_listed:
  assumes "vm_ok ctx" "i < 46" "mnemonic (opcodes ! i) \<noteq> ''NOT''" "mem s (pc ctx) = vm_insn_to_opcode ! i"
    and "vm_step E junk s ctx = Inr (s', ctx')"
  shows "vm_ok ctx' \<and> unat (stack_in (opcodes ! i)) \<le> depth (dstack ctx)
    \<and> depth (dstack ctx') + unat (stack_in (opcodes ! i)) = depth (dstack ctx) + unat (stack_out (opcodes ! i))"
  using vm_step_depth [OF assms(1) assms(4) [symmetric] _ assms(5)] listed_effect [OF assms(2)] by simp

theorem step_effect_as_listed_witness:
  "\<exists>s' ctx'. vm_step demo_env (\<lambda>_. 0) (demo_machine ((\<lambda>_. 0)(0x100 := 0x12))) (demo_ctx 0x20010 0x100) = Inr (s', ctx')
    \<and> depth (dstack ctx') = 1"
proof -
  have "\<exists>s' ctx'. vm_step demo_env (\<lambda>_. 0) (demo_machine ((\<lambda>_. 0)(0x100 := 0x12))) (demo_ctx 0x20010 0x100) = Inr (s', ctx')"
    by (simp add: vm_step_def demo_machine_def demo_ctx_def decode_ops_in_def decode_label_def offtab_def
        vm_stack_pop3_def vm_stack_push_def vm_stack_push3_def push_1_def Let_def)
  then show ?thesis
    using step_effect_as_listed [OF demo_ctx_ok(1), of 18 "demo_machine ((\<lambda>_. 0)(0x100 := 0x12))" "0x100"]
    by (fastforce simp: demo_machine_def demo_ctx_def vm_insn_to_opcode_def opcodes_def depth_def)
qed

section \<open>What instructions compute\<close>

text \<open>C12. The instructions \<open>ADD\<close>, \<open>SUB\<close>, \<open>DIVU\<close>, \<open>DIVS\<close>, \<open>AND\<close>, \<open>XOR\<close>, the shifts, \<open>CMP.B\<close>, \<open>CMP.A\<close>, \<open>CMP.EQ\<close>,
  the short constants, \<open>DUP\<close>, \<open>SWAP\<close> and \<open>POP\<close> compute on 32-bit words what \<open>int_sem\<close> states in integer
  arithmetic, traps included, and touch nothing else.\<close>

theorem values_in_integers:
  assumes "l \<in> value_labels"
  shows "case int_sem l (uint a1) (uint a2) of
      None \<Rightarrow> vm_exec l E hi a1 a2 p s ctx = Inl (if l \<in> {op_DIVU, op_DIVS} then Divide_error else Undefined_shift)
    | Some rs \<Rightarrow> \<exists>ws. vm_exec l E hi a1 a2 p s ctx = Inr (ws, p, s, ctx) \<and> map uint (rev ws) = rs"
  using vm_exec_value [OF assms] unfolding computes_def .

theorem values_in_integers_witness:
  "\<exists>ws. vm_exec op_DIVS demo_env 0 2 (- 7) 0x101 (demo_machine (\<lambda>_. 0)) (demo_ctx 0x20010 0)
      = Inr (ws, 0x101, demo_machine (\<lambda>_. 0), demo_ctx 0x20010 0)
    \<and> map uint (rev ws) = [0xFFFFFFFF, 0xFFFFFFFD]"
  using values_in_integers [where l = op_DIVS and ?a1.0 = 2 and ?a2.0 = "- 7" and E = demo_env and hi = 0
      and p = "0x101" and s = "demo_machine (\<lambda>_. 0)" and ctx = "demo_ctx 0x20010 0"]
  by (simp add: value_labels_def int_sem_def signed32_def unsigned32_def divide_int_def modulo_int_def
      signed_divide_int_def signed_modulo_int_def)

text \<open>C13. Straight-line code of \<open>LDC.W\<close> and the instructions of the previous property runs as the list
  machine says: when the encoded instructions lie at the
  program counter and outside the stack, and the list machine runs within the stack's capacity, as
  many steps as instructions return, end after the code, and leave the list machine's result on
  the stack and everything outside the stack region as it was.\<close>

theorem straight_line_code_runs:
  assumes "vm_ok ctx" "bytes_at (mem s) (pc ctx) (encode_all is)"
    and "list_run (capacity (dstack ctx)) is (map uint (stack_words (mem s) (dstack ctx))) = Some rs"
    and "\<And>i. i < length (encode_all is) \<Longrightarrow> pc ctx + of_nat i \<notin> stack_bytes (dstack ctx)"
  shows "\<exists>s' ctx'. vm_run (length is) E junk s ctx = Inr (s', ctx') \<and> vm_ok ctx'
    \<and> pc ctx' = pc ctx + of_nat (length (encode_all is)) \<and> only_stack s ctx s' ctx'
    \<and> map uint (stack_words (mem s') (dstack ctx')) = rs"
  using assms by (rule list_run_refined)

theorem straight_line_code_runs_witness:
  "\<exists>s' ctx'. vm_run 3 demo_env (\<lambda>_ _. 0)
      (demo_machine (write_bytes (\<lambda>_. 0) 0x100 [0x14, 0x17, 5, 0, 0, 0, 0x81])) (demo_ctx 0x20010 0x100)
    = Inr (s', ctx') \<and> map uint (stack_words (mem s') (dstack ctx')) = [0xFFFFFFFD]"
proof -
  let ?s = "demo_machine (write_bytes (\<lambda>_. 0) 0x100 [0x14, 0x17, 5, 0, 0, 0, 0x81])"
  let ?is = "[Value op_LDC_2, Const 5, Value op_SUB]"
  have e: "encode_all ?is = [0x14, 0x17, 5, 0, 0, 0, 0x81]" by code_simp
  have r: "list_run 4 ?is [] = Some [0xFFFFFFFD]" by code_simp
  have "bytes_at (mem ?s) (pc (demo_ctx 0x20010 0x100)) (encode_all ?is)"
    unfolding e by (simp add: demo_machine_def demo_ctx_def)
  moreover have "list_run (capacity (dstack (demo_ctx 0x20010 0x100))) ?is
      (map uint (stack_words (mem ?s) (dstack (demo_ctx 0x20010 0x100)))) = Some [0xFFFFFFFD]"
    using r by (simp add: demo_ctx_def stack_words_def depth_def capacity_def)
  moreover have "pc (demo_ctx 0x20010 0x100) + of_nat i \<notin> stack_bytes (dstack (demo_ctx 0x20010 0x100))"
    if "i < length (encode_all ?is)" for i
    using that unfolding e by (auto simp: demo_ctx_def stack_bytes_def less_Suc_eq)
  ultimately show ?thesis
    using straight_line_code_runs [OF demo_ctx_ok(1), of ?s "0x100" ?is "[0xFFFFFFFD]" demo_env "\<lambda>_ _. 0"]
    by (simp only: list.size) (auto simp: eval_nat_numeral)
qed

subsection \<open>Against the comments of the table\<close>


section \<open>Calls\<close>

text \<open>C15. \<open>CALL\<close> to a \<open>RET\<close>: when the arena has room for a frame and the control stack is not full
  and lies outside the arena, the two steps come back to the instruction after the call with the
  caller's locals and control stack, the frame's block is freed again, and every block the program
  holds has its contents.\<close>

theorem call_then_return:
  assumes ok: "vm_ok ctx" and b: "mem s (pc ctx) = 0x2A" and h: "heap_at s ss" "has_room 12 ss"
    and cs: "depth (cstack ctx) < capacity (cstack ctx)" "stack_bytes (cstack ctx) \<inter> arena_bytes s = {}"
    and t: "t = pc ctx + 5 + ld32 (mem s) (pc ctx + 1)" "mem s t = 0x2B"
      "t \<notin> free_bytes ss" "t \<notin> stack_bytes (cstack ctx)"
  shows "\<exists>s1 ctx1 s2 ctx2 ss2. vm_step E junk s ctx = Inr (s1, ctx1) \<and> pc ctx1 = t
    \<and> vm_step E junk' s1 ctx1 = Inr (s2, ctx2) \<and> pc ctx2 = pc ctx + 5 \<and> locals ctx2 = locals ctx
    \<and> dstack ctx2 = dstack ctx \<and> stack_words (mem s2) (cstack ctx2) = stack_words (mem s) (cstack ctx)
    \<and> heap_at s2 ss2 \<and> (\<forall>r. holds_slot ss2 r \<longleftrightarrow> holds_slot ss r)
    \<and> (\<forall>r x. holds_slot ss r \<and> x \<in> slot_extent ss r \<longrightarrow> mem s2 x = mem s x)"
proof -
  obtain f s1 ss1 st where one: "vm_step E junk s ctx = Inr (s1, ctx\<lparr>cstack := st, locals := 0, pc := t\<rparr>)"
    and fp: "frame_pushed (pc ctx + 5) s ss ctx f s1 ss1 st"
    and rt: "returnable f (pc ctx + 5) (locals ctx) s1 ss1 (ctx\<lparr>cstack := st, locals := 0, pc := t\<rparr>)"
    using step_call_spec [OF ok b h cs] unfolding t(1) by blast
  let ?ctx1 = "ctx\<lparr>cstack := st, locals := 0, pc := t\<rparr>"
  have ok1: "vm_ok ?ctx1" using ok fp by (simp add: vm_ok_def frame_pushed_def)
  have b1: "mem s1 (pc ?ctx1) = 0x2B" using fp t(2-4) by (simp add: frame_pushed_def)
  obtain s2 ss2 st2 where two: "vm_step E junk' s1 ?ctx1 = Inr (s2, ?ctx1\<lparr>cstack := st2, locals := locals ctx, pc := pc ctx + 5\<rparr>)"
    and fq: "frame_popped f s1 ss1 ?ctx1 s2 ss2 st2"
    using step_ret_spec [OF ok1 b1 rt, of E junk'] by blast
  have post: "heap_at s2 ss2" "\<forall>r. holds_slot ss2 r \<longleftrightarrow> holds_slot ss1 r \<and> r \<noteq> f"
    "stack_words (mem s2) st2 = tl (stack_words (mem s1) st)"
    "\<forall>r x. holds_slot ss1 r \<and> r \<noteq> f \<and> r \<noteq> 0 \<and> x \<in> slot_extent ss1 r \<longrightarrow> mem s2 x = mem s1 x"
    using fq by (simp_all add: frame_popped_def)
  have "stack_words (mem s2) st2 = stack_words (mem s) (cstack ctx)" using post(3) fp by (simp add: frame_pushed_def)
  moreover have "holds_slot ss2 r \<longleftrightarrow> holds_slot ss r" for r using post(2) fp by (auto simp: frame_pushed_def)
  moreover have "mem s2 x = mem s x" if r: "holds_slot ss r" "x \<in> slot_extent ss r" for r x
  proof -
    have "x \<notin> stack_bytes (cstack ctx)" using extent_in_arena [OF h(1) r(2)] cs(2) by blast
    then have "mem s1 x = mem s x" using free_extent_apart [OF h(1) r(2)] fp by (simp add: frame_pushed_def)
    moreover have "holds_slot ss1 r" "r \<noteq> f" "x \<in> slot_extent ss1 r"
      using fp r unfolding frame_pushed_def by blast+
    then have "mem s2 x = mem s1 x" using post(4) held_start(2) [OF h(1) r(1)] by blast
    ultimately show ?thesis by simp
  qed
  ultimately show ?thesis
    using one two post(1)
    by - (rule exI [of _ s1], rule exI [of _ ?ctx1], rule exI [of _ s2],
        rule exI [of _ "?ctx1\<lparr>cstack := st2, locals := locals ctx, pc := pc ctx + 5\<rparr>"],
        rule exI [of _ ss2], auto)
qed

text \<open>C16. \<open>RET\<close> in any state in which the frame is held and on top of the control stack, whatever
  ran since the call: control comes back to the saved address with the saved locals, the control
  stack loses the frame, exactly the frame's block and the procedure's locals are freed, and all
  other blocks and everything outside the arena keep their contents.\<close>

theorem return_restores_caller:
  assumes "vm_ok ctx" "mem s (pc ctx) = 0x2B" "returnable f p l s ss ctx"
  shows "\<exists>s' ss' st. vm_step E junk s ctx = Inr (s', ctx\<lparr>cstack := st, locals := l, pc := p\<rparr>)
    \<and> frame_popped f s ss ctx s' ss' st"
  using step_ret_spec [OF assms] .

subsection \<open>A run\<close>

definition demo_code :: memory where
  "demo_code = write_bytes (st32 (\<lambda>_. 0) 0x1000 0x2000) 0x100 [0x2A, 0, 0, 0, 0, 0x2B]"

definition demo_vm :: "unit machine" where
  "demo_vm = \<lparr>mem = demo_code, free_anchor = 0x1000, first_slot = 0x1000, arena_brk = 0x2000,
     sys_errno = 0, kern = ()\<rparr>"

lemma demo_code_at: "demo_code 0x100 = 0x2A" "ld32 demo_code 0x101 = 0" "demo_code 0x105 = 0x2B"
  "next_slot demo_code 0x1000 = 0x2000" "next_free demo_code 0x1000 = 0"
  by (simp_all add: demo_code_def st32_def ld32_def next_slot_def next_free_def)

lemma demo_vm_heap: "heap_at demo_vm [(0x1000, 0x2000, True)]" "has_room 12 [(0x1000, 0x2000, True)]"
  by (simp_all add: heap_at_def demo_vm_def demo_code_at aligned_def has_room_def alloc_abs_def carve_def
      slot_units_def c_align_def)

lemma demo_cstack: "depth (cstack (demo_ctx t p)) < capacity (cstack (demo_ctx t p))"
  "stack_bytes (cstack (demo_ctx t p)) \<inter> arena_bytes demo_vm = {}" "0x105 \<notin> stack_bytes (cstack (demo_ctx t p))"
  by (auto simp: demo_ctx_def depth_def capacity_def stack_bytes_def arena_bytes_def demo_vm_def
      word_le_nat_alt word_less_nat_alt)

theorem call_then_return_witness:
  "\<exists>s1 ctx1 s2 ctx2. vm_step demo_env (\<lambda>_. 0) demo_vm (demo_ctx 0x20010 0x100) = Inr (s1, ctx1)
    \<and> vm_step demo_env (\<lambda>_. 0) s1 ctx1 = Inr (s2, ctx2) \<and> pc ctx2 = 0x105"
proof -
  have c: "mem demo_vm (pc (demo_ctx 0x20010 0x100)) = 0x2A" "pc (demo_ctx 0x20010 0x100) + 5 = 0x105"
    "0x105 = pc (demo_ctx 0x20010 0x100) + 5 + ld32 (mem demo_vm) (pc (demo_ctx 0x20010 0x100) + 1)"
    "mem demo_vm 0x105 = 0x2B" "0x105 \<notin> free_bytes [(0x1000, 0x2000, True)]"
    by (simp_all add: demo_vm_def demo_ctx_def demo_code_at free_bytes_def)
  show ?thesis
    using call_then_return [OF demo_ctx_ok(1) c(1) demo_vm_heap demo_cstack(1,2) c(3-5) demo_cstack(3)]
    unfolding c(2) by blast
qed

theorem return_restores_caller_witness:
  "\<exists>s1 ctx1 s2 ctx2. vm_step demo_env (\<lambda>_. 0) demo_vm (demo_ctx 0x20010 0x100) = Inr (s1, ctx1)
    \<and> vm_step demo_env (\<lambda>_. 0) s1 ctx1 = Inr (s2, ctx2) \<and> locals ctx2 = 0"
proof -
  let ?c = "demo_ctx 0x20010 0x100"
  have c: "mem demo_vm (pc ?c) = 0x2A" "pc ?c + 5 + ld32 (mem demo_vm) (pc ?c + 1) = 0x105"
    "mem demo_vm 0x105 = 0x2B" "0x105 \<notin> free_bytes [(0x1000, 0x2000, True)]" "locals ?c = 0"
    by (simp_all add: demo_vm_def demo_ctx_def demo_code_at free_bytes_def)
  obtain f s1 ss1 st where one: "vm_step demo_env (\<lambda>_. 0) demo_vm ?c = Inr (s1, ?c\<lparr>cstack := st, locals := 0, pc := 0x105\<rparr>)"
    and fp: "frame_pushed (pc ?c + 5) demo_vm [(0x1000, 0x2000, True)] ?c f s1 ss1 st"
    and rt: "returnable f (pc ?c + 5) (locals ?c) s1 ss1 (?c\<lparr>cstack := st, locals := 0, pc := 0x105\<rparr>)"
    using step_call_spec [OF demo_ctx_ok(1) c(1) demo_vm_heap demo_cstack(1,2)] unfolding c(2) by blast
  have ok1: "vm_ok (?c\<lparr>cstack := st, locals := 0, pc := 0x105\<rparr>)"
    using demo_ctx_ok(1) [of "0x100"] fp by (simp add: vm_ok_def frame_pushed_def)
  have b1: "mem s1 (pc (?c\<lparr>cstack := st, locals := 0, pc := 0x105\<rparr>)) = 0x2B"
    using fp c(3,4) demo_cstack(3) by (simp add: frame_pushed_def)
  have "\<exists>s2 ctx2. vm_step demo_env (\<lambda>_. 0) s1 (?c\<lparr>cstack := st, locals := 0, pc := 0x105\<rparr>) = Inr (s2, ctx2)
      \<and> locals ctx2 = 0"
    using return_restores_caller [OF ok1 b1 rt, of demo_env "\<lambda>_. 0"] c(5) by fastforce
  then show ?thesis using one by blast
qed

end
