(* ===== verification/Mette_Strbuf.thy ===== *)
theory Mette_Strbuf
  imports Heap_Blocks
begin

text \<open>
  The counted strings of \<open>src/rtl/rtl_strbuf.c\<close> and \<open>rtl_strbuf.h\<close>, in memory: two 16-bit
  fields, \<open>length\<close> and \<open>max_length\<close>, and the text behind them. Lengths stay 16 bits wide;
  the comparison in \<open>rtl_strbuf_append_bytes\<close> is made in \<open>int\<close>, as C promotes it.
\<close>

section \<open>Fields and operations\<close>

definition rtl_strbuf_get_length :: "memory \<Rightarrow> u32 \<Rightarrow> u16" where
  "rtl_strbuf_get_length m sb = ld16 m sb"

definition rtl_strbuf_get_size :: "memory \<Rightarrow> u32 \<Rightarrow> u16" where
  "rtl_strbuf_get_size m sb = ld16 m (sb + 2)"

definition rtl_strbuf_get_buffer :: "u32 \<Rightarrow> u32" where
  "rtl_strbuf_get_buffer sb = sb + 4"

definition put_length :: "memory \<Rightarrow> u32 \<Rightarrow> u16 \<Rightarrow> memory" where
  "put_length m sb v = st16 m sb v"

definition put_max_length :: "memory \<Rightarrow> u32 \<Rightarrow> u16 \<Rightarrow> memory" where
  "put_max_length m sb v = st16 m (sb + 2) v"

text \<open>The result of the allocation is not compared with \<open>NULL\<close>.\<close>

definition rtl_strbuf_alloc :: "'k kernel \<Rightarrow> u32 \<Rightarrow> 'k machine \<Rightarrow> (u32 \<times> 'k machine) option" where
  "rtl_strbuf_alloc K sz s =
     (let sz = (if sz > 0xFFFF then 0xFFFF else sz)
      in case rtl_alloc K (4 + sz) s of
           None \<Rightarrow> None
         | Some (sb, s) \<Rightarrow> Some (sb, s\<lparr>mem := put_max_length (put_length (mem s) sb 0) sb (ucast sz)\<rparr>))"

definition rtl_strbuf_free :: "u32 \<Rightarrow> 'k machine \<Rightarrow> 'k machine option" where
  "rtl_strbuf_free sb s = rtl_free sb s"

definition rtl_strbuf_set_length :: "memory \<Rightarrow> u32 \<Rightarrow> u16 \<Rightarrow> memory" where
  "rtl_strbuf_set_length m sb len =
     put_length m sb (if rtl_strbuf_get_size m sb < len then rtl_strbuf_get_size m sb else len)"

definition rtl_strbuf_resize :: "'k kernel \<Rightarrow> u32 \<Rightarrow> u16 \<Rightarrow> 'k machine \<Rightarrow> (u32 \<times> 'k machine) option" where
  "rtl_strbuf_resize K sb sz s =
     (if sz > rtl_strbuf_get_size (mem s) sb
      then case rtl_realloc K sb (4 + ucast sz) s of
             None \<Rightarrow> None
           | Some (sb, s) \<Rightarrow>
               let m = (if rtl_strbuf_get_length (mem s) sb > sz then put_length (mem s) sb sz else mem s)
               in Some (sb, s\<lparr>mem := put_max_length m sb sz\<rparr>)
      else Some (sb, s))"

definition rtl_strbuf_append_bytes :: "memory \<Rightarrow> u32 \<Rightarrow> u32 \<Rightarrow> u16 \<Rightarrow> memory" where
  "rtl_strbuf_append_bytes m sb src count =
     (let room = uint (rtl_strbuf_get_size m sb) - uint (rtl_strbuf_get_length m sb);
          to_copy = word_of_int (if uint count < room then uint count else room) :: u16;
          m = xmemcpy m (rtl_strbuf_get_buffer sb + ucast (rtl_strbuf_get_length m sb)) src (ucast to_copy)
      in put_length m sb (rtl_strbuf_get_length m sb + to_copy))"

definition rtl_strbuf_append :: "memory \<Rightarrow> u32 \<Rightarrow> u32 \<Rightarrow> memory" where
  "rtl_strbuf_append m sb src =
     rtl_strbuf_append_bytes m sb (rtl_strbuf_get_buffer src) (rtl_strbuf_get_length m src)"

text \<open>\<open>tmp\<close> is the address of the local variable that holds the character.\<close>

definition rtl_strbuf_append_char :: "memory \<Rightarrow> u32 \<Rightarrow> u32 \<Rightarrow> u8 \<Rightarrow> memory" where
  "rtl_strbuf_append_char m tmp sb ch = rtl_strbuf_append_bytes (m(tmp := ch)) sb tmp 1"

text \<open>\<open>xstrlen\<close> counts the terminator, so it is appended too; the count is cut to 16 bits.\<close>

definition rtl_strbuf_append_asciiz :: "memory \<Rightarrow> u32 \<Rightarrow> u32 \<Rightarrow> memory option" where
  "rtl_strbuf_append_asciiz m sb asciiz =
     map_option (\<lambda>n. rtl_strbuf_append_bytes m sb asciiz (ucast n)) (xstrlen m asciiz)"

text \<open>\<open>temp_buf\<close> is the address of the static buffer.\<close>

definition rtl_strbuf_to_asciiz :: "memory \<Rightarrow> u32 \<Rightarrow> u32 \<Rightarrow> u32 \<times> memory" where
  "rtl_strbuf_to_asciiz m temp_buf sb =
     (let len = ucast (rtl_strbuf_get_length m sb);
          m = xmemcpy m temp_buf (rtl_strbuf_get_buffer sb) len
      in (temp_buf, m(temp_buf + len := 0)))"

section \<open>The contents as a list of bytes\<close>

definition strbuf_ok :: "memory \<Rightarrow> u32 \<Rightarrow> bool" where
  "strbuf_ok m sb \<longleftrightarrow> rtl_strbuf_get_length m sb \<le> rtl_strbuf_get_size m sb
     \<and> unat sb + 4 + unat (rtl_strbuf_get_size m sb) < 2 ^ 32"

definition strbuf_bytes :: "memory \<Rightarrow> u32 \<Rightarrow> u8 list" where
  "strbuf_bytes m sb = read_bytes m (sb + 4) (unat (rtl_strbuf_get_length m sb))"

definition strbuf_room :: "memory \<Rightarrow> u32 \<Rightarrow> nat" where
  "strbuf_room m sb = unat (rtl_strbuf_get_size m sb) - unat (rtl_strbuf_get_length m sb)"

text \<open>The addresses a buffer occupies.\<close>

definition strbuf_region :: "memory \<Rightarrow> u32 \<Rightarrow> u32 set" where
  "strbuf_region m sb = {x. unat sb \<le> unat x \<and> unat x < unat sb + 4 + unat (rtl_strbuf_get_size m sb)}"

subsection \<open>Block writes\<close>

lemma write_bytes_at:
  assumes "unat a + length xs < 2 ^ 32"
  shows "write_bytes m a xs x = (if unat a \<le> unat x \<and> unat x < unat a + length xs then xs ! (unat x - unat a) else m x)"
proof (cases "unat a \<le> unat x \<and> unat x < unat a + length xs")
  case True
  let ?i = "unat x - unat a"
  have x: "x = a + of_nat ?i" using True by (simp add: of_nat_diff)
  have "write_bytes m a xs (a + of_nat ?i) = xs ! ?i"
    using True assms by (intro write_bytes_nth) auto
  then show ?thesis using True x by simp
next
  case False
  have "x \<noteq> a + of_nat i" if "i < length xs" for i
  proof
    assume "x = a + of_nat i"
    then have "unat x = unat a + i" using assms that by (simp add: unat_add_no_wrap unat_of_nat)
    then show False using False that by simp
  qed
  then show ?thesis using False write_bytes_frame [of xs x a m] by auto
qed

lemma read_bytes_cong:
  assumes "unat a + n < 2 ^ 32" "\<And>x. unat a \<le> unat x \<Longrightarrow> unat x < unat a + n \<Longrightarrow> m x = m' x"
  shows "read_bytes m a n = read_bytes m' a n"
proof (rule nth_equalityI)
  fix i assume "i < length (read_bytes m a n)"
  then have i: "i < n" by simp
  then have "unat (a + of_nat i) = unat a + i" using assms(1) by (simp add: unat_add_no_wrap unat_of_nat)
  then show "read_bytes m a n ! i = read_bytes m' a n ! i" using assms(2) i by (simp add: read_bytes_nth)
qed simp

lemma read_bytes_append: "read_bytes m a (k + n) = read_bytes m a k @ read_bytes m (a + of_nat k) n"
  by (induction k arbitrary: a) (simp_all add: algebra_simps)

lemma read_write_bytes: "length xs \<le> 2 ^ 32 \<Longrightarrow> read_bytes (write_bytes m a xs) a (length xs) = xs"
  using bytes_at_write [of xs m a] by (simp add: bytes_at_read)

lemma st16_at:
  assumes "unat a + 2 \<le> 2 ^ 32"
  shows "unat x < unat a \<or> unat a + 2 \<le> unat x \<Longrightarrow> st16 m a v x = m x"
  using assms by (intro st16_frame) (auto simp: region_unat)

subsection \<open>Appending\<close>

lemma append_count:
  fixes count :: u16
  assumes "rtl_strbuf_get_length m sb \<le> rtl_strbuf_get_size m sb"
  shows "unat (word_of_int (if uint count < uint (rtl_strbuf_get_size m sb) - uint (rtl_strbuf_get_length m sb)
      then uint count else uint (rtl_strbuf_get_size m sb) - uint (rtl_strbuf_get_length m sb)) :: u16)
    = min (unat count) (strbuf_room m sb)"
proof -
  let ?r = "strbuf_room m sb"
  have "unat (rtl_strbuf_get_length m sb) \<le> unat (rtl_strbuf_get_size m sb)"
    using assms by (simp only: word_le_nat_alt)
  then have r: "uint (rtl_strbuf_get_size m sb) - uint (rtl_strbuf_get_length m sb) = int ?r"
    unfolding strbuf_room_def by (simp only: of_nat_diff) simp
  have "?r < 2 ^ 16"
    using unsigned_less [of "rtl_strbuf_get_size m sb", where ?'a = nat] by (auto simp: strbuf_room_def)
  then have rr: "unat (of_nat ?r :: u16) = ?r" by (simp add: unat_of_nat)
  have lt: "uint count < int ?r \<longleftrightarrow> unat count < ?r"
    by (simp only: unat_eq_nat_uint nat_less_iff uint_ge_0)
  show ?thesis
  proof (cases "unat count < ?r")
    case True
    then show ?thesis unfolding r lt by (simp only: if_True word_of_int_uint min.absorb1 less_imp_le)
  next
    case False
    then have "min (unat count) ?r = ?r" by simp
    with False show ?thesis unfolding r lt by (simp only: if_False of_int_of_nat_eq rr)
  qed
qed

text \<open>
  The bytes appended come from outside the buffer's own memory. As many as fit are appended, in
  order; the buffer stays well formed; only the buffer's memory changes.
\<close>

lemma append_bytes_spec:
  assumes ok: "strbuf_ok m sb" and src: "unat src + unat count < 2 ^ 32"
    and apart: "\<And>x. unat src \<le> unat x \<Longrightarrow> unat x < unat src + unat count \<Longrightarrow> x \<notin> strbuf_region m sb"
  defines "m' \<equiv> rtl_strbuf_append_bytes m sb src count"
  shows "strbuf_ok m' sb" "rtl_strbuf_get_size m' sb = rtl_strbuf_get_size m sb"
    and "strbuf_bytes m' sb = strbuf_bytes m sb @ take (strbuf_room m sb) (read_bytes m src (unat count))"
    and "x \<notin> strbuf_region m sb \<Longrightarrow> m' x = m x"
proof -
  let ?len = "rtl_strbuf_get_length m sb" and ?max = "rtl_strbuf_get_size m sb"
  define k where "k = min (unat count) (strbuf_room m sb)"
  have le: "?len \<le> ?max" and sb: "unat sb + 4 + unat ?max < 2 ^ 32" using ok by (auto simp: strbuf_ok_def)
  define c where "c = (word_of_int (if uint count < uint ?max - uint ?len then uint count else uint ?max - uint ?len) :: u16)"
  have c: "unat c = k" unfolding c_def k_def by (rule append_count [OF le])
  have lenk: "unat ?len + k \<le> unat ?max" using le by (auto simp: k_def strbuf_room_def word_le_nat_alt)
  define d where "d = sb + 4 + ucast ?len"
  have sb4: "unat (sb + 4) = unat sb + 4" using sb by (simp add: unat_add_no_wrap)
  have ud: "unat d = unat sb + 4 + unat ?len"
    unfolding d_def using sb lenk sb4 by (subst unat_add_no_wrap) (simp_all add: unat_ucast16)
  have cc: "unat (ucast c :: u32) = k" using c by (simp add: unat_ucast16)
  have copy: "xmemcpy m d src (ucast c) = write_bytes m d (read_bytes m src k)"
    unfolding xmemcpy_def cc
  proof (rule memcpy_loop_write)
    fix i j assume ij: "i < k" "j < k" "i < j"
    have "unat (d + of_nat i) = unat d + i" using ij sb ud lenk by (simp add: unat_add_no_wrap unat_of_nat)
    then have "d + of_nat i \<in> strbuf_region m sb" using ij ud lenk by (simp add: strbuf_region_def)
    moreover have "unat (src + of_nat j) = unat src + j"
      using ij src by (simp add: unat_add_no_wrap unat_of_nat k_def)
    then have "src + of_nat j \<notin> strbuf_region m sb" using ij by (intro apart) (simp_all add: k_def)
    ultimately show "d + of_nat i \<noteq> src + of_nat j" by auto
  qed
  define m1 where "m1 = write_bytes m d (read_bytes m src k)"
  have m1: "m1 x = (if unat d \<le> unat x \<and> unat x < unat d + k then read_bytes m src k ! (unat x - unat d) else m x)" for x
    unfolding m1_def using sb ud lenk by (subst write_bytes_at) simp_all
  have hdr: "ld16 m1 sb = ?len" "ld16 m1 (sb + 2) = ?max"
  proof -
    have sb2: "unat (sb + 2) = unat sb + 2" using sb by (simp add: unat_add_no_wrap)
    have "m1 x = m x" if "unat x < unat sb + 4" for x using that ud by (simp add: m1)
    then show "ld16 m1 sb = ?len" "ld16 m1 (sb + 2) = ?max"
      unfolding rtl_strbuf_get_length_def rtl_strbuf_get_size_def
      using sb sb2 by (auto intro!: ld16_cong simp: region_unat)
  qed
  have m': "m' = st16 m1 sb (?len + c)"
    using hdr(1) unfolding m'_def rtl_strbuf_append_bytes_def Let_def c_def [symmetric]
      rtl_strbuf_get_buffer_def d_def [symmetric] copy m1_def [symmetric] put_length_def
    by (simp add: rtl_strbuf_get_length_def)
  have out: "m' x = m1 x" if "unat x < unat sb \<or> unat sb + 2 \<le> unat x" for x
    unfolding m' using that sb by (intro st16_at) simp_all
  show size: "rtl_strbuf_get_size m' sb = ?max"
  proof -
    have "ld16 m' (sb + 2) = ld16 m1 (sb + 2)"
      using sb by (intro ld16_cong out) (auto simp: region_unat unat_add_no_wrap)
    then show ?thesis using hdr(2) by (simp add: rtl_strbuf_get_size_def)
  qed
  have len': "unat (rtl_strbuf_get_length m' sb) = unat ?len + k"
  proof -
    have "unat (?len + c) = unat ?len + k"
      using lenk c unsigned_less [of ?max, where ?'a = nat] by (simp add: unat_word_ariths)
    then show ?thesis by (simp add: rtl_strbuf_get_length_def m')
  qed
  then show "strbuf_ok m' sb" using sb lenk size by (simp add: strbuf_ok_def word_le_nat_alt)
  show "strbuf_bytes m' sb = strbuf_bytes m sb @ take (strbuf_room m sb) (read_bytes m src (unat count))"
  proof -
    have "read_bytes m' (sb + 4) (unat ?len + k) = read_bytes m1 (sb + 4) (unat ?len + k)"
      using sb lenk sb4 by (intro read_bytes_cong out) auto
    also have "\<dots> = read_bytes m1 (sb + 4) (unat ?len) @ read_bytes m1 d k"
      by (simp add: read_bytes_append d_def)
    also have "read_bytes m1 (sb + 4) (unat ?len) = read_bytes m (sb + 4) (unat ?len)"
      using sb lenk sb4 ud by (intro read_bytes_cong) (auto simp: m1)
    also have "read_bytes m1 d k = read_bytes m src k"
      unfolding m1_def using read_write_bytes [of "read_bytes m src k" m d] sb lenk by simp
    also have "\<dots> = take (strbuf_room m sb) (read_bytes m src (unat count))"
      by (rule nth_equalityI) (auto simp: k_def read_bytes_nth)
    finally show ?thesis by (simp add: strbuf_bytes_def len')
  qed
  show "m' x = m x" if "x \<notin> strbuf_region m sb"
  proof -
    have "unat x < unat sb \<or> unat sb + 4 + unat ?max \<le> unat x" using that by (auto simp: strbuf_region_def)
    then show ?thesis using out [of x] ud lenk by (auto simp: m1)
  qed
qed

lemma strbuf_appended:
  assumes "strbuf_ok m sb" "unat src + unat count < 2 ^ 32"
    and "\<And>x. unat src \<le> unat x \<Longrightarrow> unat x < unat src + unat count \<Longrightarrow> x \<notin> strbuf_region m sb"
    and "m' = rtl_strbuf_append_bytes m sb src count"
  shows "strbuf_ok m' sb \<and> rtl_strbuf_get_size m' sb = rtl_strbuf_get_size m sb
    \<and> strbuf_bytes m' sb = strbuf_bytes m sb @ take (strbuf_room m sb) (read_bytes m src (unat count))
    \<and> (\<forall>x. x \<notin> strbuf_region m sb \<longrightarrow> m' x = m x)"
  unfolding assms(4) using append_bytes_spec [OF assms(1,2)] assms(3) by blast

text \<open>A buffer is what its own memory says.\<close>

lemma strbuf_cong:
  assumes ok: "strbuf_ok m sb" and same: "\<And>x. x \<in> strbuf_region m sb \<Longrightarrow> m' x = m x"
  shows "strbuf_ok m' sb" "strbuf_bytes m' sb = strbuf_bytes m sb" "strbuf_room m' sb = strbuf_room m sb"
    "strbuf_region m' sb = strbuf_region m sb"
proof -
  have sb: "unat sb + 4 + unat (rtl_strbuf_get_size m sb) < 2 ^ 32" using ok by (simp add: strbuf_ok_def)
  have in_sb: "x \<in> strbuf_region m sb" if "unat sb \<le> unat x" "unat x < unat sb + 4 + unat (rtl_strbuf_get_size m sb)" for x
    using that by (simp add: strbuf_region_def)
  have sb2: "unat (sb + 2) = unat sb + 2" "unat (sb + 4) = unat sb + 4" using sb by (simp_all add: unat_add_no_wrap)
  have len: "rtl_strbuf_get_length m' sb = rtl_strbuf_get_length m sb"
    unfolding rtl_strbuf_get_length_def using sb by (intro ld16_cong same in_sb) (auto simp: region_unat)
  have size: "rtl_strbuf_get_size m' sb = rtl_strbuf_get_size m sb"
    unfolding rtl_strbuf_get_size_def using sb sb2
    by (intro ld16_cong same in_sb) (auto simp: region_unat rtl_strbuf_get_size_def)
  show "strbuf_ok m' sb" "strbuf_room m' sb = strbuf_room m sb" "strbuf_region m' sb = strbuf_region m sb"
    using ok by (simp_all add: strbuf_ok_def strbuf_room_def strbuf_region_def len size)
  show "strbuf_bytes m' sb = strbuf_bytes m sb"
    unfolding strbuf_bytes_def len using sb sb2 ok
    by (intro read_bytes_cong same in_sb) (auto simp: strbuf_ok_def word_le_nat_alt)
qed

end
