(* ===== verification/Mette_Print.thy ===== *)
theory Mette_Print
  imports Mette_Strbuf
begin

text \<open>
  The formatted output of \<open>src/rtl/rtl_print.c\<close>. The print context is a record; its 1024-byte
  buffer and the digit arrays of the conversions are local variables of C functions, so they are
  in memory, at the addresses \<open>buffer\<close> and \<open>digits\<close>. The argument reader is a parameter, as in
  the code; the two writers, a string buffer and a file, are the two cases of \<open>writer\<close>.
\<close>

section \<open>The print context\<close>

datatype writer_data = To_sb u32 | To_fd u32

record print_context_t =
  zero_padded :: bool
  left_adjusted :: bool
  width_given :: bool
  prec_given :: bool
  width :: u32
  prec :: u32
  buffer :: u32
  digits :: u32
  buffer_mark :: u32
  write_count :: u32
  writer :: writer_data

type_synonym 'k pstate = "'k machine \<times> print_context_t"
type_synonym ('k, 'r) reader = "'k machine \<Rightarrow> 'r \<Rightarrow> stop + u32 \<times> 'r"

definition BUFFER_SIZE :: u32 where
  "BUFFER_SIZE = 1024"

definition flush_sb :: "u32 \<Rightarrow> 'k pstate \<Rightarrow> 'k machine" where
  "flush_sb sb st = (case st of (s, pctx) \<Rightarrow>
     s\<lparr>mem := rtl_strbuf_append_bytes (mem s) sb (buffer pctx) (ucast (buffer_mark pctx))\<rparr>)"

definition flush_fd :: "'k kernel \<Rightarrow> u32 \<Rightarrow> 'k pstate \<Rightarrow> 'k machine" where
  "flush_fd K fd st = (case st of (s, pctx) \<Rightarrow> snd (sys_write K fd (buffer pctx) (buffer_mark pctx) s))"

definition flush_proc :: "'k kernel \<Rightarrow> 'k pstate \<Rightarrow> 'k machine" where
  "flush_proc K st = (case writer (snd st) of To_sb sb \<Rightarrow> flush_sb sb st | To_fd fd \<Rightarrow> flush_fd K fd st)"

section \<open>Characters and texts\<close>

definition xisdigit :: "u8 \<Rightarrow> bool" where
  "xisdigit ch \<longleftrightarrow> 48 \<le> ch \<and> ch \<le> 57"

text \<open>
  The new mark is stored after the flush, so the flush of a full buffer still sees the old one.
\<close>

definition put_char :: "'k kernel \<Rightarrow> u8 \<Rightarrow> 'k pstate \<Rightarrow> 'k pstate" where
  "put_char K ch st = (case st of (s, pctx) \<Rightarrow>
     let s = s\<lparr>mem := (mem s)(buffer pctx + buffer_mark pctx := ch)\<rparr>;
         mark = buffer_mark pctx + 1
     in if mark = BUFFER_SIZE
        then (flush_proc K (s, pctx), pctx\<lparr>write_count := write_count pctx + mark, buffer_mark := 0\<rparr>)
        else (s, pctx\<lparr>buffer_mark := mark\<rparr>))"

text \<open>The loops of \<open>conv_text\<close>: bytes from memory, and padding.\<close>

primrec put_text :: "'k kernel \<Rightarrow> nat \<Rightarrow> u32 \<Rightarrow> 'k pstate \<Rightarrow> 'k pstate" where
  "put_text K 0 text st = st"
| "put_text K (Suc n) text st = put_text K n (text + 1) (put_char K (mem (fst st) text) st)"

primrec put_pad :: "'k kernel \<Rightarrow> nat \<Rightarrow> u8 \<Rightarrow> 'k pstate \<Rightarrow> 'k pstate" where
  "put_pad K 0 pad st = st"
| "put_pad K (Suc n) pad st = put_pad K n pad (put_char K pad st)"

definition shown_length :: "print_context_t \<Rightarrow> u32 \<Rightarrow> u32" where
  "shown_length pctx text_length =
     (if prec_given pctx \<and> prec pctx < text_length then prec pctx else text_length)"

definition space_count :: "print_context_t \<Rightarrow> u32 \<Rightarrow> u32" where
  "space_count pctx text_length =
     (if width_given pctx \<and> width pctx > text_length then width pctx - text_length else 0)"

definition conv_text :: "'k kernel \<Rightarrow> u32 \<Rightarrow> u32 \<Rightarrow> u8 \<Rightarrow> 'k pstate \<Rightarrow> 'k pstate" where
  "conv_text K text text_length pad st =
     (let text_length = shown_length (snd st) text_length;
          spaces = space_count (snd st) text_length
      in if left_adjusted (snd st)
         then put_pad K (unat spaces) 32 (put_text K (unat text_length) text st)
         else put_text K (unat text_length) text (put_pad K (unat spaces) pad st))"

section \<open>Numbers\<close>

text \<open>
  \<open>conv_digits\<close>, as bytes, with its terminating \<open>NUL\<close>; \<open>H\<close> and \<open>G\<close> stand in this order in the source.
  A digit of 37 or more is read from outside the array, which has no defined result: the
  conversion then has none either (\<open>None\<close>, as for a base 0 or 1, where it does not return).
\<close>

definition conv_digits :: "u8 list" where
  "conv_digits = map (\<lambda>c. of_nat (of_char c)) ''0123456789ABCDEFHGIJKLMNOPQRSTUVWXYZ'' @ [0]"

definition put_digit :: "u32 \<Rightarrow> memory \<times> u32 \<Rightarrow> (memory \<times> u32) option" where
  "put_digit rem x = (case x of (m, buf) \<Rightarrow>
     if unat rem < length conv_digits then Some (m(buf := conv_digits ! unat rem), buf + 1) else None)"

partial_function (option) conv_base_r :: "memory \<Rightarrow> u32 \<Rightarrow> u32 \<Rightarrow> u32 \<Rightarrow> (memory \<times> u32) option" where
  "conv_base_r m buf base value =
     (let next = value div base; rem = value mod base
      in if next \<noteq> 0 then Option.bind (conv_base_r m buf base next) (put_digit rem) else put_digit rem (m, buf))"

definition conv_base :: "memory \<Rightarrow> u32 \<Rightarrow> u32 \<Rightarrow> u32 \<Rightarrow> (memory \<times> u32) option" where
  "conv_base m buf base value = map_option (\<lambda>(m, e). (m, e - buf)) (conv_base_r m buf base value)"

definition pad_char :: "print_context_t \<Rightarrow> u8" where
  "pad_char pctx = (if zero_padded pctx then 48 else 32)"

definition conv_d :: "'k kernel \<Rightarrow> u32 \<Rightarrow> 'k pstate \<Rightarrow> 'k pstate option" where
  "conv_d K value st = (case st of (s, pctx) \<Rightarrow>
     if sint value < 0
     then (case conv_base (mem s) (digits pctx + 1) 10 (- value) of
             None \<Rightarrow> None
           | Some (m, n) \<Rightarrow>
               Some (conv_text K (digits pctx) (n + 1) 32 (s\<lparr>mem := m(digits pctx := 45)\<rparr>, pctx)))
     else (case conv_base (mem s) (digits pctx) 10 value of
             None \<Rightarrow> None
           | Some (m, n) \<Rightarrow> Some (conv_text K (digits pctx) n (pad_char pctx) (s\<lparr>mem := m\<rparr>, pctx))))"

definition conv_uox :: "'k kernel \<Rightarrow> u32 \<Rightarrow> u32 \<Rightarrow> 'k pstate \<Rightarrow> 'k pstate option" where
  "conv_uox K base value st = (case st of (s, pctx) \<Rightarrow>
     case conv_base (mem s) (digits pctx) base value of
       None \<Rightarrow> None
     | Some (m, n) \<Rightarrow> Some (conv_text K (digits pctx) n (pad_char pctx) (s\<lparr>mem := m\<rparr>, pctx)))"

definition conv_strbuf :: "'k kernel \<Rightarrow> u32 \<Rightarrow> 'k pstate \<Rightarrow> 'k pstate" where
  "conv_strbuf K sb st =
     conv_text K (rtl_strbuf_get_buffer sb) (ucast (rtl_strbuf_get_length (mem (fst st)) sb)) 32 st"

definition conv_asciiz :: "'k kernel \<Rightarrow> u32 \<Rightarrow> 'k pstate \<Rightarrow> 'k pstate option" where
  "conv_asciiz K text st = map_option (\<lambda>n. conv_text K text n 32 st) (xstrlen (mem (fst st)) text)"

text \<open>\<open>__ascii2uint\<close>: the value read and the number of characters.\<close>

partial_function (option) ascii2uint_loop :: "memory \<Rightarrow> u32 \<Rightarrow> u32 \<Rightarrow> (u32 \<times> u32) option" where
  "ascii2uint_loop m cursor value =
     (if xisdigit (m cursor)
      then ascii2uint_loop m (cursor + 1) (value * 10 + ucast (m cursor) - 48)
      else Some (value, cursor))"

definition ascii2uint :: "memory \<Rightarrow> u32 \<Rightarrow> (u32 \<times> u32) option" where
  "ascii2uint m text = map_option (\<lambda>(value, cursor). (value, cursor - text)) (ascii2uint_loop m text 0)"

section \<open>Format strings\<close>

text \<open>
  One round of the loop of \<open>__print_internal\<close>: literal text up to and past the next \<open>%\<close>
  (which clears the flags), then the flags, the width and the precision, then the conversion.
\<close>

partial_function (option) print_literal :: "'k kernel \<Rightarrow> u32 \<Rightarrow> 'k pstate \<Rightarrow> (u32 \<times> 'k pstate) option" where
  "print_literal K cursor st =
     (let ch = mem (fst st) cursor
      in if ch = 0 then Some (cursor, st)
         else if ch \<noteq> 37 then print_literal K (cursor + 1) (put_char K ch st)
         else Some (cursor + 1, (fst st, (snd st)\<lparr>zero_padded := False, left_adjusted := False,
                                           width_given := False, prec_given := False\<rparr>)))"

definition print_flags :: "u32 \<Rightarrow> 'k pstate \<Rightarrow> u32 \<times> 'k pstate" where
  "print_flags cursor st = (case st of (s, pctx) \<Rightarrow>
     let (cursor, pctx) = (if mem s cursor = 48 then (cursor + 1, pctx\<lparr>zero_padded := True\<rparr>) else (cursor, pctx));
         (cursor, pctx) = (if mem s cursor = 45 then (cursor + 1, pctx\<lparr>left_adjusted := True\<rparr>) else (cursor, pctx))
     in (cursor, (s, pctx)))"

definition print_width :: "u32 \<Rightarrow> 'k pstate \<Rightarrow> (u32 \<times> 'k pstate) option" where
  "print_width cursor st = (case st of (s, pctx) \<Rightarrow>
     if xisdigit (mem s cursor)
     then map_option (\<lambda>(w, n). (cursor + n, (s, pctx\<lparr>width_given := True, width := w\<rparr>))) (ascii2uint (mem s) cursor)
     else Some (cursor, st))"

definition print_prec :: "u32 \<Rightarrow> 'k pstate \<Rightarrow> (u32 \<times> 'k pstate) option" where
  "print_prec cursor st = (case st of (s, pctx) \<Rightarrow>
     if mem s cursor = 46
     then map_option (\<lambda>(w, n). (cursor + 1 + n, (s, pctx\<lparr>prec_given := True, prec := w\<rparr>)))
            (ascii2uint (mem s) (cursor + 1))
     else Some (cursor, st))"

definition print_conversion :: "'k kernel \<Rightarrow> u8 \<Rightarrow> u32 \<Rightarrow> 'k pstate \<Rightarrow> 'k pstate option" where
  "print_conversion K ch arg st =
     (if ch = 100 then conv_d K arg st
      else if ch = 117 then conv_uox K 10 arg st
      else if ch = 111 then conv_uox K 18 arg st
      else if ch = 120 \<or> ch = 88 then conv_uox K 16 arg st
      else if ch = 99 then Some (put_char K (ucast arg) st)
      else if ch = 98 then Some (conv_strbuf K arg st)
      else if ch = 115 then conv_asciiz K arg st
      else Some st)"

datatype 'a round = Stopped stop | Finished 'a | Again u32 'a

definition print_round ::
  "'k kernel \<Rightarrow> ('k, 'r) reader \<Rightarrow> u32 \<Rightarrow> 'k pstate \<times> 'r \<Rightarrow> ('k pstate \<times> 'r) round option" where
  "print_round K nextarg cursor x = (case x of (st, rd) \<Rightarrow>
     case print_literal K cursor st of None \<Rightarrow> None | Some (cursor, st) \<Rightarrow>
     let ch = mem (fst st) cursor in
     if ch = 0 then Some (Finished (st, rd))
     else if ch = 37 then Some (Again (cursor + 1) (put_char K ch st, rd))
     else case print_flags cursor st of (cursor, st) \<Rightarrow>
       case print_width cursor st of None \<Rightarrow> None | Some (cursor, st) \<Rightarrow>
       case print_prec cursor st of None \<Rightarrow> None | Some (cursor, st) \<Rightarrow>
       case nextarg (fst st) rd of Inl e \<Rightarrow> Some (Stopped e) | Inr (arg, rd) \<Rightarrow>
       map_option (\<lambda>st. Again (cursor + 1) (st, rd)) (print_conversion K (mem (fst st) cursor) arg st))"

partial_function (option) print_loop ::
  "'k kernel \<Rightarrow> ('k, 'r) reader \<Rightarrow> u32 \<Rightarrow> 'k pstate \<times> 'r \<Rightarrow> (stop + 'k pstate \<times> 'r) option" where
  "print_loop K nextarg cursor x =
     (case print_round K nextarg cursor x of
        None \<Rightarrow> None
      | Some r \<Rightarrow> (case r of Stopped e \<Rightarrow> Some (Inl e) | Finished x \<Rightarrow> Some (Inr x)
                  | Again cursor x \<Rightarrow> print_loop K nextarg cursor x))"

definition final_flush :: "'k kernel \<Rightarrow> 'k pstate \<Rightarrow> 'k pstate" where
  "final_flush K st = (case st of (s, pctx) \<Rightarrow>
     if buffer_mark pctx \<noteq> 0
     then (flush_proc K st, pctx\<lparr>write_count := write_count pctx + buffer_mark pctx, buffer_mark := 0\<rparr>)
     else st)"

definition print_internal ::
  "'k kernel \<Rightarrow> ('k, 'r) reader \<Rightarrow> u32 \<Rightarrow> 'k pstate \<times> 'r \<Rightarrow> stop + 'k pstate \<times> 'r" where
  "print_internal K nextarg format x =
     bind_res (case print_loop K nextarg format x of None \<Rightarrow> Inl Diverges | Some r \<Rightarrow> r)
       (\<lambda>(st, rd). Inr (final_flush K st, rd))"

section \<open>Entry points\<close>

text \<open>\<open>frame\<close> is the print context as the caller's stack frame has it: its addresses, and whatever
  the fields hold that the entry point does not set.\<close>

definition rtl_xprint_sb ::
  "'k kernel \<Rightarrow> print_context_t \<Rightarrow> u32 \<Rightarrow> u32 \<Rightarrow> ('k, 'r) reader \<Rightarrow> 'k machine \<Rightarrow> 'r \<Rightarrow> stop + u32 \<times> 'k machine \<times> 'r" where
  "rtl_xprint_sb K frame sb format nextarg s rd =
     bind_res (print_internal K nextarg format
         ((s, frame\<lparr>writer := To_sb sb, buffer_mark := 0, write_count := 0\<rparr>), rd))
       (\<lambda>((s, pctx), rd). Inr (ucast (rtl_strbuf_get_length (mem s) sb), s, rd))"

definition rtl_xprint_fd ::
  "'k kernel \<Rightarrow> print_context_t \<Rightarrow> u32 \<Rightarrow> u32 \<Rightarrow> ('k, 'r) reader \<Rightarrow> 'k machine \<Rightarrow> 'r \<Rightarrow> stop + u32 \<times> 'k machine \<times> 'r" where
  "rtl_xprint_fd K frame fd format nextarg s rd =
     bind_res (print_internal K nextarg format
         ((s, frame\<lparr>writer := To_fd fd, buffer_mark := 0, write_count := 0\<rparr>), rd))
       (\<lambda>((s, pctx), rd). Inr (write_count pctx, s, rd))"

text \<open>A \<open>va_list\<close>: the words behind the last named argument, and how many have been read.\<close>

definition nextarg_va_list :: "('k, (nat \<Rightarrow> u32) \<times> nat) reader" where
  "nextarg_va_list s rd = (case rd of (args, i) \<Rightarrow> Inr (args i, (args, Suc i)))"

definition rtl_print_sb ::
  "'k kernel \<Rightarrow> print_context_t \<Rightarrow> u32 \<Rightarrow> u32 \<Rightarrow> (nat \<Rightarrow> u32) \<Rightarrow> 'k machine \<Rightarrow> stop + u32 \<times> 'k machine" where
  "rtl_print_sb K frame sb format args s =
     bind_res (rtl_xprint_sb K frame sb format nextarg_va_list s (args, 0)) (\<lambda>(r, s, rd). Inr (r, s))"

definition rtl_vprint_fd ::
  "'k kernel \<Rightarrow> print_context_t \<Rightarrow> u32 \<Rightarrow> u32 \<Rightarrow> (nat \<Rightarrow> u32) \<Rightarrow> 'k machine \<Rightarrow> stop + u32 \<times> 'k machine" where
  "rtl_vprint_fd K frame fd format args s =
     bind_res (rtl_xprint_fd K frame fd format nextarg_va_list s (args, 0)) (\<lambda>(r, s, rd). Inr (r, s))"

definition rtl_print_fd ::
  "'k kernel \<Rightarrow> print_context_t \<Rightarrow> u32 \<Rightarrow> u32 \<Rightarrow> (nat \<Rightarrow> u32) \<Rightarrow> 'k machine \<Rightarrow> stop + u32 \<times> 'k machine" where
  "rtl_print_fd K frame fd format args s = rtl_vprint_fd K frame fd format args s"

end
