(* ===== verification/Print_Text.thy ===== *)
theory Print_Text
  imports Mette_Print
begin

text \<open>
  Numbers as digit lists, the characters the digit table of \<open>rtl_print.c\<close> holds for them (the usual
  ones, but for \<open>G\<close> and \<open>H\<close>), and what \<open>conv_base\<close> and \<open>__ascii2uint\<close> make of them.
\<close>

section \<open>Digits\<close>

fun digits_of :: "nat \<Rightarrow> nat \<Rightarrow> nat list" where
  "digits_of b v = (if b < 2 \<or> v < b then [v] else digits_of b (v div b) @ [v mod b])"

declare digits_of.simps [simp del]

definition from_digits :: "nat \<Rightarrow> nat list \<Rightarrow> nat" where
  "from_digits b = foldl (\<lambda>a d. a * b + d) 0"

lemma from_digits_snoc [simp]: "from_digits b (ds @ [d]) = from_digits b ds * b + d"
  by (simp add: from_digits_def)

lemma from_digits_digits_of [simp]: "from_digits b (digits_of b v) = v"
proof (induction b v rule: digits_of.induct)
  case (1 b v)
  then show ?case by (subst digits_of.simps) (auto simp: from_digits_def)
qed

lemma digits_of_less: "2 \<le> b \<Longrightarrow> d \<in> set (digits_of b v) \<Longrightarrow> d < b"
proof (induction b v rule: digits_of.induct)
  case (1 b v)
  then show ?case by (subst (asm) (2) digits_of.simps) (auto split: if_splits)
qed

lemma digits_of_length: "2 \<le> b \<Longrightarrow> v < b ^ k \<Longrightarrow> 0 < k \<Longrightarrow> length (digits_of b v) \<le> k"
proof (induction b v arbitrary: k rule: digits_of.induct)
  case (1 b v)
  show ?case
  proof (cases "v < b")
    case True
    then show ?thesis using "1.prems" by (simp add: digits_of.simps)
  next
    case False
    then obtain j where k: "k = Suc j" "0 < j" using "1.prems" by (cases k) (auto, (cases "k = 1"; force))
    have "v div b < b ^ j" using "1.prems" k by (simp add: less_mult_imp_div_less mult.commute)
    then have "length (digits_of b (v div b)) \<le> j" using "1.IH" [of j] False "1.prems" k by simp
    then show ?thesis using False "1.prems" k by (simp add: digits_of.simps [of b v])
  qed
qed

lemma digits_of_nonempty [simp]: "digits_of b v \<noteq> []"
  by (simp add: digits_of.simps)

text \<open>
  The characters of digits: the ten decimal digits, then the capital letters in their order,
  except that the code's table has \<open>G\<close> and \<open>H\<close>, the digits 16 and 17, exchanged. For bases up to 16
  these are the usual characters.
\<close>

definition exchanged :: "nat \<Rightarrow> nat" where
  "exchanged d = (if d = 16 then 17 else if d = 17 then 16 else d)"

definition digit_char :: "nat \<Rightarrow> u8" where
  "digit_char d = of_nat (if d < 10 then 48 + d else 55 + d)"

definition digit_bytes :: "nat list \<Rightarrow> u8 list" where
  "digit_bytes ds = map (\<lambda>d. digit_char (exchanged d)) ds"

lemma length_conv_digits: "length conv_digits = 37"
  by (simp add: conv_digits_def)

lemma conv_digits_char: "d < 36 \<Longrightarrow> conv_digits ! d = digit_char (exchanged d)"
proof -
  have "\<forall>d < 36. conv_digits ! d = digit_char (exchanged d)" by code_simp
  then show "d < 36 \<Longrightarrow> conv_digits ! d = digit_char (exchanged d)" by blast
qed

lemma digit_char_inj: "d < 36 \<Longrightarrow> e < 36 \<Longrightarrow> digit_char (exchanged d) = digit_char (exchanged e) \<Longrightarrow> d = e"
proof -
  have "distinct conv_digits" by code_simp
  then show "d < 36 \<Longrightarrow> e < 36 \<Longrightarrow> digit_char (exchanged d) = digit_char (exchanged e) \<Longrightarrow> d = e"
    unfolding conv_digits_char [symmetric] by (simp add: nth_eq_iff_index_eq length_conv_digits)
qed

lemma put_digit_char:
  "unat rem < 36 \<Longrightarrow> put_digit rem (m, buf) = Some (m(buf := digit_char (exchanged (unat rem))), buf + 1)"
  by (simp add: put_digit_def length_conv_digits conv_digits_char)

definition numeral_text :: "nat \<Rightarrow> nat \<Rightarrow> u8 list" where
  "numeral_text b v = digit_bytes (digits_of b v)"

lemma length_numeral_text: "2 \<le> b \<Longrightarrow> v < b ^ k \<Longrightarrow> 0 < k \<Longrightarrow> length (numeral_text b v) \<le> k"
  by (simp add: numeral_text_def digit_bytes_def digits_of_length)

lemma numeral_text_u32:
  assumes "2 \<le> b"
  shows "length (numeral_text b (unat (v :: u32))) \<le> 32"
proof -
  have "unat v < 2 ^ 32" using unsigned_less [of v, where ?'a = nat] by simp
  also have "2 ^ 32 \<le> b ^ 32" using assms by (rule power_mono) simp
  finally show ?thesis using assms by (intro length_numeral_text) simp_all
qed

lemma write_bytes_append: "write_bytes m a (xs @ ys) = write_bytes (write_bytes m a xs) (a + of_nat (length xs)) ys"
  by (induction xs arbitrary: m a) (simp_all add: algebra_simps)

text \<open>\<open>conv_base_r\<close> returns for every base from 2 to 36 and has written the digits.\<close>

lemma conv_base_r_digits:
  assumes "2 \<le> base" "base \<le> 36"
  shows "conv_base_r m buf base val
    = Some (write_bytes m buf (numeral_text (unat base) (unat val)),
            buf + of_nat (length (numeral_text (unat base) (unat val))))"
proof (induction "unat val" arbitrary: val rule: less_induct)
  case less
  have b2: "2 \<le> unat base" "unat base \<le> 36" using assms by (simp_all add: word_le_nat_alt)
  have "unat val mod unat base < unat base" using b2(1) by (intro mod_less_divisor) simp
  then have r: "unat (val mod base) < 36" using b2(2) by (simp add: unat_mod)
  show ?case
  proof (cases "val div base = 0")
    case True
    then have "unat (val div base) = 0" by (simp only: unat_0)
    then have "unat val div unat base = 0" by (simp only: unat_div)
    then have lt: "unat val < unat base" using b2 by (simp add: div_eq_0_iff)
    then show ?thesis
      using True by (subst conv_base_r.simps)
        (simp add: Let_def put_digit_char [OF r] numeral_text_def digit_bytes_def digits_of.simps unat_mod)
  next
    case False
    then have "unat (val div base) \<noteq> 0" by (simp add: unat_eq_zero)
    then have "unat val div unat base \<noteq> 0" by (simp only: unat_div not_False_eq_True)
    then have ge: "\<not> unat val < unat base" by auto
    have "unat val div unat base < unat val" using ge b2 by (intro div_less_dividend) auto
    then have IH: "conv_base_r m buf base (val div base)
      = Some (write_bytes m buf (numeral_text (unat base) (unat val div unat base)),
              buf + of_nat (length (numeral_text (unat base) (unat val div unat base))))"
      using less.hyps [of "val div base"] by (simp add: unat_div)
    have "numeral_text (unat base) (unat val)
      = numeral_text (unat base) (unat val div unat base) @ [digit_char (exchanged (unat val mod unat base))]"
      using ge b2 by (simp add: numeral_text_def digit_bytes_def digits_of.simps [of "unat base" "unat val"])
    then show ?thesis
      using False by (subst conv_base_r.simps) (simp add: Let_def IH put_digit_char [OF r] write_bytes_append unat_mod algebra_simps)
  qed
qed

lemma conv_base_digits:
  assumes "2 \<le> base" "base \<le> 36"
  shows "conv_base m buf base val
    = Some (write_bytes m buf (numeral_text (unat base) (unat val)),
            of_nat (length (numeral_text (unat base) (unat val))))"
  by (simp add: conv_base_def conv_base_r_digits [OF assms])

section \<open>Different bases\<close>

lemma from_digits_mono: "b \<le> c \<Longrightarrow> from_digits b ds \<le> from_digits c ds"
proof (induction ds rule: rev_induct)
  case (snoc d ds)
  then have "from_digits b ds * b \<le> from_digits c ds * c" by (intro mult_le_mono) simp_all
  then show ?case by simp
qed (simp add: from_digits_def)

lemma digits_of_same:
  assumes "digits_of b v = digits_of c v" "2 \<le> b" "b < c" shows "v < b"
proof (rule ccontr)
  assume ge: "\<not> v < b"
  then have b: "digits_of b v = digits_of b (v div b) @ [v mod b]" using assms(2) by (subst digits_of.simps) simp
  have "\<not> v < c" using assms b by (auto simp: digits_of.simps [of c v])
  then have c: "digits_of c v = digits_of c (v div c) @ [v mod c]" using assms(2,3) by (subst digits_of.simps) simp
  have eq: "digits_of b (v div b) = digits_of c (v div c)" "v mod b = v mod c" using assms(1) b c by simp_all
  have "v div b \<le> v div c"
    using from_digits_mono [of b c "digits_of b (v div b)"] eq(1) assms(3) by (metis from_digits_digits_of less_imp_le)
  moreover have "v div c \<le> v div b" using assms(2,3) by (intro div_le_mono2) simp_all
  ultimately have q: "v div c = v div b" by simp
  have "v div b * b + v mod b = v" "v div b * c + v mod b = v" using q eq(2) by (metis div_mult_mod_eq)+
  then have "v div b * b = v div b * c" by linarith
  then show False using ge assms(2,3) by (simp add: div_eq_0_iff)
qed

lemma numeral_text_same:
  assumes "numeral_text b v = numeral_text c v" "2 \<le> b" "b < c" "c \<le> 36" shows "v < b"
proof (rule digits_of_same [OF _ assms(2,3)])
  show "digits_of b v = digits_of c v"
  proof (rule map_inj_on)
    show "map (\<lambda>d. digit_char (exchanged d)) (digits_of b v) = map (\<lambda>d. digit_char (exchanged d)) (digits_of c v)"
      using assms(1) by (simp add: numeral_text_def digit_bytes_def)
    have "d < 36" if "d \<in> set (digits_of b v) \<union> set (digits_of c v)" for d
      using that digits_of_less [of b d v] digits_of_less [of c d v] assms(2-4) by auto
    then show "inj_on (\<lambda>d. digit_char (exchanged d)) (set (digits_of b v) \<union> set (digits_of c v))"
      by (intro inj_onI digit_char_inj) simp_all
  qed
qed

section \<open>Reading numbers back\<close>

lemma digit_char_decimal: "d < 10 \<Longrightarrow> digit_char (exchanged d) = of_nat (48 + d)"
  by (simp add: digit_char_def exchanged_def)

lemma digit_byte:
  assumes "d < 10"
  shows "xisdigit (of_nat (48 + d))" "ucast (of_nat (48 + d) :: u8) = (48 + of_nat d :: u32)"
proof -
  have u: "unat (of_nat (48 + d) :: u8) = 48 + d" using assms by (simp only: unat_of_nat) simp
  then show "xisdigit (of_nat (48 + d))"
    unfolding xisdigit_def word_le_nat_alt using assms by (simp only: unat_numeral) simp
  have "ucast (of_nat (48 + d) :: u8) = (of_nat (unat (of_nat (48 + d) :: u8)) :: u32)"
    by (rule of_nat_unat [symmetric])
  then show "ucast (of_nat (48 + d) :: u8) = (48 + of_nat d :: u32)" unfolding u by simp
qed

lemma ascii2uint_loop_digits:
  assumes "\<forall>d \<in> set ds. d < 10" "bytes_at m a (digit_bytes ds)" "\<not> xisdigit (m (a + of_nat (length ds)))"
  shows "ascii2uint_loop m a (of_nat v) = Some (of_nat (foldl (\<lambda>a d. a * 10 + d) v ds), a + of_nat (length ds))"
  using assms
proof (induction ds arbitrary: a v)
  case Nil
  then show ?case by (simp add: ascii2uint_loop.simps)
next
  case (Cons d ds)
  have d: "d < 10" and ma: "m a = of_nat (48 + d)"
    using Cons.prems digit_char_decimal [of d] by (auto simp: digit_bytes_def)
  have "ascii2uint_loop m (a + 1) (of_nat (v * 10 + d))
    = Some (of_nat (foldl (\<lambda>a d. a * 10 + d) (v * 10 + d) ds), a + 1 + of_nat (length ds))"
    using Cons.prems by (intro Cons.IH) (auto simp: digit_bytes_def algebra_simps)
  moreover have "of_nat v * 10 + ucast (m a) - 48 = (of_nat (v * 10 + d) :: u32)"
    unfolding ma digit_byte(2) [OF d] by (simp add: algebra_simps)
  moreover have "xisdigit (m a)" unfolding ma by (rule digit_byte(1) [OF d])
  ultimately show ?case by (subst ascii2uint_loop.simps) (simp only: if_True, simp add: add.assoc)
qed

text \<open>Any digit list that denotes a value below \<open>2^32\<close> is read as that value.\<close>

lemma ascii2uint_digits:
  assumes "\<forall>d \<in> set ds. d < 10" "bytes_at m a (digit_bytes ds)" "\<not> xisdigit (m (a + of_nat (length ds)))"
  shows "ascii2uint m a = Some (of_nat (from_digits 10 ds), of_nat (length ds))"
  using ascii2uint_loop_digits [OF assms, of 0] by (simp add: ascii2uint_def from_digits_def)

end
