(* ===== verification/Print_Emit.thy ===== *)
theory Print_Emit
  imports Print_Text
begin

text \<open>
  What the conversions add to the pending output while the buffer has room. \<open>emit\<close> is the
  effect of writing bytes into the buffer; \<open>emits\<close> the relation a whole conversion satisfies,
  which also writes its digit array.
\<close>

section \<open>Bytes into the buffer\<close>

definition emit :: "u8 list \<Rightarrow> 'k pstate \<Rightarrow> 'k pstate" where
  "emit xs st = (case st of (s, pctx) \<Rightarrow>
     (s\<lparr>mem := write_bytes (mem s) (buffer pctx + buffer_mark pctx) xs\<rparr>,
      pctx\<lparr>buffer_mark := buffer_mark pctx + of_nat (length xs)\<rparr>))"

text \<open>Room for \<open>n\<close> more bytes without a flush.\<close>

definition room_for :: "nat \<Rightarrow> 'k pstate \<Rightarrow> bool" where
  "room_for n st \<longleftrightarrow> unat (buffer_mark (snd st)) + n < 1024 \<and> unat (buffer (snd st)) + 1024 < 2 ^ 32"

definition buffer_area :: "'k pstate \<Rightarrow> u32 set" where
  "buffer_area st = region (buffer (snd st)) 1024"

lemma emit_Nil [simp]: "emit [] st = st"
  by (cases st) (simp add: emit_def)

lemma emit_emit: "emit ys (emit xs st) = emit (xs @ ys) st"
  by (cases st) (simp add: emit_def write_bytes_append algebra_simps)

lemma snd_emit [simp]: "snd (emit xs st) = (snd st)\<lparr>buffer_mark := buffer_mark (snd st) + of_nat (length xs)\<rparr>"
  by (cases st) (simp add: emit_def)

lemma room_mark: "room_for n st \<Longrightarrow> length xs \<le> n \<Longrightarrow>
    unat (buffer_mark (snd st) + of_nat (length xs)) = unat (buffer_mark (snd st)) + length xs"
  by (subst unat_add_no_wrap) (simp_all add: room_for_def unat_of_nat)

lemma room_emit: "room_for (length xs + n) st \<Longrightarrow> room_for n (emit xs st)"
  using room_mark [of "length xs + n" st xs] by (simp add: room_for_def)

lemma room_le: "room_for n st \<Longrightarrow> k \<le> n \<Longrightarrow> room_for k st"
  by (simp add: room_for_def)

lemma area_emit [simp]: "buffer_area (emit xs st) = buffer_area st"
  by (simp add: buffer_area_def)

lemma put_char_emit: "room_for 1 st \<Longrightarrow> put_char K ch st = emit [ch] st"
proof -
  assume r: "room_for 1 st"
  have "buffer_mark (snd st) + 1 \<noteq> BUFFER_SIZE"
  proof
    assume "buffer_mark (snd st) + 1 = BUFFER_SIZE"
    then have "unat (buffer_mark (snd st) + 1) = 1024" by (simp add: BUFFER_SIZE_def)
    then show False using room_mark [OF r, of "[ch]"] r by (simp add: room_for_def)
  qed
  then show ?thesis by (cases st) (simp add: put_char_def emit_def Let_def)
qed

lemma put_pad_emit: "room_for n st \<Longrightarrow> put_pad K n pad st = emit (replicate n pad) st"
proof (induction n arbitrary: st)
  case (Suc n)
  have "put_char K pad st = emit [pad] st" using Suc.prems by (intro put_char_emit) (rule room_le, auto)
  moreover have "room_for n (emit [pad] st)" using Suc.prems by (intro room_emit) simp
  ultimately show ?case using Suc.IH by (simp add: emit_emit)
qed simp

lemma emit_frame:
  assumes "room_for (length xs) st" "x \<notin> buffer_area st"
  shows "mem (fst (emit xs st)) x = mem (fst st) x"
proof -
  let ?b = "buffer (snd st)" and ?k = "buffer_mark (snd st)"
  have "x \<noteq> ?b + ?k + of_nat i" if "i < length xs" for i
  proof
    assume "x = ?b + ?k + of_nat i"
    moreover have "unat (?k + of_nat i) = unat ?k + i" "unat ?k + i < 1024"
      using assms(1) that by (simp_all add: room_for_def unat_add_no_wrap unat_of_nat)
    ultimately have "x - ?b = ?k + of_nat i" "unat (?k + of_nat i) < unat (1024 :: u32)" by simp_all
    then have "x - ?b < 1024" by (simp only: word_less_nat_alt)
    then show False using assms(2) by (simp add: buffer_area_def mem_region)
  qed
  then show ?thesis by (cases st) (simp add: emit_def write_bytes_frame)
qed

text \<open>Text outside the buffer is copied as it stands.\<close>

lemma put_text_emit:
  assumes "room_for n st" "\<forall>i < n. src + of_nat i \<notin> buffer_area st"
  shows "put_text K n src st = emit (read_bytes (mem (fst st)) src n) st"
  using assms
proof (induction n arbitrary: st src)
  case (Suc n)
  let ?ch = "mem (fst st) src"
  have ch: "put_char K ?ch st = emit [?ch] st" using Suc.prems by (intro put_char_emit) (rule room_le, auto)
  have out: "src + 1 + of_nat i \<notin> buffer_area st" if "i < n" for i
    using Suc.prems(2) [rule_format, of "Suc i"] that by (simp add: ac_simps)
  let ?st = "emit [?ch] st"
  have "put_text K n (src + 1) ?st = emit (read_bytes (mem (fst ?st)) (src + 1) n) ?st"
    using Suc.prems(1) out by (intro Suc.IH room_emit) simp_all
  also have "read_bytes (mem (fst ?st)) (src + 1) n = read_bytes (mem (fst st)) (src + 1) n"
  proof (rule nth_equalityI)
    fix i assume "i < length (read_bytes (mem (fst ?st)) (src + 1) n)"
    then have i: "i < n" by simp
    have "mem (fst ?st) (src + 1 + of_nat i) = mem (fst st) (src + 1 + of_nat i)"
      using Suc.prems(1) out [OF i] by (intro emit_frame) (rule room_le, auto)
    then show "read_bytes (mem (fst ?st)) (src + 1) n ! i = read_bytes (mem (fst st)) (src + 1) n ! i"
      using i by (simp only: read_bytes_nth)
  qed simp
  finally show ?case by (simp only: put_text.simps ch emit_emit read_bytes.simps append_Cons append_Nil)
qed simp

section \<open>Layout\<close>

text \<open>Precision cuts the text, width pads it, and left alignment pads with spaces on the right.\<close>

definition cut :: "print_context_t \<Rightarrow> u8 list \<Rightarrow> u8 list" where
  "cut pctx xs = (if prec_given pctx then take (unat (prec pctx)) xs else xs)"

definition layout :: "print_context_t \<Rightarrow> u8 \<Rightarrow> u8 list \<Rightarrow> u8 list" where
  "layout pctx pad xs =
     (let ys = cut pctx xs;
          n = (if width_given pctx then unat (width pctx) - length ys else 0)
      in if left_adjusted pctx then ys @ replicate n 32 else replicate n pad @ ys)"

lemma take_read_bytes: "take k (read_bytes m a n) = read_bytes m a (min k n)"
  by (rule nth_equalityI) (auto simp: read_bytes_nth)

lemma conv_text_emit:
  assumes fits: "room_for (length (layout (snd st) pad (read_bytes (mem (fst st)) text (unat len)))) st"
    and out: "\<forall>i < unat len. text + of_nat i \<notin> buffer_area st"
  shows "conv_text K text len pad st = emit (layout (snd st) pad (read_bytes (mem (fst st)) text (unat len))) st"
proof -
  let ?p = "snd st"
  define sl where "sl = shown_length ?p len"
  define sc where "sc = space_count ?p sl"
  define xs where "xs = read_bytes (mem (fst st)) text (unat sl)"
  have sl: "unat sl = (if prec_given ?p then min (unat (prec ?p)) (unat len) else unat len)"
    by (simp add: sl_def shown_length_def word_less_nat_alt)
  then have xs: "cut ?p (read_bytes (mem (fst st)) text (unat len)) = xs"
    by (simp add: cut_def take_read_bytes xs_def)
  have sc: "unat sc = (if width_given ?p then unat (width ?p) - unat sl else 0)"
    by (auto simp: sc_def space_count_def word_less_nat_alt unat_sub word_le_nat_alt)
  have lx: "length xs = unat sl" by (simp add: xs_def)
  have lay: "layout ?p pd (read_bytes (mem (fst st)) text (unat len))
      = (if left_adjusted ?p then xs @ replicate (unat sc) 32 else replicate (unat sc) pd @ xs)" for pd
    by (simp add: layout_def xs Let_def sc lx)
  have room: "room_for (unat sl + unat sc) st" using fits unfolding lay by (simp add: lx add.commute split: if_splits)
  have out': "\<forall>i < unat sl. text + of_nat i \<notin> buffer_area st" using out sl by (auto split: if_splits)
  show ?thesis
  proof (cases "left_adjusted ?p")
    case True
    have "put_text K (unat sl) text st = emit xs st"
      unfolding xs_def using room out' by (intro put_text_emit room_le [OF room]) auto
    moreover have "room_for (unat sc) (emit xs st)" using room by (intro room_emit) (simp add: lx)
    ultimately show ?thesis unfolding lay using True
      by (simp add: conv_text_def Let_def sl_def [symmetric] sc_def [symmetric] put_pad_emit emit_emit)
  next
    case False
    let ?st = "emit (replicate (unat sc) pad) st"
    have "put_pad K (unat sc) pad st = ?st" by (intro put_pad_emit room_le [OF room]) simp
    moreover have "put_text K (unat sl) text ?st = emit (read_bytes (mem (fst ?st)) text (unat sl)) ?st"
      using room out' by (intro put_text_emit room_emit) (simp_all add: add.commute)
    moreover have "read_bytes (mem (fst ?st)) text (unat sl) = xs"
      unfolding xs_def using out' room_le [OF room]
      by (intro nth_equalityI) (auto simp: read_bytes_nth intro!: emit_frame)
    ultimately show ?thesis unfolding lay using False
      by (simp add: conv_text_def Let_def sl_def [symmetric] sc_def [symmetric] emit_emit)
  qed
qed

section \<open>Conversions\<close>

definition scratch_area :: "print_context_t \<Rightarrow> u32 set" where
  "scratch_area pctx = region (buffer pctx) 1024 \<union> region (digits pctx) 34"

definition ctx_ok :: "print_context_t \<Rightarrow> bool" where
  "ctx_ok pctx \<longleftrightarrow> unat (buffer pctx) + 1024 < 2 ^ 32 \<and> unat (digits pctx) + 34 < 2 ^ 32
     \<and> region (buffer pctx) 1024 \<inter> region (digits pctx) 34 = {}"

definition same_frame :: "print_context_t \<Rightarrow> print_context_t \<Rightarrow> bool" where
  "same_frame p q \<longleftrightarrow> buffer p = buffer q \<and> digits p = digits q \<and> writer p = writer q \<and> write_count p = write_count q"

definition pending :: "'k pstate \<Rightarrow> u8 list" where
  "pending st = read_bytes (mem (fst st)) (buffer (snd st)) (unat (buffer_mark (snd st)))"

text \<open>\<open>emits xs st st'\<close>: \<open>xs\<close> is added to the pending output, nothing was flushed, and memory
  outside the routine's own arrays is as before.\<close>

definition emits :: "u8 list \<Rightarrow> 'k pstate \<Rightarrow> 'k pstate \<Rightarrow> bool" where
  "emits xs st st' \<longleftrightarrow> fst st' = (fst st)\<lparr>mem := mem (fst st')\<rparr> \<and> same_frame (snd st') (snd st)
     \<and> unat (buffer_mark (snd st')) = unat (buffer_mark (snd st)) + length xs
     \<and> pending st' = pending st @ xs
     \<and> (\<forall>x. x \<notin> scratch_area (snd st) \<longrightarrow> mem (fst st') x = mem (fst st) x)"

lemma same_frame_simps:
  "same_frame p q \<Longrightarrow> scratch_area p = scratch_area q" "same_frame p q \<Longrightarrow> ctx_ok p \<longleftrightarrow> ctx_ok q"
  by (auto simp: same_frame_def scratch_area_def ctx_ok_def)

lemma emits_refl: "emits [] st st"
  by (simp add: emits_def same_frame_def)

lemma emits_trans: "emits xs st st' \<Longrightarrow> emits ys st' st'' \<Longrightarrow> emits (xs @ ys) st st''"
proof -
  assume e: "emits xs st st'" "emits ys st' st''"
  have "s1 = s0\<lparr>mem := m1\<rparr> \<Longrightarrow> s2 = s1\<lparr>mem := m2\<rparr> \<Longrightarrow> s2 = s0\<lparr>mem := m2\<rparr>" for s0 s1 s2 :: "'a machine" and m1 m2
    by simp
  then have "fst st'' = (fst st)\<lparr>mem := mem (fst st'')\<rparr>" using e unfolding emits_def by blast
  then show ?thesis using e by (simp add: emits_def same_frame_def scratch_area_def)
qed

lemma emits_room:
  assumes "emits xs st st'" "room_for (length xs + n) st"
  shows "room_for n st'"
  using assms by (simp add: emits_def room_for_def same_frame_def)

lemma emits_settings:
  assumes "same_frame p (snd st)" "buffer_mark p = buffer_mark (snd st)"
  shows "emits [] st (fst st, p)"
  using assms by (simp add: emits_def pending_def same_frame_def)

lemma emits_emit:
  assumes "room_for (length xs) st"
  shows "emits xs st (emit xs st)"
proof -
  let ?p = "snd st"
  let ?k = "unat (buffer_mark ?p)"
  have mark: "unat (buffer_mark ?p + of_nat (length xs)) = ?k + length xs"
    using assms by (rule room_mark) simp
  have "read_bytes (write_bytes (mem (fst st)) (buffer ?p + buffer_mark ?p) xs) (buffer ?p) (?k + length xs)
      = read_bytes (mem (fst st)) (buffer ?p) ?k @ xs"
  proof -
    let ?m = "write_bytes (mem (fst st)) (buffer ?p + buffer_mark ?p) xs"
    have b: "unat (buffer ?p + buffer_mark ?p) = unat (buffer ?p) + ?k"
      using assms by (simp add: room_for_def unat_add_no_wrap)
    have "read_bytes ?m (buffer ?p) ?k = read_bytes (mem (fst st)) (buffer ?p) ?k"
      using assms b by (intro read_bytes_cong) (auto simp: room_for_def write_bytes_at)
    moreover have "read_bytes ?m (buffer ?p + of_nat ?k) (length xs) = xs"
      using assms by (simp add: room_for_def read_write_bytes)
    ultimately show ?thesis by (simp only: read_bytes_append)
  qed
  moreover have "mem (fst (emit xs st)) x = mem (fst st) x" if "x \<notin> scratch_area ?p" for x
    using that assms by (intro emit_frame) (auto simp: scratch_area_def buffer_area_def)
  moreover have "mem (fst (emit xs st)) = write_bytes (mem (fst st)) (buffer ?p + buffer_mark ?p) xs"
      "fst (emit xs st) = (fst st)\<lparr>mem := mem (fst (emit xs st))\<rparr>"
    by (cases st, simp add: emit_def)+
  ultimately show ?thesis by (simp add: emits_def same_frame_def pending_def mark)
qed

text \<open>A write to the digit array.\<close>

lemma emits_digits:
  assumes "ctx_ok (snd st)" "room_for 0 st" "\<And>x. x \<notin> region (digits (snd st)) 34 \<Longrightarrow> m x = mem (fst st) x"
  shows "emits [] st ((fst st)\<lparr>mem := m\<rparr>, snd st)"
proof -
  let ?p = "snd st"
  have buf: "m x = mem (fst st) x" if "x \<in> region (buffer ?p) 1024" for x
    using that assms(1,3) by (auto simp: ctx_ok_def)
  have "x \<in> region (buffer ?p) 1024"
    if "unat (buffer ?p) \<le> unat x" "unat x < unat (buffer ?p) + unat (buffer_mark ?p)" for x
    using that assms(2) by (subst region_unat) (auto simp: room_for_def)
  then have "read_bytes m (buffer ?p) (unat (buffer_mark ?p)) = read_bytes (mem (fst st)) (buffer ?p) (unat (buffer_mark ?p))"
    using assms(2) by (intro read_bytes_cong buf) (auto simp: room_for_def)
  then show ?thesis using assms(3) by (simp add: emits_def same_frame_def pending_def scratch_area_def)
qed

end
