(* ===== verification/Print_Format.thy ===== *)
theory Print_Format
  imports Print_Emit
begin

text \<open>
  Every conversion but \<open>%o\<close> against its rendering: \<open>render_conv\<close> is the text a conversion asks for,
  under the flags, width and precision of the print context.
\<close>

section \<open>Numbers\<close>

lemma digits_region:
  assumes "ctx_ok p" "i < 34"
  shows "digits p + of_nat i \<in> region (digits p) 34" "digits p + of_nat i \<notin> region (buffer p) 1024"
proof -
  have "unat (digits p + of_nat i) = unat (digits p) + i"
    using assms by (simp add: ctx_ok_def unat_add_no_wrap unat_of_nat)
  then show d: "digits p + of_nat i \<in> region (digits p) 34"
    using assms by (subst region_unat) (auto simp: ctx_ok_def)
  show "digits p + of_nat i \<notin> region (buffer p) 1024"
    using d assms(1) unfolding ctx_ok_def by blast
qed

lemma conv_digits_emits:
  assumes ok: "ctx_ok (snd st)" and room: "room_for (length (layout (snd st) pad xs)) st"
    and m: "\<And>x. x \<notin> region (digits (snd st)) 34 \<Longrightarrow> m x = mem (fst st) x"
    and xs: "read_bytes m (digits (snd st)) (unat n) = xs" and n: "unat n \<le> 34"
  shows "emits (layout (snd st) pad xs) st (conv_text K (digits (snd st)) n pad ((fst st)\<lparr>mem := m\<rparr>, snd st))"
proof -
  let ?st = "((fst st)\<lparr>mem := m\<rparr>, snd st)"
  have e: "emits [] st ?st" using ok m room by (intro emits_digits room_le [OF room]) simp_all
  have r: "room_for (length (layout (snd ?st) pad xs)) ?st" using room by (simp add: room_for_def)
  have "conv_text K (digits (snd ?st)) n pad ?st = emit (layout (snd ?st) pad (read_bytes (mem (fst ?st)) (digits (snd ?st)) (unat n))) ?st"
    using r xs n digits_region(2) [OF ok] by (intro conv_text_emit) (simp_all add: buffer_area_def)
  then have "conv_text K (digits (snd st)) n pad ?st = emit (layout (snd st) pad xs) ?st" using xs by simp
  then show ?thesis using emits_trans [OF e emits_emit] r by simp
qed

lemma write_bytes_digits:
  assumes "ctx_ok p" "k + length xs \<le> 34" "x \<notin> region (digits p) 34"
  shows "write_bytes m (digits p + of_nat k) xs x = m x"
proof (rule write_bytes_frame)
  fix i assume "i < length xs"
  then show "x \<noteq> digits p + of_nat k + of_nat i"
    using digits_region(1) [OF assms(1), of "k + i"] assms(2,3) by (auto simp: add.assoc)
qed

lemma conv_uox_emits:
  assumes "ctx_ok (snd st)" "2 \<le> base" "base \<le> 36" "xs = layout (snd st) (pad_char (snd st)) (numeral_text (unat base) (unat val))"
    and "room_for (length xs) st"
  shows "\<exists>st'. conv_uox K base val st = Some st' \<and> emits xs st st'"
proof -
  let ?t = "numeral_text (unat base) (unat val)"
  have lt: "length ?t \<le> 32" using assms(2) by (intro numeral_text_u32) (simp add: word_le_nat_alt)
  then have u: "unat (of_nat (length ?t) :: u32) = length ?t" by (simp add: unat_of_nat)
  let ?m = "write_bytes (mem (fst st)) (digits (snd st)) ?t"
  have "emits xs st (conv_text K (digits (snd st)) (of_nat (length ?t)) (pad_char (snd st)) ((fst st)\<lparr>mem := ?m\<rparr>, snd st))"
    unfolding assms(4)
    using assms lt write_bytes_digits [OF assms(1), of 0 ?t]
    by (intro conv_digits_emits) (simp_all add: u read_write_bytes)
  moreover have "conv_uox K base val st
      = Some (conv_text K (digits (snd st)) (of_nat (length ?t)) (pad_char (snd st)) ((fst st)\<lparr>mem := ?m\<rparr>, snd st))"
    using assms(2,3) by (cases st) (simp add: conv_uox_def conv_base_digits)
  ultimately show ?thesis by (intro exI conjI)
qed

text \<open>A negative number is the sign and the digits of its negation.\<close>

definition signed_text :: "u32 \<Rightarrow> u8 list" where
  "signed_text val = (if sint val < 0 then 45 # numeral_text 10 (unat (- val)) else numeral_text 10 (unat val))"

definition signed_pad :: "print_context_t \<Rightarrow> u32 \<Rightarrow> u8" where
  "signed_pad p val = (if sint val < 0 then 32 else pad_char p)"

lemma conv_d_emits:
  assumes ok: "ctx_ok (snd st)" and xs: "xs = layout (snd st) (signed_pad (snd st) val) (signed_text val)"
    and room: "room_for (length xs) st"
  shows "\<exists>st'. conv_d K val st = Some st' \<and> emits xs st st'"
proof (cases "sint val < 0")
  case False
  then have "conv_d K val st = conv_uox K 10 val st" by (simp add: conv_d_def conv_uox_def split: prod.split)
  then show ?thesis using conv_uox_emits [OF ok, of 10 xs val K] assms False by (simp add: signed_pad_def signed_text_def)
next
  case True
  let ?t = "numeral_text 10 (unat (- val))" and ?d = "digits (snd st)"
  have lt: "length ?t \<le> 32" by (rule numeral_text_u32) simp
  then have u: "unat (of_nat (length ?t) + 1 :: u32) = length ?t + 1" by (simp add: unat_add_no_wrap unat_of_nat)
  let ?m = "(write_bytes (mem (fst st)) (?d + 1) ?t)(?d := 45)"
  have frame: "?m x = mem (fst st) x" if "x \<notin> region ?d 34" for x
    using write_bytes_digits [OF ok, of 1 ?t x] that lt digits_region(1) [OF ok, of 0] by auto
  have d1: "unat (?d + 1) = unat ?d + 1" using ok by (simp add: ctx_ok_def unat_add_no_wrap)
  have "read_bytes ?m (?d + 1) (length ?t) = read_bytes (write_bytes (mem (fst st)) (?d + 1) ?t) (?d + 1) (length ?t)"
    using ok lt d1 by (intro read_bytes_cong) (auto simp: ctx_ok_def)
  then have rd: "read_bytes ?m ?d (length ?t + 1) = 45 # ?t"
    using lt by (simp add: read_write_bytes)
  have x: "xs = layout (snd st) 32 (45 # ?t)" using xs True by (simp add: signed_pad_def signed_text_def)
  have "emits xs st (conv_text K ?d (of_nat (length ?t) + 1) 32 ((fst st)\<lparr>mem := ?m\<rparr>, snd st))"
    unfolding x using ok room frame rd lt by (intro conv_digits_emits) (simp_all only: x u, simp_all)
  moreover have "conv_d K val st
      = Some (conv_text K ?d (of_nat (length ?t) + 1) 32 ((fst st)\<lparr>mem := ?m\<rparr>, snd st))"
    using True by (cases st) (simp add: conv_d_def conv_base_digits)
  ultimately show ?thesis by (intro exI conjI)
qed

section \<open>One conversion\<close>

text \<open>
  What the conversions print. A string is printed with its terminating \<open>NUL\<close>, which \<open>xstrlen\<close> counts.
  \<open>%o\<close> is not among the conversions: it is meant to print octal numbers and does not.
\<close>

definition asciiz_bytes :: "memory \<Rightarrow> u32 \<Rightarrow> u8 list" where
  "asciiz_bytes m a = read_bytes m a (unat (the (xstrlen m a)) - 1)"

definition render_conv :: "print_context_t \<Rightarrow> memory \<Rightarrow> u8 \<Rightarrow> u32 \<Rightarrow> u8 list" where
  "render_conv p m ch arg =
     (if ch = 100 then layout p (signed_pad p arg) (signed_text arg)
      else if ch = 117 then layout p (pad_char p) (numeral_text 10 (unat arg))
      else if ch = 120 \<or> ch = 88 then layout p (pad_char p) (numeral_text 16 (unat arg))
      else if ch = 99 then [ucast arg]
      else if ch = 98 then layout p 32 (strbuf_bytes m arg)
      else layout p 32 (asciiz_bytes m arg @ [0]))"

definition conv_chars :: "u8 set" where
  "conv_chars = {100, 117, 120, 88, 99, 98, 115}"

text \<open>What a pointer argument must point to: memory outside the routine's arrays.\<close>

definition arg_ok :: "print_context_t \<Rightarrow> memory \<Rightarrow> u8 \<Rightarrow> u32 \<Rightarrow> bool" where
  "arg_ok p m ch arg \<longleftrightarrow>
     (ch = 98 \<longrightarrow> (\<forall>i < 4 + unat (rtl_strbuf_get_length m arg). arg + of_nat i \<notin> scratch_area p))
     \<and> (ch = 115 \<longrightarrow> (\<exists>xs. cstring_at m arg xs \<and> length xs < 2 ^ 31
          \<and> (\<forall>i \<le> length xs. arg + of_nat i \<notin> scratch_area p)))"

lemma arg_length_cong:
  assumes "\<And>i. i < 2 \<Longrightarrow> m (arg + of_nat i) = m' (arg + of_nat i)"
  shows "rtl_strbuf_get_length m arg = rtl_strbuf_get_length m' arg"
  using assms [of 0] assms [of 1] by (simp add: rtl_strbuf_get_length_def ld16_def)

lemma read_bytes_cong_at:
  "(\<And>i. i < n \<Longrightarrow> m (a + of_nat i) = m' (a + of_nat i)) \<Longrightarrow> read_bytes m a n = read_bytes m' a n"
  by (rule nth_equalityI) (simp_all add: read_bytes_nth)

lemma bytes_at_cong:
  "(\<And>i. i < length xs \<Longrightarrow> m (a + of_nat i) = m' (a + of_nat i)) \<Longrightarrow> bytes_at m a xs \<longleftrightarrow> bytes_at m' a xs"
  by (simp add: bytes_at_iff)

lemma xstrlen_cstring: "cstring_at m a xs \<Longrightarrow> xstrlen m a = Some (of_nat (length xs) + 1)"
  using strlen_scan_cstring [of xs m a] by (simp add: xstrlen_def cstring_at_def)

lemma asciiz_bytes_cstring:
  assumes "cstring_at m a xs" "length xs < 2 ^ 31" shows "asciiz_bytes m a = xs"
proof -
  have "unat (of_nat (length xs) + 1 :: u32) = length xs + 1"
    using assms(2) by (simp add: unat_add_no_wrap unat_of_nat)
  moreover have "bytes_at m a xs" using assms(1) by (simp add: cstring_at_def bytes_at_append)
  ultimately show ?thesis
    by (simp add: asciiz_bytes_def xstrlen_cstring [OF assms(1)] bytes_at_read)
qed

lemma arg_ok_strbuf:
  assumes "arg_ok p m 98 sb" "i < unat (rtl_strbuf_get_length m sb)"
  shows "sb + of_nat (4 + i) \<notin> scratch_area p"
proof -
  have "\<forall>k < 4 + unat (rtl_strbuf_get_length m sb). sb + of_nat k \<notin> scratch_area p"
    using assms(1) by (simp add: arg_ok_def)
  then show ?thesis using assms(2) by (simp del: of_nat_add)
qed

text \<open>Writes to the routine's arrays change neither the condition nor the rendering.\<close>

lemma arg_stable:
  assumes "arg_ok p m ch arg" "\<And>x. x \<notin> scratch_area p \<Longrightarrow> m' x = m x" "ch \<in> conv_chars"
  shows "arg_ok p m' ch arg" "render_conv q m' ch arg = render_conv q m ch arg"
proof -
  have len: "rtl_strbuf_get_length m' arg = rtl_strbuf_get_length m arg" if "ch = 98"
    using assms(1,2) that by (intro arg_length_cong) (auto simp: arg_ok_def)
  have buf: "strbuf_bytes m' arg = strbuf_bytes m arg" if "ch = 98"
    unfolding strbuf_bytes_def len [OF that]
  proof (rule read_bytes_cong_at)
    fix i assume "i < unat (rtl_strbuf_get_length m arg)"
    then have "arg + of_nat (4 + i) \<notin> scratch_area p" using assms(1) that by (intro arg_ok_strbuf) simp_all
    then show "m' (arg + 4 + of_nat i) = m (arg + 4 + of_nat i)" using assms(2) by (simp add: add.assoc)
  qed
  have str: "cstring_at m' arg xs \<longleftrightarrow> cstring_at m arg xs" if "\<forall>i \<le> length xs. arg + of_nat i \<notin> scratch_area p" for xs
    unfolding cstring_at_def using that assms(2) bytes_at_cong [of "xs @ [0]" m' arg m] by auto
  show "arg_ok p m' ch arg" using assms(1) len str unfolding arg_ok_def by fastforce
  have "asciiz_bytes m' arg = asciiz_bytes m arg" if s: "ch = 115"
  proof -
    obtain xs where xs: "cstring_at m arg xs" "length xs < 2 ^ 31" "\<forall>i \<le> length xs. arg + of_nat i \<notin> scratch_area p"
      using assms(1) s unfolding arg_ok_def by blast
    then show ?thesis using str asciiz_bytes_cstring [of m arg xs] asciiz_bytes_cstring [of m' arg xs] by blast
  qed
  then show "render_conv q m' ch arg = render_conv q m ch arg"
    using buf assms(3) by (auto simp: render_conv_def conv_chars_def)
qed

lemma conv_strbuf_emits:
  assumes "arg_ok (snd st) (mem (fst st)) 98 sb" "xs = layout (snd st) 32 (strbuf_bytes (mem (fst st)) sb)" "room_for (length xs) st"
  shows "emits xs st (conv_strbuf K sb st)"
proof -
  let ?len = "rtl_strbuf_get_length (mem (fst st)) sb"
  have out: "sb + 4 + of_nat i \<notin> buffer_area st" if "i < unat ?len" for i
  proof -
    have "sb + of_nat (4 + i) \<notin> scratch_area (snd st)" using assms(1) that by (rule arg_ok_strbuf)
    then show ?thesis by (simp add: scratch_area_def buffer_area_def add.assoc)
  qed
  have "conv_strbuf K sb st = emit xs st"
    unfolding conv_strbuf_def assms(2) strbuf_bytes_def unat_ucast16 [symmetric]
    using assms(2,3) out
    by (subst conv_text_emit) (simp_all add: rtl_strbuf_get_buffer_def unat_ucast16 strbuf_bytes_def)
  then show ?thesis using emits_emit [OF assms(3)] by simp
qed

lemma conv_asciiz_emits:
  assumes "arg_ok (snd st) (mem (fst st)) 115 a"
    and "xs = layout (snd st) 32 (asciiz_bytes (mem (fst st)) a @ [0])" "room_for (length xs) st"
  shows "\<exists>st'. conv_asciiz K a st = Some st' \<and> emits xs st st'"
proof -
  obtain ys where ys: "cstring_at (mem (fst st)) a ys" "length ys < 2 ^ 31" "\<forall>i \<le> length ys. a + of_nat i \<notin> scratch_area (snd st)"
    using assms(1) unfolding arg_ok_def by blast
  let ?n = "of_nat (length ys) + 1 :: u32"
  have n: "xstrlen (mem (fst st)) a = Some ?n" using ys(1) by (rule xstrlen_cstring)
  have u: "unat ?n = length (ys @ [0])" using ys(2) by (simp add: unat_add_no_wrap unat_of_nat)
  have rd: "read_bytes (mem (fst st)) a (unat ?n) = ys @ [0]"
    using ys(1) unfolding u cstring_at_def by (simp only: bytes_at_read)
  have xs: "xs = layout (snd st) 32 (read_bytes (mem (fst st)) a (unat ?n))"
    unfolding rd assms(2) asciiz_bytes_cstring [OF ys(1,2)] ..
  have "conv_text K a ?n 32 st = emit xs st"
    unfolding xs
    using assms(3) ys(3) u by (intro conv_text_emit) (auto simp: xs buffer_area_def scratch_area_def)
  then show ?thesis using emits_emit [OF assms(3)] by (simp add: conv_asciiz_def n)
qed

lemma print_conversion_emits:
  assumes "ctx_ok (snd st)" "ch \<in> conv_chars" "arg_ok (snd st) (mem (fst st)) ch arg"
    and xs: "xs = render_conv (snd st) (mem (fst st)) ch arg" and room: "room_for (length xs) st"
  shows "\<exists>st'. print_conversion K ch arg st = Some st' \<and> emits xs st st'"
proof -
  have "conv_chars = {100, 117, 120, 88, 99, 98, 115}" by (simp add: conv_chars_def)
  with assms(2) consider "ch = 100" | "ch = 117" | "ch = 120 \<or> ch = 88" | "ch = 99" | "ch = 98" | "ch = 115"
    by blast
  then show ?thesis
  proof cases
    case 1
    then show ?thesis using conv_d_emits [OF assms(1) _ room] xs by (simp add: print_conversion_def render_conv_def)
  next
    case 2
    then show ?thesis using conv_uox_emits [OF assms(1), of 10] xs room by (simp add: print_conversion_def render_conv_def)
  next
    case 3
    then show ?thesis using conv_uox_emits [OF assms(1), of 16] xs room by (auto simp: print_conversion_def render_conv_def)
  next
    case 4
    then show ?thesis using emits_emit [OF room] xs room by (simp add: print_conversion_def render_conv_def put_char_emit)
  next
    case 5
    then show ?thesis using conv_strbuf_emits [of st arg xs K] assms by (simp add: print_conversion_def render_conv_def)
  next
    case 6
    then show ?thesis using conv_asciiz_emits [of st arg xs K] assms by (simp add: print_conversion_def render_conv_def)
  qed
qed

end
