(* ===== verification/Print_Render.thy ===== *)
theory Print_Render
  imports Print_Format
begin

text \<open>
  Format strings. A format is a list of items; \<open>format_bytes\<close> is its text, as it stands in
  memory, and \<open>render\<close> the output it asks for. The lemmas follow one round of the loop of
  \<open>__print_internal\<close>, and then the loop.
\<close>

section \<open>Items and their text\<close>

datatype item = Text "u8 list" | Percent | Conv bool bool "nat list option" "nat list option" u8

definition flag_bytes :: "bool \<Rightarrow> bool \<Rightarrow> u8 list" where
  "flag_bytes z l = (if z then [48] else []) @ (if l then [45] else [])"

definition width_bytes :: "nat list option \<Rightarrow> u8 list" where
  "width_bytes w = (case w of None \<Rightarrow> [] | Some ds \<Rightarrow> digit_bytes ds)"

definition prec_bytes :: "nat list option \<Rightarrow> u8 list" where
  "prec_bytes w = (case w of None \<Rightarrow> [] | Some ds \<Rightarrow> 46 # digit_bytes ds)"

primrec item_bytes :: "item \<Rightarrow> u8 list" where
  "item_bytes (Text xs) = xs"
| "item_bytes Percent = [37, 37]"
| "item_bytes (Conv z l w p ch) = 37 # flag_bytes z l @ width_bytes w @ prec_bytes p @ [ch]"

definition format_bytes :: "item list \<Rightarrow> u8 list" where
  "format_bytes items = concat (map item_bytes items)"

text \<open>The first digit of a width is not zero, unless a flag comes before it.\<close>

primrec item_ok :: "item \<Rightarrow> bool" where
  "item_ok (Text xs) \<longleftrightarrow> 0 \<notin> set xs \<and> 37 \<notin> set xs"
| "item_ok Percent \<longleftrightarrow> True"
| "item_ok (Conv z l w p ch) \<longleftrightarrow> ch \<in> conv_chars
     \<and> (case w of None \<Rightarrow> True | Some ds \<Rightarrow> ds \<noteq> [] \<and> (\<forall>d \<in> set ds. d < 10) \<and> (z \<or> l \<or> hd ds \<noteq> 0))
     \<and> (case p of None \<Rightarrow> True | Some ds \<Rightarrow> \<forall>d \<in> set ds. d < 10)"

text \<open>The context fields a conversion specification sets.\<close>

definition settings :: "bool \<Rightarrow> bool \<Rightarrow> nat list option \<Rightarrow> nat list option \<Rightarrow> print_context_t \<Rightarrow> print_context_t" where
  "settings z l w p pctx = pctx\<lparr>zero_padded := z, left_adjusted := l,
     width_given := (w \<noteq> None), prec_given := (p \<noteq> None),
     width := (case w of None \<Rightarrow> width pctx | Some ds \<Rightarrow> of_nat (from_digits 10 ds)),
     prec := (case p of None \<Rightarrow> prec pctx | Some ds \<Rightarrow> of_nat (from_digits 10 ds))\<rparr>"

definition plain :: print_context_t where
  "plain = \<lparr>zero_padded = False, left_adjusted = False, width_given = False, prec_given = False,
     width = 0, prec = 0, buffer = 0, digits = 0, buffer_mark = 0, write_count = 0, writer = To_fd 0\<rparr>"

primrec render :: "memory \<Rightarrow> (nat \<Rightarrow> u32) \<Rightarrow> nat \<Rightarrow> item list \<Rightarrow> u8 list" where
  "render m args k [] = []"
| "render m args k (it # items) = (case it of
     Text xs \<Rightarrow> xs @ render m args k items
   | Percent \<Rightarrow> 37 # render m args k items
   | Conv z l w p ch \<Rightarrow> render_conv (settings z l w p plain) m ch (args k) @ render m args (Suc k) items)"

primrec args_ok :: "print_context_t \<Rightarrow> memory \<Rightarrow> (nat \<Rightarrow> u32) \<Rightarrow> nat \<Rightarrow> item list \<Rightarrow> bool" where
  "args_ok q m args k [] \<longleftrightarrow> True"
| "args_ok q m args k (it # items) \<longleftrightarrow> (case it of
     Conv z l w p ch \<Rightarrow> arg_ok q m ch (args k) \<and> args_ok q m args (Suc k) items
   | _ \<Rightarrow> args_ok q m args k items)"

lemma render_conv_settings: "render_conv (settings z l w p q) m ch arg = render_conv (settings z l w p plain) m ch arg"
  by (cases w; cases p; simp add: render_conv_def layout_def cut_def settings_def signed_pad_def pad_char_def Let_def)

lemma arg_ok_frame: "same_frame q q' \<Longrightarrow> arg_ok q m ch a \<longleftrightarrow> arg_ok q' m ch a"
  by (simp add: arg_ok_def same_frame_simps)

lemma args_ok_frame: "same_frame q q' \<Longrightarrow> args_ok q m args k items \<longleftrightarrow> args_ok q' m args k items"
  by (induction items arbitrary: k) (auto simp: arg_ok_frame split: item.split)

lemma args_stable:
  assumes "\<And>x. x \<notin> scratch_area q \<Longrightarrow> m' x = m x" "\<forall>it \<in> set items. item_ok it" "args_ok q m args k items"
  shows "args_ok q m' args k items" "render m' args k items = render m args k items"
  using assms(2,3)
  by (induction items arbitrary: k)
    (auto split: item.splits simp: arg_stable [OF _ assms(1)])

section \<open>One specification\<close>

lemma bytes_at_hd: "bytes_at m a xs \<Longrightarrow> xs \<noteq> [] \<Longrightarrow> m a = hd xs"
  by (cases xs) auto

lemma conv_char_props:
  "ch \<in> conv_chars \<Longrightarrow> \<not> xisdigit ch \<and> ch \<noteq> 0 \<and> ch \<noteq> 37 \<and> ch \<noteq> 45 \<and> ch \<noteq> 46 \<and> ch \<noteq> 48"
  by (auto simp: conv_chars_def xisdigit_def)

lemma xisdigit_props: "xisdigit ch \<Longrightarrow> ch \<noteq> 0 \<and> ch \<noteq> 37 \<and> ch \<noteq> 45 \<and> ch \<noteq> 46"
  by (auto simp: xisdigit_def)

lemma digit_bytes_first:
  assumes "\<forall>d \<in> set ds. d < 10" "ds \<noteq> []"
  shows "xisdigit (hd (digit_bytes ds))" "hd (digit_bytes ds) = 48 \<longleftrightarrow> hd ds = 0" "digit_bytes ds \<noteq> []"
proof -
  have d: "hd ds < 10" using assms by (cases ds) auto
  have h: "hd (digit_bytes ds) = of_nat (48 + hd ds)"
    using assms digit_char_decimal [OF d] by (cases ds) (auto simp: digit_bytes_def)
  show "xisdigit (hd (digit_bytes ds))" unfolding h by (rule digit_byte(1) [OF d])
  have "unat (of_nat (48 + hd ds) :: u8) = 48 + hd ds" using d by (simp only: unat_of_nat) simp
  then have "of_nat (48 + hd ds) = (48 :: u8) \<longleftrightarrow> 48 + hd ds = unat (48 :: u8)" by (simp only: word_unat_eq_iff)
  then show "hd (digit_bytes ds) = 48 \<longleftrightarrow> hd ds = 0" unfolding h by simp
  show "digit_bytes ds \<noteq> []" using assms by (simp add: digit_bytes_def)
qed

lemma print_flags_bytes:
  assumes "bytes_at (mem s) c (flag_bytes z l @ rest)" "rest \<noteq> []" "z \<or> l \<or> hd rest \<noteq> 48" "l \<or> hd rest \<noteq> 45"
    and "\<not> zero_padded p" "\<not> left_adjusted p"
  shows "print_flags c (s, p) = (c + of_nat (length (flag_bytes z l)), (s, p\<lparr>zero_padded := z, left_adjusted := l\<rparr>))"
  using assms
  by (cases p, cases rest, simp, cases z; cases l) (simp_all add: print_flags_def flag_bytes_def Let_def)

lemma print_width_bytes:
  assumes "bytes_at (mem s) c (width_bytes w @ rest)" "rest \<noteq> []" "\<not> xisdigit (hd rest)" "\<not> width_given p"
    and "case w of None \<Rightarrow> True | Some ds \<Rightarrow> ds \<noteq> [] \<and> (\<forall>d \<in> set ds. d < 10)"
  shows "print_width c (s, p) = Some (c + of_nat (length (width_bytes w)),
    (s, p\<lparr>width_given := (w \<noteq> None), width := (case w of None \<Rightarrow> width p | Some ds \<Rightarrow> of_nat (from_digits 10 ds))\<rparr>))"
proof (cases w)
  case None
  then show ?thesis
    using assms bytes_at_hd [of "mem s" c rest] by (cases p) (simp add: print_width_def width_bytes_def)
next
  case (Some ds)
  have b: "bytes_at (mem s) c (digit_bytes ds)" "bytes_at (mem s) (c + of_nat (length ds)) rest"
    using assms(1) by (auto simp: Some width_bytes_def bytes_at_append digit_bytes_def)
  have ds: "\<forall>d \<in> set ds. d < 10" "ds \<noteq> []" using assms(5) by (auto simp: Some)
  have "ascii2uint (mem s) c = Some (of_nat (from_digits 10 ds), of_nat (length ds))"
    using ds b assms(2,3) bytes_at_hd [OF b(2)] by (intro ascii2uint_digits) auto
  moreover have "xisdigit (mem s c)"
    using digit_bytes_first [OF ds] bytes_at_hd [OF b(1)] by simp
  ultimately show ?thesis by (simp add: print_width_def width_bytes_def Some digit_bytes_def)
qed

lemma print_prec_bytes:
  assumes "bytes_at (mem s) c (prec_bytes w @ rest)" "rest \<noteq> []" "\<not> xisdigit (hd rest)" "hd rest \<noteq> 46" "\<not> prec_given p"
    and "case w of None \<Rightarrow> True | Some ds \<Rightarrow> \<forall>d \<in> set ds. d < 10"
  shows "print_prec c (s, p) = Some (c + of_nat (length (prec_bytes w)),
    (s, p\<lparr>prec_given := (w \<noteq> None), prec := (case w of None \<Rightarrow> prec p | Some ds \<Rightarrow> of_nat (from_digits 10 ds))\<rparr>))"
proof (cases w)
  case None
  then show ?thesis
    using assms bytes_at_hd [of "mem s" c rest] by (cases p) (simp add: print_prec_def prec_bytes_def)
next
  case (Some ds)
  have b: "mem s c = 46" "bytes_at (mem s) (c + 1) (digit_bytes ds)" "bytes_at (mem s) (c + 1 + of_nat (length ds)) rest"
    using assms(1) by (auto simp: Some prec_bytes_def bytes_at_append digit_bytes_def)
  have "ascii2uint (mem s) (c + 1) = Some (of_nat (from_digits 10 ds), of_nat (length ds))"
    using assms(2,3,6) b bytes_at_hd [OF b(3)] by (intro ascii2uint_digits) (auto simp: Some)
  then show ?thesis using b(1) by (simp add: print_prec_def prec_bytes_def Some digit_bytes_def ac_simps)
qed

text \<open>The bytes after the percent sign, up to the conversion character.\<close>

definition spec_bytes :: "bool \<Rightarrow> bool \<Rightarrow> nat list option \<Rightarrow> nat list option \<Rightarrow> u8 list" where
  "spec_bytes z l w p = flag_bytes z l @ width_bytes w @ prec_bytes p"

lemma spec_hd:
  assumes "item_ok (Conv z l w p ch)"
  shows "\<not> xisdigit (hd (prec_bytes p @ [ch]))" "l \<or> hd (width_bytes w @ prec_bytes p @ [ch]) \<noteq> 45"
    "z \<or> l \<or> hd (width_bytes w @ prec_bytes p @ [ch]) \<noteq> 48"
    "hd (spec_bytes z l w p @ [ch]) \<noteq> 0" "hd (spec_bytes z l w p @ [ch]) \<noteq> 37"
proof -
  have ch: "\<not> xisdigit ch \<and> ch \<noteq> 0 \<and> ch \<noteq> 37 \<and> ch \<noteq> 45 \<and> ch \<noteq> 46 \<and> ch \<noteq> 48"
    using assms by (intro conv_char_props) simp
  show p: "\<not> xisdigit (hd (prec_bytes p @ [ch]))"
    using ch by (cases p) (auto simp: prec_bytes_def xisdigit_def)
  have p': "hd (prec_bytes p @ [ch]) \<noteq> 45 \<and> hd (prec_bytes p @ [ch]) \<noteq> 48 \<and> hd (prec_bytes p @ [ch]) \<noteq> 0
      \<and> hd (prec_bytes p @ [ch]) \<noteq> 37"
    using ch by (cases p) (auto simp: prec_bytes_def)
  have w: "hd (width_bytes w @ prec_bytes p @ [ch]) \<noteq> 45 \<and> hd (width_bytes w @ prec_bytes p @ [ch]) \<noteq> 0
      \<and> hd (width_bytes w @ prec_bytes p @ [ch]) \<noteq> 37 \<and> (z \<or> l \<or> hd (width_bytes w @ prec_bytes p @ [ch]) \<noteq> 48)"
  proof (cases w)
    case None
    then show ?thesis using p' by (simp add: width_bytes_def)
  next
    case (Some ds)
    then have ds: "\<forall>d \<in> set ds. d < 10" "ds \<noteq> []" "z \<or> l \<or> hd ds \<noteq> 0" using assms by auto
    show ?thesis
      using digit_bytes_first [OF ds(1,2)] ds(3) xisdigit_props [of "hd (digit_bytes ds)"]
      by (simp add: Some width_bytes_def)
  qed
  then show "l \<or> hd (width_bytes w @ prec_bytes p @ [ch]) \<noteq> 45"
    "z \<or> l \<or> hd (width_bytes w @ prec_bytes p @ [ch]) \<noteq> 48" by simp_all
  show "hd (spec_bytes z l w p @ [ch]) \<noteq> 0" "hd (spec_bytes z l w p @ [ch]) \<noteq> 37"
    using w by (cases z; cases l; simp add: spec_bytes_def flag_bytes_def)+
qed

definition cleared :: "print_context_t \<Rightarrow> print_context_t" where
  "cleared p = p\<lparr>zero_padded := False, left_adjusted := False, width_given := False, prec_given := False\<rparr>"

lemma settings_steps:
  "settings z l w pr p = (let p = (cleared p)\<lparr>zero_padded := z, left_adjusted := l\<rparr>;
     p = p\<lparr>width_given := (w \<noteq> None), width := (case w of None \<Rightarrow> width p | Some ds \<Rightarrow> of_nat (from_digits 10 ds))\<rparr>
     in p\<lparr>prec_given := (pr \<noteq> None), prec := (case pr of None \<Rightarrow> prec p | Some ds \<Rightarrow> of_nat (from_digits 10 ds))\<rparr>)"
  by (cases p; cases w; cases pr; simp add: settings_def cleared_def Let_def)

text \<open>One round over one specification: the arguments are read in order, one each.\<close>

lemma print_round_conv:
  assumes ok: "item_ok (Conv z l w pr ch)"
    and b: "bytes_at (mem s) c (37 # spec_bytes z l w pr @ [ch])"
  shows "print_round K nextarg_va_list c ((s, p), (args, k))
    = map_option (\<lambda>st. Again (c + of_nat (length (item_bytes (Conv z l w pr ch)))) (st, (args, Suc k)))
        (print_conversion K ch (args k) (s, settings z l w pr p))"
proof -
  let ?c = "c + 1"
  let ?cw = "?c + of_nat (length (flag_bytes z l))"
  let ?cp = "?cw + of_nat (length (width_bytes w))"
  let ?ce = "?cp + of_nat (length (prec_bytes pr))"
  let ?p1 = "(cleared p)\<lparr>zero_padded := z, left_adjusted := l\<rparr>"
  let ?p2 = "?p1\<lparr>width_given := (w \<noteq> None), width := (case w of None \<Rightarrow> width ?p1 | Some ds \<Rightarrow> of_nat (from_digits 10 ds))\<rparr>"
  have lit: "print_literal K c (s, p) = Some (?c, (s, cleared p))"
    using b by (subst print_literal.simps) (simp add: cleared_def)
  have b1: "bytes_at (mem s) ?c (flag_bytes z l @ (width_bytes w @ prec_bytes pr @ [ch]))"
    and first: "mem s ?c = hd (spec_bytes z l w pr @ [ch])"
    using b bytes_at_hd [of "mem s" ?c "spec_bytes z l w pr @ [ch]"] by (simp_all add: spec_bytes_def)
  have fl: "print_flags ?c (s, cleared p) = (?cw, (s, ?p1))"
    using b1 spec_hd(2,3) [OF ok] by (intro print_flags_bytes) (simp_all add: cleared_def)
  have b2: "bytes_at (mem s) ?cw (width_bytes w @ (prec_bytes pr @ [ch]))"
    using b1 by (simp add: bytes_at_append)
  have wd: "print_width ?cw (s, ?p1) = Some (?cp, (s, ?p2))"
    using b2 spec_hd(1) [OF ok] ok by (intro print_width_bytes) (auto simp: cleared_def split: option.split)
  have b3: "bytes_at (mem s) ?cp (prec_bytes pr @ [ch])" "mem s ?ce = ch"
    using b2 by (simp_all add: bytes_at_append)
  have pc: "print_prec ?cp (s, ?p2) = Some (?ce, (s, settings z l w pr p))"
    unfolding settings_steps Let_def
    using b3 ok conv_char_props [of ch] by (intro print_prec_bytes) (auto simp: cleared_def split: option.split)
  have e: "?ce + 1 = c + of_nat (length (item_bytes (Conv z l w pr ch)))" by (simp add: ac_simps)
  have "print_round K nextarg_va_list c ((s, p), (args, k))
    = map_option (\<lambda>st. Again (?ce + 1) (st, (args, Suc k))) (print_conversion K ch (args k) (s, settings z l w pr p))"
    using lit first fl wd pc b3(2) spec_hd(4,5) [OF ok]
    by (simp add: print_round_def Let_def nextarg_va_list_def)
  then show ?thesis unfolding e .
qed

lemma print_literal_text:
  assumes "0 \<notin> set xs" "37 \<notin> set xs" "bytes_at (mem (fst st)) c xs" "room_for (length xs) st"
    and "\<forall>i < length xs. c + of_nat i \<notin> buffer_area st"
  shows "print_literal K c st = print_literal K (c + of_nat (length xs)) (emit xs st)"
  using assms
proof (induction xs arbitrary: c st)
  case (Cons x xs)
  let ?st = "emit [x] st"
  have out: "c + 1 + of_nat i \<notin> buffer_area st" if "i < length xs" for i
    using Cons.prems(5) [rule_format, of "Suc i"] that by (simp add: ac_simps)
  have r: "room_for 1 st" using Cons.prems(4) by (rule room_le) simp
  have "bytes_at (mem (fst ?st)) (c + 1) xs \<longleftrightarrow> bytes_at (mem (fst st)) (c + 1) xs"
    using r out by (intro bytes_at_cong emit_frame) simp_all
  then have "print_literal K (c + 1) ?st = print_literal K (c + 1 + of_nat (length xs)) (emit xs ?st)"
    using Cons.prems out by (intro Cons.IH room_emit) simp_all
  moreover have "print_literal K c st = print_literal K (c + 1) ?st"
    using Cons.prems r by (subst print_literal.simps) (simp add: put_char_emit)
  ultimately show ?case by (simp add: emit_emit add.assoc)
qed simp

section \<open>The loop\<close>

definition prints :: "'k kernel \<Rightarrow> u32 \<Rightarrow> 'k pstate \<Rightarrow> (nat \<Rightarrow> u32) \<Rightarrow> nat \<Rightarrow> u8 list \<Rightarrow> bool" where
  "prints K c st args k xs \<longleftrightarrow>
     (\<exists>st' k'. print_loop K nextarg_va_list c (st, (args, k)) = Some (Inr (st', (args, k'))) \<and> emits xs st st')"

lemma prints_round:
  assumes "print_round K nextarg_va_list c (st, (args, k)) = Some (Again c' (st', (args, k')))"
    and "emits xs st st'" "prints K c' st' args k' ys"
  shows "prints K c st args k (xs @ ys)"
proof -
  obtain st'' k'' where "print_loop K nextarg_va_list c' (st', (args, k')) = Some (Inr (st'', (args, k'')))" "emits ys st' st''"
    using assms(3) unfolding prints_def by blast
  moreover from this have "print_loop K nextarg_va_list c (st, (args, k)) = Some (Inr (st'', (args, k'')))"
    using assms(1) by (subst print_loop.simps) simp
  ultimately show ?thesis using emits_trans [OF assms(2)] unfolding prints_def by blast
qed

lemma prints_literal:
  assumes "print_literal K c st = print_literal K c' st'" "emits xs st st'" "prints K c' st' args k ys"
  shows "prints K c st args k (xs @ ys)"
proof -
  have "print_round K nextarg_va_list c (st, (args, k)) = print_round K nextarg_va_list c' (st', (args, k))"
    by (simp add: print_round_def assms(1))
  then have "print_loop K nextarg_va_list c (st, (args, k)) = print_loop K nextarg_va_list c' (st', (args, k))"
    by (subst (1 2) print_loop.simps) simp
  then show ?thesis using assms(2,3) emits_trans unfolding prints_def by metis
qed

text \<open>What the loop needs of a state: the format is at the cursor, outside the routine's arrays.\<close>

definition format_at :: "u32 \<Rightarrow> 'k pstate \<Rightarrow> item list \<Rightarrow> bool" where
  "format_at c st items \<longleftrightarrow> bytes_at (mem (fst st)) c (format_bytes items @ [0])
     \<and> (\<forall>i \<le> length (format_bytes items). c + of_nat i \<notin> scratch_area (snd st))"

lemma format_at_step:
  assumes "format_at c st (it # items)" "emits xs st st'"
  shows "format_at (c + of_nat (length (item_bytes it))) st' items"
proof -
  have f: "same_frame (snd st') (snd st)" and m: "\<And>x. x \<notin> scratch_area (snd st) \<Longrightarrow> mem (fst st') x = mem (fst st) x"
    using assms(2) unfolding emits_def by auto
  let ?c = "c + of_nat (length (item_bytes it))"
  have out: "?c + of_nat i \<notin> scratch_area (snd st)" if "i \<le> length (format_bytes items)" for i
  proof -
    have "\<forall>i \<le> length (item_bytes it) + length (format_bytes items). c + of_nat i \<notin> scratch_area (snd st)"
      using assms(1) by (simp add: format_at_def format_bytes_def)
    from this [rule_format, of "length (item_bytes it) + i"] that show ?thesis by (simp add: add.assoc)
  qed
  have "bytes_at (mem (fst st)) ?c (format_bytes items @ [0])"
    using assms(1) by (simp add: format_at_def format_bytes_def bytes_at_append)
  then have "bytes_at (mem (fst st')) ?c (format_bytes items @ [0])"
    using m out bytes_at_cong [of "format_bytes items @ [0]" "mem (fst st')" ?c "mem (fst st)"] by auto
  then show ?thesis using out by (simp add: format_at_def same_frame_simps(1) [OF f])
qed

text \<open>The precondition of the loop on \<open>items\<close>, and how a step that emits \<open>xs\<close> hands it on.\<close>

definition printable :: "u32 \<Rightarrow> 'k pstate \<Rightarrow> (nat \<Rightarrow> u32) \<Rightarrow> nat \<Rightarrow> item list \<Rightarrow> bool" where
  "printable c st args k items \<longleftrightarrow> ctx_ok (snd st) \<and> (\<forall>it \<in> set items. item_ok it) \<and> format_at c st items
     \<and> args_ok (snd st) (mem (fst st)) args k items
     \<and> room_for (length (render (mem (fst st)) args k items)) st"

lemma printable_next:
  assumes p: "printable c st args k (it # items)" and e: "emits xs st st'"
    and r: "render (mem (fst st)) args k (it # items) = xs @ render (mem (fst st)) args k' items"
    and a: "args_ok (snd st) (mem (fst st)) args k' items"
  shows "printable (c + of_nat (length (item_bytes it))) st' args k' items"
    and "render (mem (fst st')) args k' items = render (mem (fst st)) args k' items"
proof -
  have f: "same_frame (snd st') (snd st)" and m: "\<And>x. x \<notin> scratch_area (snd st) \<Longrightarrow> mem (fst st') x = mem (fst st) x"
    using e unfolding emits_def by auto
  have ok: "\<forall>it \<in> set items. item_ok it" using p by (simp add: printable_def)
  note st = args_stable [OF m ok a]
  show "render (mem (fst st')) args k' items = render (mem (fst st)) args k' items" by (rule st(2))
  moreover have "args_ok (snd st') (mem (fst st')) args k' items" using st(1) by (simp add: args_ok_frame [OF f])
  moreover have "room_for (length (render (mem (fst st)) args k' items)) st'"
    using p e unfolding printable_def r by (auto intro: emits_room)
  moreover have "format_at (c + of_nat (length (item_bytes it))) st' items"
    using p e unfolding printable_def by (auto intro: format_at_step)
  ultimately show "printable (c + of_nat (length (item_bytes it))) st' args k' items"
    using p ok by (simp add: printable_def same_frame_simps(2) [OF f])
qed

lemma prints_format: "printable c st args k items \<Longrightarrow> prints K c st args k (render (mem (fst st)) args k items)"
proof (induction items arbitrary: c st k)
  case Nil
  then have "mem (fst st) c = 0" by (simp add: printable_def format_at_def format_bytes_def)
  then have "print_loop K nextarg_va_list c (st, (args, k)) = Some (Inr (st, (args, k)))"
    by (subst print_loop.simps) (simp add: print_round_def print_literal.simps [of K c st])
  then show ?case unfolding prints_def render.simps using emits_refl [of st] by blast
next
  case (Cons it items)
  let ?m = "mem (fst st)"
  have bytes: "bytes_at ?m c (item_bytes it)" and out: "c + of_nat i \<notin> scratch_area (snd st)" if "i < length (item_bytes it)" for i
    using Cons.prems that by (simp_all add: printable_def format_at_def format_bytes_def bytes_at_append)
  have room: "room_for (length (render ?m args k (it # items))) st" and cok: "ctx_ok (snd st)" and ok: "item_ok it"
    using Cons.prems by (auto simp: printable_def)
  show ?case
  proof (cases it)
    case (Text xs)
    have b: "bytes_at ?m c xs" using Cons.prems by (simp add: Text printable_def format_at_def format_bytes_def bytes_at_append)
    have r: "room_for (length xs) st" using room by (rule room_le) (simp add: Text)
    have o: "\<forall>i < length xs. c + of_nat i \<notin> buffer_area st"
      using Cons.prems by (simp add: Text printable_def format_at_def format_bytes_def scratch_area_def buffer_area_def)
    have lit: "print_literal K c st = print_literal K (c + of_nat (length xs)) (emit xs st)"
      using ok b r o by (intro print_literal_text) (simp_all add: Text)
    have a: "args_ok (snd st) ?m args k items" using Cons.prems by (simp add: Text printable_def)
    note n = printable_next [OF Cons.prems emits_emit [OF r], of k, OF _ a]
    have "prints K (c + of_nat (length xs)) (emit xs st) args k (render ?m args k items)"
      using Cons.IH [OF n(1)] n(2) by (simp add: Text)
    then show ?thesis using prints_literal [OF lit emits_emit [OF r]] by (simp add: Text)
  next
    case Percent
    have b: "?m c = 37" "?m (c + 1) = 37"
      using Cons.prems by (simp_all add: Percent printable_def format_at_def format_bytes_def)
    let ?s1 = "(fst st, cleared (snd st))"
    have e1: "emits [] st ?s1" by (rule emits_settings) (simp_all add: same_frame_def cleared_def)
    have r1: "room_for 1 ?s1" using room by (simp add: room_for_def cleared_def Percent)
    have e: "emits [37] st (emit [37] ?s1)" using emits_trans [OF e1 emits_emit [of "[37]"]] r1 by simp
    have "print_literal K c st = Some (c + 1, ?s1)"
      using b by (subst print_literal.simps) (simp add: cleared_def)
    then have rd: "print_round K nextarg_va_list c (st, (args, k)) = Some (Again (c + 2) (emit [37] ?s1, (args, k)))"
      using b r1 by (simp add: print_round_def Let_def put_char_emit add.assoc)
    have a: "args_ok (snd st) ?m args k items" using Cons.prems by (simp add: Percent printable_def)
    note n = printable_next [OF Cons.prems e, of k, OF _ a]
    have "prints K (c + 2) (emit [37] ?s1) args k (render ?m args k items)"
      using Cons.IH [OF n(1)] n(2) by (simp add: Percent)
    then show ?thesis using prints_round [OF rd e] by (simp add: Percent)
  next
    case (Conv z l w pr ch)
    let ?s1 = "(fst st, settings z l w pr (snd st))"
    let ?xs = "render_conv (settings z l w pr plain) ?m ch (args k)"
    have f: "same_frame (settings z l w pr (snd st)) (snd st)" by (simp add: same_frame_def settings_def)
    have e1: "emits [] st ?s1" using f by (rule emits_settings) (simp add: settings_def)
    have r1: "room_for (length ?xs) ?s1"
      by (rule emits_room [OF e1]) (use room in \<open>simp add: Conv room_for_def\<close>)
    have ar: "arg_ok (snd st) ?m ch (args k)" and a: "args_ok (snd st) ?m args (Suc k) items"
      using Cons.prems by (simp_all add: Conv printable_def)
    have "\<exists>st'. print_conversion K ch (args k) ?s1 = Some st' \<and> emits ?xs ?s1 st'"
      using cok ok ar r1 by (intro print_conversion_emits)
        (simp_all add: Conv same_frame_simps(2) [OF f] arg_ok_frame [OF f] render_conv_settings [of z l w pr "snd st"])
    then obtain st' where st': "print_conversion K ch (args k) ?s1 = Some st'" "emits ?xs ?s1 st'" by blast
    have e: "emits ?xs st st'" using emits_trans [OF e1 st'(2)] by simp
    have "bytes_at ?m c (37 # spec_bytes z l w pr @ [ch])"
      using Cons.prems by (simp add: Conv printable_def format_at_def format_bytes_def spec_bytes_def bytes_at_append)
    then have rd: "print_round K nextarg_va_list c (st, (args, k))
        = Some (Again (c + of_nat (length (item_bytes it))) (st', (args, Suc k)))"
      using print_round_conv [of z l w pr ch "fst st" c K "snd st" args k] ok st'(1) by (simp add: Conv)
    note n = printable_next [OF Cons.prems e, of "Suc k", OF _ a]
    have "prints K (c + of_nat (length (item_bytes it))) st' args (Suc k) (render ?m args (Suc k) items)"
      using Cons.IH [OF n(1)] n(2) by (simp add: Conv)
    then show ?thesis using prints_round [OF rd e] by (simp add: Conv)
  qed
qed

end
