(* ===== verification/Text_Correct.thy ===== *)
theory Text_Correct
  imports Print_Render
begin

text \<open>
  The properties of the string buffers and of formatted output, each with a run on small
  concrete data: the print buffer at \<open>0x10000\<close>, the digit array at \<open>0x11000\<close>.
\<close>

section \<open>Concrete data\<close>

definition text_machine :: "memory \<Rightarrow> unit machine" where
  "text_machine m = \<lparr>mem = m, free_anchor = 0, first_slot = 0, arena_brk = 0, sys_errno = 0, kern = ()\<rparr>"

definition text_kernel :: "unit kernel" where
  "text_kernel nr args = (\<lambda>(m, k). (if nr = 4 then args ! 2 else 0, m, k))"

definition text_frame :: print_context_t where
  "text_frame = plain\<lparr>buffer := 0x10000, digits := 0x11000\<rparr>"

text \<open>The context an entry point starts with.\<close>

definition start_ctx :: "print_context_t \<Rightarrow> writer_data \<Rightarrow> print_context_t" where
  "start_ctx frame w = frame\<lparr>writer := w, buffer_mark := 0, write_count := 0\<rparr>"

section \<open>String buffers\<close>

text \<open>C17. Appending bytes that lie outside the buffer adds as many as there is room for, in order,
  keeps the buffer well formed and its size, and changes no other memory.\<close>

theorem strbuf_append:
  assumes "strbuf_ok m sb" "unat src + unat count < 2 ^ 32"
    and "\<And>x. unat src \<le> unat x \<Longrightarrow> unat x < unat src + unat count \<Longrightarrow> x \<notin> strbuf_region m sb"
    and "m' = rtl_strbuf_append_bytes m sb src count"
  shows "strbuf_ok m' sb \<and> rtl_strbuf_get_size m' sb = rtl_strbuf_get_size m sb
    \<and> strbuf_bytes m' sb = strbuf_bytes m sb @ take (strbuf_room m sb) (read_bytes m src (unat count))
    \<and> (\<forall>x. x \<notin> strbuf_region m sb \<longrightarrow> m' x = m x)"
  using assms by (rule strbuf_appended)

theorem strbuf_append_witness:
  "strbuf_bytes (rtl_strbuf_append_bytes (write_bytes (\<lambda>_. 0) 0x100 [1, 0, 3, 0, 65, 0, 0, 66, 67, 68]) 0x100 0x107 3) 0x100
    = [65, 66, 67]"
proof -
  let ?m = "write_bytes (\<lambda>_. 0) 0x100 [1, 0, 3, 0, 65, 0, 0, 66, 67, 68] :: memory"
  have m: "rtl_strbuf_get_length ?m 0x100 = 1" "rtl_strbuf_get_size ?m 0x100 = 3"
    by (simp_all add: rtl_strbuf_get_length_def rtl_strbuf_get_size_def ld16_def)
  have "strbuf_ok ?m 0x100" unfolding strbuf_ok_def m by simp
  then have "strbuf_bytes (rtl_strbuf_append_bytes ?m 0x100 0x107 3) 0x100
      = strbuf_bytes ?m 0x100 @ take (strbuf_room ?m 0x100) (read_bytes ?m 0x107 (unat (3 :: u16)))"
    by (intro strbuf_append [THEN conjunct2, THEN conjunct2, THEN conjunct1]) (auto simp only: strbuf_region_def m, simp_all)
  also have "strbuf_bytes ?m 0x100 = [65]" unfolding strbuf_bytes_def m by simp
  also have "strbuf_room ?m 0x100 = 2" unfolding strbuf_room_def m by simp
  also have "unat (3 :: u16) = Suc (Suc (Suc 0))" by simp
  also have "read_bytes ?m 0x107 (Suc (Suc (Suc 0))) = [66, 67, 68]" by simp
  finally show ?thesis by (simp del: write_bytes.simps)
qed

section \<open>Numbers\<close>

text \<open>C18. \<open>conv_base\<close> returns for every base from 2 to 36, the digits its table has; it writes the
  characters of the digits of the value, at most 32 of them, so the 33- and 34-byte arrays of its
  callers hold them. Up to base 16 they are the usual characters; beyond, \<open>G\<close> and \<open>H\<close> are exchanged.\<close>

theorem conv_base_returns:
  assumes "2 \<le> base" "base \<le> 36"
  shows "\<exists>ds. conv_base m buf base val = Some (write_bytes m buf (digit_bytes ds), of_nat (length ds))
    \<and> length ds \<le> 32 \<and> (\<forall>d \<in> set ds. d < unat base) \<and> from_digits (unat base) ds = unat val
    \<and> (base \<le> 16 \<longrightarrow> digit_bytes ds = map digit_char ds)"
proof -
  have b: "2 \<le> unat base" using assms by (simp add: word_le_nat_alt)
  let ?ds = "digits_of (unat base) (unat val)"
  have "digit_bytes ?ds = map digit_char ?ds" if "base \<le> 16"
  proof -
    have "unat base \<le> 16" using that by (simp add: word_le_nat_alt)
    then have "exchanged d = d" if "d \<in> set ?ds" for d
      using digits_of_less [OF b that] by (simp add: exchanged_def)
    then show ?thesis by (simp add: digit_bytes_def)
  qed
  then show ?thesis
    using numeral_text_u32 [OF b, of val] digits_of_less [OF b]
    by (intro exI [of _ ?ds]) (simp add: conv_base_digits [OF assms] numeral_text_def, simp add: digit_bytes_def)
qed

theorem conv_base_returns_witness:
  "\<exists>ds. conv_base (\<lambda>_. 0) 0x100 16 255 = Some (write_bytes (\<lambda>_. 0) 0x100 (map digit_char ds), of_nat (length ds))
    \<and> from_digits 16 ds = 255"
  using conv_base_returns [of 16 "\<lambda>_. 0" "0x100" 255] by auto

text \<open>C19. The decimal text of a number, with any non-digit behind it, is read back by
  \<open>__ascii2uint\<close> as that number and its length.\<close>

theorem decimal_roundtrip:
  "\<exists>m' n. conv_base m buf 10 val = Some (m', n) \<and> unat n \<le> 10
    \<and> (\<not> xisdigit (m (buf + n)) \<longrightarrow> ascii2uint m' buf = Some (val, n))"
proof -
  let ?ds = "digits_of 10 (unat val)"
  let ?m = "write_bytes m buf (digit_bytes ?ds)"
  have "unat val < 10 ^ 10" using unsigned_less [of val, where ?'a = nat] by simp
  then have l: "length ?ds \<le> 10" by (intro digits_of_length) simp_all
  have frame: "?m (buf + of_nat (length ?ds)) = m (buf + of_nat (length ?ds))"
  proof (rule write_bytes_frame)
    fix i assume "i < length (digit_bytes ?ds)"
    then have i: "i < length ?ds" by (simp add: digit_bytes_def)
    show "buf + of_nat (length ?ds) \<noteq> buf + of_nat i"
    proof
      assume "buf + of_nat (length ?ds) = buf + of_nat i"
      then have "unat (of_nat (length ?ds) :: u32) = unat (of_nat i :: u32)" by simp
      then show False using i l by (simp add: unat_of_nat)
    qed
  qed
  have "ascii2uint ?m buf = Some (val, of_nat (length ?ds))" if "\<not> xisdigit (m (buf + of_nat (length ?ds)))"
  proof -
    have "bytes_at ?m buf (digit_bytes ?ds)" using l by (intro bytes_at_write) (simp add: digit_bytes_def)
    then have "ascii2uint ?m buf = Some (of_nat (from_digits 10 ?ds), of_nat (length ?ds))"
      using digits_of_less [of 10] that frame by (intro ascii2uint_digits) auto
    then show ?thesis by simp
  qed
  moreover have "conv_base m buf 10 val = Some (?m, of_nat (length ?ds))"
    by (simp add: conv_base_digits numeral_text_def digit_bytes_def)
  moreover have "unat (of_nat (length ?ds) :: u32) \<le> 10" using l by (simp add: unat_of_nat)
  ultimately show ?thesis by blast
qed

theorem decimal_roundtrip_witness:
  "\<exists>m' n. conv_base (\<lambda>_. 0) 0x100 10 4294967295 = Some (m', n) \<and> ascii2uint m' 0x100 = Some (4294967295, n)"
  using decimal_roundtrip [of "\<lambda>_. 0" "0x100" 4294967295] by (auto simp: xisdigit_def)

section \<open>Formatted output\<close>

lemma print_internal_renders:
  assumes "printable fmt (s, p) args 0 items" "buffer_mark p = 0"
  shows "\<exists>s' p' k'. print_internal K nextarg_va_list fmt ((s, p), (args, 0))
      = Inr (final_flush K (s', p'), (args, k')) \<and> emits (render (mem s) args 0 items) (s, p) (s', p')"
proof -
  obtain st' k' where "print_loop K nextarg_va_list fmt ((s, p), (args, 0)) = Some (Inr (st', (args, k')))"
      "emits (render (mem s) args 0 items) (s, p) st'"
    using prints_format [OF assms(1), of K] unfolding prints_def by auto
  then show ?thesis by (cases st') (auto simp: print_internal_def)
qed

text \<open>C20. Printing a format without \<open>%o\<close> to a file, when the output is shorter than the buffer, is one
  \<open>write\<close> of exactly the rendered bytes, and returns their number; what \<open>%s\<close> renders ends in the
  \<open>NUL\<close> of its argument.\<close>

theorem print_fd_writes:
  assumes "printable fmt (s, start_ctx frame (To_fd fd)) args 0 items" "xs = render (mem s) args 0 items" "xs \<noteq> []"
  shows "\<exists>m. read_bytes m (buffer frame) (length xs) = xs \<and> (\<forall>x. x \<notin> scratch_area frame \<longrightarrow> m x = mem s x)
    \<and> rtl_print_fd K frame fd fmt args s
      = Inr (of_nat (length xs), snd (sys_write K fd (buffer frame) (of_nat (length xs)) (s\<lparr>mem := m\<rparr>)))"
proof -
  let ?p = "start_ctx frame (To_fd fd)"
  obtain s' p' k' where pi: "print_internal K nextarg_va_list fmt ((s, ?p), (args, 0)) = Inr (final_flush K (s', p'), (args, k'))"
      and e: "emits xs (s, ?p) (s', p')"
    using print_internal_renders [OF assms(1), of K] assms(2) by (auto simp: start_ctx_def)
  have mark: "unat (buffer_mark p') = length xs" and f: "same_frame p' ?p" and s': "s' = s\<lparr>mem := mem s'\<rparr>"
    using e by (simp_all add: emits_def start_ctx_def)
  have "buffer_mark p' \<noteq> 0" using mark assms(3) by (metis length_0_conv unat_0)
  moreover have "buffer_mark p' = of_nat (length xs)" unfolding mark [symmetric] by simp
  ultimately have m: "buffer_mark p' = of_nat (length xs)" "buffer_mark p' \<noteq> 0" by simp_all
  have out: "read_bytes (mem s') (buffer frame) (length xs) = xs" "\<forall>x. x \<notin> scratch_area frame \<longrightarrow> mem s' x = mem s x"
    using e mark f by (auto simp: emits_def pending_def start_ctx_def same_frame_def scratch_area_def)
  have "final_flush K (s', p') = (snd (sys_write K fd (buffer frame) (of_nat (length xs)) s'),
      p'\<lparr>write_count := of_nat (length xs), buffer_mark := 0\<rparr>)"
    using m f by (simp add: final_flush_def flush_proc_def flush_fd_def same_frame_def start_ctx_def)
  then have "rtl_print_fd K frame fd fmt args s = Inr (of_nat (length xs), snd (sys_write K fd (buffer frame) (of_nat (length xs)) s'))"
    using pi by (simp add: rtl_print_fd_def rtl_vprint_fd_def rtl_xprint_fd_def start_ctx_def)
  then show ?thesis using out s' by metis
qed

text \<open>A format that prints 42 in a field of five, and a newline.\<close>

definition text_demo :: memory where
  "text_demo = write_bytes (\<lambda>_. 0) 0x100 [37, 53, 117, 10]"

definition demo_items :: "item list" where
  "demo_items = [Conv False False (Some [5]) None 117, Text [10]]"

lemma below_scratch:
  assumes "ctx_ok p" "unat c + n < unat (buffer p)" "unat c + n < unat (digits p)" "i \<le> n"
  shows "c + of_nat i \<notin> scratch_area p"
proof -
  have "unat (c + of_nat i) = unat c + i"
    using assms by (subst unat_add_no_wrap) (simp_all add: ctx_ok_def unat_of_nat)
  then show ?thesis using assms by (simp add: scratch_area_def ctx_ok_def region_unat)
qed

lemma demo_ctx_ok_text: "ctx_ok (start_ctx text_frame w)"
  by (auto simp: ctx_ok_def start_ctx_def text_frame_def plain_def region_unat)

lemma demo_bytes: "format_bytes demo_items = [37, 53, 117, 10]"
  by (simp add: demo_items_def format_bytes_def flag_bytes_def width_bytes_def prec_bytes_def digit_bytes_def digit_char_def exchanged_def)

lemma demo_render: "render text_demo (\<lambda>_. 42) 0 demo_items = [32, 32, 32, 52, 50, 10]"
proof -
  have d: "numeral_text 10 42 = [52, 50]" by code_simp
  have l: "layout (settings False False (Some [5]) None plain) 32 [52, 50] = [32, 32, 32, 52, 50]" by code_simp
  have p: "pad_char (settings False False (Some [5]) None plain) = 32"
    by (simp add: pad_char_def settings_def)
  show ?thesis by (simp add: demo_items_def render_conv_def d l p)
qed

lemma demo_printable: "printable 0x100 (text_machine text_demo, start_ctx text_frame w) (\<lambda>_. 42) 0 demo_items"
proof -
  have "\<forall>it \<in> set demo_items. item_ok it" by (simp add: demo_items_def conv_chars_def)
  moreover have "format_at 0x100 (text_machine text_demo, start_ctx text_frame w) demo_items"
  proof -
    have "0x100 + of_nat i \<notin> scratch_area (start_ctx text_frame w)" if "i \<le> 4" for i
      using that by (intro below_scratch [OF demo_ctx_ok_text, of _ 4])
        (simp_all add: start_ctx_def text_frame_def plain_def)
    then show ?thesis by (simp add: format_at_def demo_bytes text_machine_def text_demo_def)
  qed
  moreover have "args_ok (start_ctx text_frame w) text_demo (\<lambda>_. 42) 0 demo_items"
    by (simp add: demo_items_def arg_ok_def)
  moreover have "room_for (length (render text_demo (\<lambda>_. 42) 0 demo_items)) (text_machine text_demo, start_ctx text_frame w)"
    by (simp add: demo_render room_for_def start_ctx_def text_frame_def plain_def)
  ultimately show ?thesis by (simp add: printable_def demo_ctx_ok_text text_machine_def)
qed

theorem print_fd_writes_witness:
  "\<exists>m. read_bytes m 0x10000 (length [32, 32, 32, 52, 50, 10 :: u8]) = [32, 32, 32, 52, 50, 10]
    \<and> rtl_print_fd text_kernel text_frame 1 0x100 (\<lambda>_. 42) (text_machine text_demo) = Inr (6, text_machine m)"
proof -
  have "\<exists>m. read_bytes m (buffer text_frame) (length [32, 32, 32, 52, 50, 10 :: u8]) = [32, 32, 32, 52, 50, 10]
      \<and> (\<forall>x. x \<notin> scratch_area text_frame \<longrightarrow> m x = mem (text_machine text_demo) x)
      \<and> rtl_print_fd text_kernel text_frame 1 0x100 (\<lambda>_. 42) (text_machine text_demo)
        = Inr (of_nat (length [32, 32, 32, 52, 50, 10 :: u8]), snd (sys_write text_kernel 1 (buffer text_frame)
            (of_nat (length [32, 32, 32, 52, 50, 10 :: u8])) (text_machine text_demo\<lparr>mem := m\<rparr>)))"
    using demo_printable by (intro print_fd_writes [where items = demo_items]) (simp_all add: demo_render text_machine_def)
  then show ?thesis
    by (simp add: sys_write_def real_syscall_def text_kernel_def text_frame_def text_machine_def Let_def del: read_bytes.simps) blast
qed

text \<open>C21. Printing a format without \<open>%o\<close> to a string buffer appends the rendered bytes, as many as it has
  room for, and returns the new length; what \<open>%s\<close> renders ends in the \<open>NUL\<close> of its argument.\<close>

theorem print_sb_appends:
  assumes "printable fmt (s, start_ctx frame (To_sb sb)) args 0 items" "xs = render (mem s) args 0 items"
    and "strbuf_ok (mem s) sb" "strbuf_region (mem s) sb \<inter> scratch_area frame = {}"
  shows "\<exists>s'. rtl_print_sb K frame sb fmt args s = Inr (ucast (rtl_strbuf_get_length (mem s') sb), s')
    \<and> strbuf_ok (mem s') sb
    \<and> strbuf_bytes (mem s') sb = strbuf_bytes (mem s) sb @ take (strbuf_room (mem s) sb) xs
    \<and> (\<forall>x. x \<notin> scratch_area frame \<union> strbuf_region (mem s) sb \<longrightarrow> mem s' x = mem s x)"
proof -
  let ?p = "start_ctx frame (To_sb sb)"
  obtain s1 p' k' where pi: "print_internal K nextarg_va_list fmt ((s, ?p), (args, 0)) = Inr (final_flush K (s1, p'), (args, k'))"
      and e: "emits xs (s, ?p) (s1, p')"
    using print_internal_renders [OF assms(1), of K] assms(2) by (auto simp: start_ctx_def)
  have room: "length xs < 1024" "unat (buffer frame) + 1024 < 2 ^ 32"
    using assms(1,2) by (simp_all add: printable_def room_for_def start_ctx_def)
  have mark: "unat (buffer_mark p') = length xs" and f: "same_frame p' ?p"
      and m: "\<And>x. x \<notin> scratch_area frame \<Longrightarrow> mem s1 x = mem s x"
      and xs: "read_bytes (mem s1) (buffer frame) (length xs) = xs"
    using e by (auto simp: emits_def start_ctx_def pending_def same_frame_def scratch_area_def)
  have sb: "mem s1 x = mem s x" if "x \<in> strbuf_region (mem s) sb" for x
    using that assms(4) m by blast
  note same = strbuf_cong [OF assms(3) sb]
  show ?thesis
  proof (cases "xs = []")
    case True
    then have "final_flush K (s1, p') = (s1, p')" using mark by (simp add: final_flush_def unat_eq_zero)
    then have "rtl_print_sb K frame sb fmt args s = Inr (ucast (rtl_strbuf_get_length (mem s1) sb), s1)"
      using pi by (simp add: rtl_print_sb_def rtl_xprint_sb_def start_ctx_def)
    then show ?thesis using True same m by auto
  next
    case False
    have "buffer_mark p' \<noteq> 0" using mark False by (metis length_0_conv unat_0)
    moreover have c: "unat (ucast (buffer_mark p') :: u16) = length xs"
      using mark room by (simp add: unsigned_ucast_eq take_bit_nat_eq_self)
    define m2 where "m2 = rtl_strbuf_append_bytes (mem s1) sb (buffer frame) (ucast (buffer_mark p'))"
    have ap: "strbuf_ok m2 sb \<and> rtl_strbuf_get_size m2 sb = rtl_strbuf_get_size (mem s1) sb
      \<and> strbuf_bytes m2 sb = strbuf_bytes (mem s1) sb @ take (strbuf_room (mem s1) sb)
          (read_bytes (mem s1) (buffer frame) (unat (ucast (buffer_mark p') :: u16)))
      \<and> (\<forall>x. x \<notin> strbuf_region (mem s1) sb \<longrightarrow> m2 x = mem s1 x)"
    proof (rule strbuf_appended [OF same(1) _ _ m2_def])
      show "unat (buffer frame) + unat (ucast (buffer_mark p') :: u16) < 2 ^ 32" using room c by simp
      fix x :: u32
      assume x: "unat (buffer frame) \<le> unat x" "unat x < unat (buffer frame) + unat (ucast (buffer_mark p') :: u16)"
      then have "x \<in> region (buffer frame) 1024" using room c by (subst region_unat) simp_all
      then show "x \<notin> strbuf_region (mem s1) sb" using assms(4) same(4) by (auto simp: scratch_area_def)
    qed
    let ?s2 = "s1\<lparr>mem := m2\<rparr>"
    have "fst (final_flush K (s1, p')) = ?s2"
      using \<open>buffer_mark p' \<noteq> 0\<close> f
      by (simp add: final_flush_def flush_proc_def flush_sb_def same_frame_def start_ctx_def m2_def)
    then have "rtl_print_sb K frame sb fmt args s = Inr (ucast (rtl_strbuf_get_length (mem ?s2) sb), ?s2)"
      using pi by (cases "final_flush K (s1, p')") (simp add: rtl_print_sb_def rtl_xprint_sb_def start_ctx_def)
    then show ?thesis using ap same m xs unfolding c by (intro exI [of _ ?s2]) auto
  qed
qed

theorem print_sb_appends_witness:
  "\<exists>s'. rtl_print_sb text_kernel text_frame 0x200 0x100 (\<lambda>_. 42)
      (text_machine (write_bytes text_demo 0x200 [0, 0, 3, 0])) = Inr (ucast (rtl_strbuf_get_length (mem s') 0x200), s')
    \<and> strbuf_bytes (mem s') 0x200 = [32, 32, 32]"
proof -
  let ?m = "write_bytes text_demo 0x200 [0, 0, 3, 0] :: memory"
  have m: "rtl_strbuf_get_length ?m 0x200 = 0" "rtl_strbuf_get_size ?m 0x200 = 3"
    by (simp_all add: rtl_strbuf_get_length_def rtl_strbuf_get_size_def ld16_def)
  have ok: "strbuf_ok ?m 0x200" unfolding strbuf_ok_def m by simp
  have empty: "strbuf_bytes ?m 0x200 = []" "strbuf_room ?m 0x200 = 3"
    unfolding strbuf_bytes_def strbuf_room_def m by simp_all
  have apart: "strbuf_region ?m 0x200 \<inter> scratch_area text_frame = {}"
    unfolding strbuf_region_def m by (auto simp: scratch_area_def text_frame_def region_unat)
  have r: "render ?m (\<lambda>_. 42) 0 demo_items = [32, 32, 32, 52, 50, 10]"
    using demo_render by (simp add: demo_items_def render_conv_def)
  have b: "bytes_at ?m 0x100 (format_bytes demo_items @ [0])"
    by (simp add: demo_bytes text_demo_def)
  have "room_for (length (render ?m (\<lambda>_. 42) 0 demo_items)) (text_machine ?m, start_ctx text_frame (To_sb 0x200))"
    unfolding r by (simp add: room_for_def start_ctx_def text_frame_def plain_def)
  moreover have "args_ok (start_ctx text_frame (To_sb 0x200)) ?m (\<lambda>_. 42) 0 demo_items"
    by (simp add: demo_items_def arg_ok_def)
  ultimately have "printable 0x100 (text_machine ?m, start_ctx text_frame (To_sb 0x200)) (\<lambda>_. 42) 0 demo_items"
    using demo_printable [of "To_sb 0x200"] b
    by (simp add: printable_def format_at_def text_machine_def del: write_bytes.simps)
  then have "\<exists>s'. rtl_print_sb text_kernel text_frame 0x200 0x100 (\<lambda>_. 42) (text_machine ?m)
        = Inr (ucast (rtl_strbuf_get_length (mem s') 0x200), s')
      \<and> strbuf_ok (mem s') 0x200
      \<and> strbuf_bytes (mem s') 0x200
        = strbuf_bytes (mem (text_machine ?m)) 0x200 @ take (strbuf_room (mem (text_machine ?m)) 0x200) [32, 32, 32, 52, 50, 10]
      \<and> (\<forall>x. x \<notin> scratch_area text_frame \<union> strbuf_region (mem (text_machine ?m)) 0x200
            \<longrightarrow> mem s' x = mem (text_machine ?m) x)"
    by (rule print_sb_appends) (simp_all only: text_machine_def machine.simps r ok apart)
  then obtain s' where s': "rtl_print_sb text_kernel text_frame 0x200 0x100 (\<lambda>_. 42) (text_machine ?m)
        = Inr (ucast (rtl_strbuf_get_length (mem s') 0x200), s')"
      "strbuf_bytes (mem s') 0x200 = strbuf_bytes (mem (text_machine ?m)) 0x200
        @ take (strbuf_room (mem (text_machine ?m)) 0x200) [32, 32, 32, 52, 50, 10]" by blast
  have "mem (text_machine ?m) = ?m" by (simp only: text_machine_def machine.simps)
  moreover have "take 3 [32, 32, 32, 52, 50, 10 :: u8] = [32, 32, 32]" by simp
  ultimately have "strbuf_bytes (mem s') 0x200 = [32, 32, 32]" using s'(2) by (simp only: empty append_Nil)
  with s'(1) show ?thesis by blast
qed

text \<open>C22. A format of 1024 plain characters goes to a file as one \<open>write\<close> of 1023 bytes, although the
  call returns 1024: the flush of a full buffer uses the mark from before the last character.\<close>

theorem full_buffer_loses_byte:
  assumes "bytes_at (mem s) fmt (xs @ [0])" "length xs = 1024" "0 \<notin> set xs" "37 \<notin> set xs"
    and "unat (buffer frame) + 1024 < 2 ^ 32" "\<forall>i \<le> 1024. fmt + of_nat i \<notin> region (buffer frame) 1024"
    and "\<And>s' n. mem (snd (sys_write K fd (buffer frame) n s')) = mem s'"
  shows "\<exists>m. read_bytes m (buffer frame) 1023 = take 1023 xs
    \<and> rtl_print_fd K frame fd fmt args s = Inr (1024, snd (sys_write K fd (buffer frame) 1023 (s\<lparr>mem := m\<rparr>)))"
proof -
  let ?st = "(s, start_ctx frame (To_fd fd))"
  define ys y where "ys = take 1023 xs" and "y = xs ! 1023"
  have xs: "xs = ys @ [y]" and ly: "length ys = 1023"
    using assms(2) by (auto simp: ys_def y_def take_Suc_conv_app_nth [symmetric])
  let ?st1 = "emit ys ?st"
  have room: "room_for 1023 ?st" using assms(5) by (simp add: room_for_def start_ctx_def)
  have out: "\<forall>i \<le> 1024. fmt + of_nat i \<notin> buffer_area ?st"
    using assms(6) by (simp add: buffer_area_def start_ctx_def)
  have lit1: "print_literal K fmt ?st = print_literal K (fmt + of_nat (length ys)) ?st1"
    using assms(1,3,4) out room unfolding xs by (intro print_literal_text) (simp_all add: bytes_at_append ly)
  have m1: "mem (fst ?st1) (fmt + of_nat i) = mem s (fmt + of_nat i)" if "i \<le> 1024" for i
    using emit_frame [of ys ?st "fmt + of_nat i"] that out room ly by simp
  have y: "mem s (fmt + of_nat 1023) = y" "mem s (fmt + of_nat 1024) = 0" "y \<noteq> 0" "y \<noteq> 37"
    using assms(1,3,4) unfolding xs by (simp_all add: bytes_at_append ly add.commute)
  have p1: "buffer_mark (snd ?st1) = 1023" "buffer (snd ?st1) = buffer frame" "writer (snd ?st1) = To_fd fd" "write_count (snd ?st1) = 0"
    by (simp_all add: ly start_ctx_def)
  let ?s2 = "(fst ?st1)\<lparr>mem := (mem (fst ?st1))(buffer frame + 1023 := y)\<rparr>"
  let ?s3 = "snd (sys_write K fd (buffer frame) 1023 ?s2)"
  let ?p3 = "(snd ?st1)\<lparr>write_count := 1024, buffer_mark := 0\<rparr>"
  have pc: "put_char K y ?st1 = (?s3, ?p3)"
    using p1 by (cases ?st1) (simp add: put_char_def BUFFER_SIZE_def flush_proc_def flush_fd_def)
  have m3: "mem ?s3 (fmt + 1024) = 0"
  proof -
    have "buffer frame + 1023 \<in> region (buffer frame) 1024" by (simp add: mem_region)
    moreover have "fmt + of_nat 1024 \<notin> region (buffer frame) 1024" using assms(6) [rule_format, of 1024] by blast
    ultimately have "fmt + of_nat 1024 \<noteq> buffer frame + 1023" by metis
    then have "fmt + 1024 \<noteq> buffer frame + 1023" by (metis of_nat_numeral)
    then show ?thesis using m1 [of 1024] y(2) by (simp add: assms(7))
  qed
  have lit: "print_literal K fmt ?st = Some (fmt + 1024, (?s3, ?p3))"
  proof -
    have "print_literal K (fmt + of_nat 1023) ?st1 = print_literal K (fmt + 1024) (?s3, ?p3)"
      using m1 [of 1023] y(1,3,4) by (subst print_literal.simps) (simp add: pc add.assoc)
    also have "\<dots> = Some (fmt + 1024, (?s3, ?p3))" using m3 by (subst print_literal.simps) simp
    finally show ?thesis using lit1 ly by simp
  qed
  have "print_loop K nextarg_va_list fmt (?st, (args, 0)) = Some (Inr ((?s3, ?p3), (args, 0)))"
    using lit m3 by (subst print_loop.simps) (simp add: print_round_def)
  then have "rtl_print_fd K frame fd fmt args s = Inr (1024, ?s3)"
    by (simp add: rtl_print_fd_def rtl_vprint_fd_def rtl_xprint_fd_def print_internal_def final_flush_def start_ctx_def)
  moreover have "read_bytes (mem ?s2) (buffer frame) 1023 = ys"
  proof -
    have "read_bytes (mem (fst ?st1)) (buffer frame) 1023 = ys"
      using read_write_bytes [of ys "mem s" "buffer frame"] ly by (simp add: emit_def start_ctx_def)
    moreover have "unat (buffer frame + 1023) = unat (buffer frame) + 1023"
      using assms(5) by (simp add: unat_add_no_wrap)
    then have "read_bytes (mem ?s2) (buffer frame) 1023 = read_bytes (mem (fst ?st1)) (buffer frame) 1023"
      using assms(5) by (intro read_bytes_cong) auto
    ultimately show ?thesis by simp
  qed
  moreover have "?s2 = s\<lparr>mem := mem ?s2\<rparr>" by (simp add: emit_def)
  ultimately show ?thesis unfolding ys_def by metis
qed

theorem full_buffer_loses_byte_witness:
  "\<exists>m. rtl_print_fd text_kernel text_frame 1 0x100 (\<lambda>_. 0)
      (text_machine (write_bytes (\<lambda>_. 0) 0x100 (replicate 1024 65))) = Inr (1024, text_machine m)"
proof -
  let ?m = "write_bytes (\<lambda>_. 0) 0x100 (replicate 1024 65) :: memory"
  have "bytes_at ?m 0x100 (replicate 1024 65)" by (rule bytes_at_write) simp
  moreover have "?m (0x100 + of_nat 1024) = 0" by (subst write_bytes_at) simp_all
  ultimately have b: "bytes_at ?m 0x100 (replicate 1024 65 @ [0])" by (simp add: bytes_at_append)
  have out: "\<forall>i \<le> 1024. 0x100 + of_nat i \<notin> region (buffer text_frame) 1024"
    by (simp add: text_frame_def plain_def region_unat unat_add_no_wrap unat_of_nat)
  have "\<exists>m. read_bytes m (buffer text_frame) 1023 = take 1023 (replicate 1024 65)
    \<and> rtl_print_fd text_kernel text_frame 1 0x100 (\<lambda>_. 0) (text_machine ?m)
      = Inr (1024, snd (sys_write text_kernel 1 (buffer text_frame) 1023 ((text_machine ?m)\<lparr>mem := m\<rparr>)))"
    using b out by (intro full_buffer_loses_byte)
      (simp_all add: text_machine_def text_frame_def plain_def sys_write_def real_syscall_def text_kernel_def Let_def)
  then show ?thesis by (auto simp: sys_write_def real_syscall_def text_kernel_def text_machine_def Let_def)
qed

text \<open>C23. \<open>%o\<close>, commented as unsigned octal, prints its argument in base 18, which is not its octal text
  from 8 on.\<close>

theorem octal_in_base_18:
  assumes "ctx_ok (snd st)" "xs = layout (snd st) (pad_char (snd st)) (numeral_text 18 (unat arg))" "room_for (length xs) st"
  shows "(\<exists>st'. print_conversion K 111 arg st = Some st' \<and> emits xs st st')
    \<and> (numeral_text 18 (unat arg) = numeral_text 8 (unat arg) \<longleftrightarrow> unat arg < 8)"
proof -
  have "print_conversion K 111 arg st = conv_uox K 18 arg st" by (simp add: print_conversion_def)
  then have "\<exists>st'. print_conversion K 111 arg st = Some st' \<and> emits xs st st'"
    using conv_uox_emits [OF assms(1), of 18] assms(2,3) by simp
  moreover have "numeral_text 18 (unat arg) = numeral_text 8 (unat arg)" if "unat arg < 8"
    using that by (simp add: numeral_text_def digits_of.simps)
  ultimately show ?thesis using numeral_text_same [of 8 "unat arg" 18] by auto
qed

theorem octal_in_base_18_witness:
  "\<exists>st'. print_conversion text_kernel 111 64 (text_machine text_demo, start_ctx text_frame (To_fd 1)) = Some st'
    \<and> emits [51, 65] (text_machine text_demo, start_ctx text_frame (To_fd 1)) st' \<and> numeral_text 18 64 \<noteq> numeral_text 8 64"
proof -
  let ?st = "(text_machine text_demo, start_ctx text_frame (To_fd 1))"
  have d: "numeral_text 18 (unat (64 :: u32)) = [51, 65]" by code_simp
  have l: "layout (snd ?st) (pad_char (snd ?st)) [51, 65] = [51, 65]" by code_simp
  have "(\<exists>st'. print_conversion text_kernel 111 64 ?st = Some st' \<and> emits [51, 65] ?st st')
      \<and> (numeral_text 18 (unat (64 :: u32)) = numeral_text 8 (unat (64 :: u32)) \<longleftrightarrow> unat (64 :: u32) < 8)"
  proof (rule octal_in_base_18)
    show "ctx_ok (snd ?st)" using demo_ctx_ok_text by simp
    show "[51, 65] = layout (snd ?st) (pad_char (snd ?st)) (numeral_text 18 (unat (64 :: u32)))" unfolding d l ..
    show "room_for (length [51, 65 :: u8]) ?st" by (simp add: room_for_def start_ctx_def text_frame_def plain_def)
  qed
  then show ?thesis by auto
qed

end
