(* ===== verification/VM_Native.thy ===== *)
theory VM_Native
  imports VM_Core Mette_Print
begin

text \<open>
  The native procedures a program may call, \<open>src/vm_thunks\<close>: each takes its arguments from the
  data stack and may leave one result there. \<open>VM_THUNK_ARGS_START\<close> and \<open>VM_THUNK_ARGS_END\<close> are
  \<open>with_args\<close>; the argument structure holds the words from the top of the stack down, so the
  first declared argument is the topmost word. The debug print of \<open>sockaddr_create\<close> is left out.
\<close>

section \<open>Calling convention\<close>

text \<open>
  What the procedures use besides the state: the kernel, the stack frame of the print routines,
  the static buffer of \<open>rtl_strbuf_to_asciiz\<close>, the stack addresses of a local variable whose
  address is taken and of the arguments of a socket call, and whether the C library's checked
  \<open>fd_set\<close> macros are in use.
\<close>

record 'k native =
  native_kernel :: "'k kernel"
  print_frame :: print_context_t
  temp_buf :: u32
  local_var :: u32
  call_args :: u32
  fortified :: bool

definition with_args :: "nat \<Rightarrow> (u32 list \<Rightarrow> 'k thunk) \<Rightarrow> 'k thunk" where
  "with_args n f s ctx =
     bind_res (vm_stack_pop3 (mem s) (dstack ctx) n) (\<lambda>(args, st). f args s (ctx\<lparr>dstack := st\<rparr>))"

definition thunk_return :: "u32 \<Rightarrow> 'k thunk" where
  "thunk_return what s ctx =
     bind_res (vm_stack_push (mem s) (dstack ctx) what) (\<lambda>(m, st). Inr (s\<lparr>mem := m\<rparr>, ctx\<lparr>dstack := st\<rparr>))"

section \<open>Memory: \<open>vmt_rtl.c\<close>\<close>

definition thunkproc_rtl_alloc :: "'k native \<Rightarrow> 'k thunk" where
  "thunkproc_rtl_alloc N = with_args 1 (\<lambda>args s ctx.
     bind_res (returns (rtl_alloc (native_kernel N) (args ! 0) s)) (\<lambda>(ptr, s). thunk_return ptr s ctx))"

definition thunkproc_rtl_realloc :: "'k native \<Rightarrow> 'k thunk" where
  "thunkproc_rtl_realloc N = with_args 2 (\<lambda>args s ctx.
     bind_res (returns (rtl_realloc (native_kernel N) (args ! 0) (args ! 1) s)) (\<lambda>(ptr, s). thunk_return ptr s ctx))"

definition thunkproc_rtl_free :: "'k native \<Rightarrow> 'k thunk" where
  "thunkproc_rtl_free N = with_args 1 (\<lambda>args s ctx.
     bind_res (returns (rtl_free (args ! 0) s)) (\<lambda>s. Inr (s, ctx)))"

definition thunkproc_rtl_memset :: "'k native \<Rightarrow> 'k thunk" where
  "thunkproc_rtl_memset N = with_args 3 (\<lambda>args s ctx.
     Inr (s\<lparr>mem := xmemset (mem s) (args ! 0) (args ! 1) (args ! 2)\<rparr>, ctx))"

definition thunkproc_rtl_memcpy :: "'k native \<Rightarrow> 'k thunk" where
  "thunkproc_rtl_memcpy N = with_args 3 (\<lambda>args s ctx.
     Inr (s\<lparr>mem := xmemcpy (mem s) (args ! 0) (args ! 1) (args ! 2)\<rparr>, ctx))"

subsection \<open>String buffers\<close>

definition thunkproc_rtl_strbuf_alloc :: "'k native \<Rightarrow> 'k thunk" where
  "thunkproc_rtl_strbuf_alloc N = with_args 1 (\<lambda>args s ctx.
     bind_res (returns (rtl_strbuf_alloc (native_kernel N) (args ! 0) s)) (\<lambda>(sb, s). thunk_return sb s ctx))"

definition thunkproc_rtl_strbuf_free :: "'k native \<Rightarrow> 'k thunk" where
  "thunkproc_rtl_strbuf_free N = with_args 1 (\<lambda>args s ctx.
     bind_res (returns (rtl_strbuf_free (args ! 0) s)) (\<lambda>s. Inr (s, ctx)))"

definition thunkproc_rtl_strbuf_get_length :: "'k native \<Rightarrow> 'k thunk" where
  "thunkproc_rtl_strbuf_get_length N = with_args 1 (\<lambda>args s ctx.
     thunk_return (ucast (rtl_strbuf_get_length (mem s) (args ! 0))) s ctx)"

definition thunkproc_rtl_strbuf_get_size :: "'k native \<Rightarrow> 'k thunk" where
  "thunkproc_rtl_strbuf_get_size N = with_args 1 (\<lambda>args s ctx.
     thunk_return (ucast (rtl_strbuf_get_size (mem s) (args ! 0))) s ctx)"

definition thunkproc_rtl_strbuf_get_buffer :: "'k native \<Rightarrow> 'k thunk" where
  "thunkproc_rtl_strbuf_get_buffer N = with_args 1 (\<lambda>args s ctx.
     thunk_return (rtl_strbuf_get_buffer (args ! 0)) s ctx)"

text \<open>The new length and size are cut to the 16 bits of the callee's parameter.\<close>

definition thunkproc_rtl_strbuf_set_length :: "'k native \<Rightarrow> 'k thunk" where
  "thunkproc_rtl_strbuf_set_length N = with_args 2 (\<lambda>args s ctx.
     Inr (s\<lparr>mem := rtl_strbuf_set_length (mem s) (args ! 0) (ucast (args ! 1))\<rparr>, ctx))"

definition thunkproc_rtl_strbuf_resize :: "'k native \<Rightarrow> 'k thunk" where
  "thunkproc_rtl_strbuf_resize N = with_args 2 (\<lambda>args s ctx.
     bind_res (returns (rtl_strbuf_resize (native_kernel N) (args ! 0) (ucast (args ! 1)) s))
       (\<lambda>(sb, s). thunk_return sb s ctx))"

subsection \<open>Printing\<close>

text \<open>The arguments of the format come from the data stack, one word each.\<close>

definition nextarg_stack :: "('k, vm_context_t) reader" where
  "nextarg_stack s ctx =
     bind_res (vm_stack_pop3 (mem s) (dstack ctx) 1) (\<lambda>(ws, st). Inr (ws ! 0, ctx\<lparr>dstack := st\<rparr>))"

definition thunkproc_rtl_print_fd :: "'k native \<Rightarrow> 'k thunk" where
  "thunkproc_rtl_print_fd N = with_args 2 (\<lambda>args s ctx.
     bind_res (rtl_xprint_fd (native_kernel N) (print_frame N) (args ! 0) (args ! 1) nextarg_stack s ctx)
       (\<lambda>(r, s, ctx). thunk_return r s ctx))"

definition thunkproc_rtl_print_sb :: "'k native \<Rightarrow> 'k thunk" where
  "thunkproc_rtl_print_sb N = with_args 2 (\<lambda>args s ctx.
     bind_res (rtl_xprint_sb (native_kernel N) (print_frame N) (args ! 0) (args ! 1) nextarg_stack s ctx)
       (\<lambda>(r, s, ctx). thunk_return r s ctx))"

section \<open>Process and time: \<open>vmt_misc.c\<close>\<close>

definition thunkproc_sys_exit :: "'k native \<Rightarrow> 'k thunk" where
  "thunkproc_sys_exit N = with_args 1 (\<lambda>args s ctx. sys_exit (args ! 0))"

definition thunkproc_sys_time :: "'k native \<Rightarrow> 'k thunk" where
  "thunkproc_sys_time N s ctx =
     (let s = snd (sys_time (native_kernel N) (local_var N) s)
      in thunk_return (ld32 (mem s) (local_var N)) s ctx)"

section \<open>Files: \<open>vmt_io.c\<close>\<close>

definition thunkproc_io_open :: "'k native \<Rightarrow> 'k thunk" where
  "thunkproc_io_open N = with_args 3 (\<lambda>args s ctx.
     case rtl_strbuf_to_asciiz (mem s) (temp_buf N) (args ! 0) of (path, m) \<Rightarrow>
     case sys_open (native_kernel N) path (args ! 1) (args ! 2) (s\<lparr>mem := m\<rparr>) of (fd, s) \<Rightarrow>
     thunk_return fd s ctx)"

text \<open>After an error the procedure goes on: it sets the length of the freed buffer and returns it too.\<close>

definition thunkproc_io_read :: "'k native \<Rightarrow> 'k thunk" where
  "thunkproc_io_read N = with_args 2 (\<lambda>args s ctx.
     bind_res (returns (rtl_strbuf_alloc (native_kernel N) (args ! 1) s)) (\<lambda>(sb, s).
     case sys_read (native_kernel N) (args ! 0) (rtl_strbuf_get_buffer sb)
            (ucast (rtl_strbuf_get_size (mem s) sb)) s of (rv, s) \<Rightarrow>
     bind_res (if sint rv < 0
               then bind_res (returns (rtl_strbuf_free sb s)) (\<lambda>s. thunk_return 0 s ctx)
               else Inr (s, ctx)) (\<lambda>(s, ctx).
     thunk_return sb (s\<lparr>mem := rtl_strbuf_set_length (mem s) sb (ucast rv)\<rparr>) ctx)))"

definition thunkproc_io_write :: "'k native \<Rightarrow> 'k thunk" where
  "thunkproc_io_write N = with_args 2 (\<lambda>args s ctx.
     case sys_write (native_kernel N) (args ! 0) (rtl_strbuf_get_buffer (args ! 1))
            (ucast (rtl_strbuf_get_length (mem s) (args ! 1))) s of (rv, s) \<Rightarrow>
     thunk_return rv s ctx)"

definition thunkproc_io_close :: "'k native \<Rightarrow> 'k thunk" where
  "thunkproc_io_close N = with_args 1 (\<lambda>args s ctx. Inr (snd (sys_close (native_kernel N) (args ! 0) s), ctx))"

definition thunkproc_io_ioctl :: "'k native \<Rightarrow> 'k thunk" where
  "thunkproc_io_ioctl N = with_args 3 (\<lambda>args s ctx.
     case sys_ioctl (native_kernel N) (args ! 0) (args ! 1) (args ! 2) s of (rv, s) \<Rightarrow> thunk_return rv s ctx)"

section \<open>Waiting: \<open>vmt_select.c\<close>\<close>

text \<open>
  An \<open>fd_set\<close> is 32 words. The macros address the word \<open>fd / 32\<close> and the bit \<open>fd % 32\<close>, in
  \<open>int\<close>; a negative bit number is an undefined shift. The checked macros take the word number from
  \<open>__fdelt_chk\<close>, which this file replaces by a function that returns its argument.
\<close>

definition fdelt_chk :: "u32 \<Rightarrow> u32" where
  "fdelt_chk d = d"

definition fd_word :: "bool \<Rightarrow> u32 \<Rightarrow> u32 \<Rightarrow> u32" where
  "fd_word checked fds fd = fds + 4 * (if checked then fdelt_chk fd else word_of_int (sint fd sdiv 32))"

definition fd_mask :: "u32 \<Rightarrow> stop + u32" where
  "fd_mask fd = (if sint fd smod 32 < 0 then Inl Undefined_shift else Inr (push_bit (nat (sint fd smod 32)) 1))"

definition thunkproc_fdset_create :: "'k native \<Rightarrow> 'k thunk" where
  "thunkproc_fdset_create N s ctx =
     bind_res (returns (rtl_alloc (native_kernel N) 128 s)) (\<lambda>(fds, s).
     thunk_return fds (s\<lparr>mem := xmemset (mem s) fds 0 128\<rparr>) ctx)"

definition thunkproc_fdset_set :: "'k native \<Rightarrow> 'k thunk" where
  "thunkproc_fdset_set N = with_args 2 (\<lambda>args s ctx.
     bind_res (fd_mask (args ! 1)) (\<lambda>k.
     let w = fd_word (fortified N) (args ! 0) (args ! 1)
     in Inr (s\<lparr>mem := st32 (mem s) w (ld32 (mem s) w OR k)\<rparr>, ctx)))"

definition thunkproc_fdset_clear :: "'k native \<Rightarrow> 'k thunk" where
  "thunkproc_fdset_clear N = with_args 2 (\<lambda>args s ctx.
     bind_res (fd_mask (args ! 1)) (\<lambda>k.
     let w = fd_word (fortified N) (args ! 0) (args ! 1)
     in Inr (s\<lparr>mem := st32 (mem s) w (ld32 (mem s) w AND NOT k)\<rparr>, ctx)))"

definition thunkproc_fdset_check :: "'k native \<Rightarrow> 'k thunk" where
  "thunkproc_fdset_check N = with_args 2 (\<lambda>args s ctx.
     bind_res (fd_mask (args ! 1)) (\<lambda>k.
     thunk_return (c_bool (ld32 (mem s) (fd_word (fortified N) (args ! 0) (args ! 1)) AND k \<noteq> 0)) s ctx))"

text \<open>\<open>tv_sec\<close> is the quotient of an \<open>int\<close>; \<open>tv_usec\<close> is the whole timeout times 1000.\<close>

definition thunkproc_io_select :: "'k native \<Rightarrow> 'k thunk" where
  "thunkproc_io_select N = with_args 4 (\<lambda>args s ctx.
     let m = st32 (mem s) (local_var N) (word_of_int (sint (args ! 3) sdiv 1000));
         m = st32 m (local_var N + 4) (args ! 3 * 1000)
     in case sys_newselect (native_kernel N) 1024 (args ! 0) (args ! 1) (args ! 2) (local_var N) (s\<lparr>mem := m\<rparr>) of
          (result, s) \<Rightarrow> thunk_return result s ctx)"

end
