(* ===== verification/VM_Sockets.thy ===== *)
theory VM_Sockets
  imports VM_Native
begin

text \<open>
  The socket procedures of \<open>src/vm_thunks/vmt_sockets.c\<close>, and the list of all native
  procedures with the hashed names by which a program refers to them. A \<open>sockaddr\<close> is 16 bytes:
  the family in the first two, the port in the next two, the address in the next four.
\<close>

section \<open>Byte order\<close>

definition rtl_htons :: "u16 \<Rightarrow> u16" where
  "rtl_htons x = push_bit 8 (x AND 0x00FF) OR drop_bit 8 (x AND 0xFF00)"

definition rtl_htonl :: "u32 \<Rightarrow> u32" where
  "rtl_htonl x = push_bit 24 (x AND 0x000000FF) OR push_bit 8 (x AND 0x0000FF00)
     OR drop_bit 8 (x AND 0x00FF0000) OR drop_bit 24 (x AND 0xFF000000)"

definition thunkproc_rtl_nswapl :: "'k native \<Rightarrow> 'k thunk" where
  "thunkproc_rtl_nswapl N = with_args 1 (\<lambda>args. thunk_return (rtl_htonl (args ! 0)))"

definition thunkproc_rtl_nswaps :: "'k native \<Rightarrow> 'k thunk" where
  "thunkproc_rtl_nswaps N = with_args 1 (\<lambda>args. thunk_return (ucast (rtl_htons (ucast (args ! 0)))))"

section \<open>Addresses\<close>

definition thunkproc_sockaddr_create :: "'k native \<Rightarrow> 'k thunk" where
  "thunkproc_sockaddr_create N = with_args 2 (\<lambda>args s ctx.
     bind_res (returns (rtl_alloc (native_kernel N) 16 s)) (\<lambda>(sa, s).
     let m = st16 (mem s) sa 2;
         m = st16 m (sa + 2) (rtl_htons (ucast (args ! 1)));
         m = st32 m (sa + 4) (rtl_htonl (args ! 0))
     in thunk_return sa (s\<lparr>mem := m\<rparr>) ctx))"

definition thunkproc_sockaddr_get_ip :: "'k native \<Rightarrow> 'k thunk" where
  "thunkproc_sockaddr_get_ip N = with_args 1 (\<lambda>args s.
     thunk_return (rtl_htonl (ld32 (mem s) (args ! 0 + 4))) s)"

definition thunkproc_sockaddr_get_port :: "'k native \<Rightarrow> 'k thunk" where
  "thunkproc_sockaddr_get_port N = with_args 1 (\<lambda>args s.
     thunk_return (ucast (rtl_htons (ld16 (mem s) (args ! 0 + 2)))) s)"

section \<open>Sockets\<close>

text \<open>A procedure that returns the result of one system call.\<close>

definition return_call :: "(u32 list \<Rightarrow> 'k machine \<Rightarrow> u32 \<times> 'k machine) \<Rightarrow> nat \<Rightarrow> 'k thunk" where
  "return_call call n = with_args n (\<lambda>args s ctx. case call args s of (result, s) \<Rightarrow> thunk_return result s ctx)"

definition sysdep_type :: "u32 \<Rightarrow> u32" where
  "sysdep_type type = (if type = 1 then 1 else if type = 2 then 2 else if type = 3 then 3 else - 1)"

definition thunkproc_socket_create :: "'k native \<Rightarrow> 'k thunk" where
  "thunkproc_socket_create N = return_call (\<lambda>args.
     sys_socket (native_kernel N) (call_args N) 2 (sysdep_type (args ! 0)) (args ! 1)) 2"

text \<open>\<open>flags\<close> is unsigned, so its comparison with zero never holds; the return it guards would not
  leave the procedure.\<close>

definition thunkproc_socket_set_blocking :: "'k native \<Rightarrow> 'k thunk" where
  "thunkproc_socket_set_blocking N = with_args 2 (\<lambda>args s ctx.
     case sys_fcntl (native_kernel N) (args ! 0) 3 0 s of (flags, s) \<Rightarrow>
     bind_res (if flags < 0 then thunk_return (- 1) s ctx else Inr (s, ctx)) (\<lambda>(s, ctx).
     let flags = (if args ! 1 \<noteq> 0 then flags AND NOT 0x800 else flags OR 0x800)
     in case sys_fcntl (native_kernel N) (args ! 0) 4 flags s of (result, s) \<Rightarrow> thunk_return result s ctx))"

definition thunkproc_socket_bind :: "'k native \<Rightarrow> 'k thunk" where
  "thunkproc_socket_bind N = return_call (\<lambda>args.
     sys_bind (native_kernel N) (call_args N) (args ! 0) (args ! 1) 16) 2"

definition thunkproc_socket_listen :: "'k native \<Rightarrow> 'k thunk" where
  "thunkproc_socket_listen N = return_call (\<lambda>args.
     sys_listen (native_kernel N) (call_args N) (args ! 0) (args ! 1)) 2"

definition thunkproc_socket_accept :: "'k native \<Rightarrow> 'k thunk" where
  "thunkproc_socket_accept N = return_call (\<lambda>args.
     sys_accept (native_kernel N) (call_args N) (args ! 0) (args ! 1) 16) 2"

definition thunkproc_socket_connect :: "'k native \<Rightarrow> 'k thunk" where
  "thunkproc_socket_connect N = return_call (\<lambda>args.
     sys_connect (native_kernel N) (call_args N) (args ! 0) (args ! 1) 16) 2"

definition thunkproc_socket_send :: "'k native \<Rightarrow> 'k thunk" where
  "thunkproc_socket_send N = return_call (\<lambda>args s.
     sys_send (native_kernel N) (call_args N) (args ! 0) (rtl_strbuf_get_buffer (args ! 1))
       (ucast (rtl_strbuf_get_length (mem s) (args ! 1))) 0 s) 2"

definition thunkproc_socket_sendto :: "'k native \<Rightarrow> 'k thunk" where
  "thunkproc_socket_sendto N = return_call (\<lambda>args s.
     sys_sendto (native_kernel N) (call_args N) (args ! 0) (rtl_strbuf_get_buffer (args ! 1))
       (ucast (rtl_strbuf_get_length (mem s) (args ! 1))) 0 (args ! 2) 16 s) 3"

text \<open>\<open>addrlen\<close> is the local variable whose address the call gets.\<close>

definition socket_recvfrom :: "'k native \<Rightarrow> u32 \<Rightarrow> u32 \<Rightarrow> u32 \<Rightarrow> 'k machine \<Rightarrow> stop + u32 \<times> 'k machine" where
  "socket_recvfrom N sockfd max_length sa s =
     (let s = s\<lparr>mem := st32 (mem s) (local_var N) 16, sys_errno := 0\<rparr>
      in bind_res (returns (rtl_strbuf_alloc (native_kernel N) max_length s)) (\<lambda>(sb, s).
         if sb = 0 then Inr (0, s\<lparr>sys_errno := 12\<rparr>)
         else case sys_recvfrom (native_kernel N) (call_args N) sockfd (rtl_strbuf_get_buffer sb)
                     (ucast (rtl_strbuf_get_size (mem s) sb)) 0 sa (local_var N) s of (result, s) \<Rightarrow>
              if 0 \<le> sint result
              then Inr (sb, s\<lparr>mem := rtl_strbuf_set_length (mem s) sb (ucast result)\<rparr>)
              else bind_res (returns (rtl_strbuf_free sb s)) (\<lambda>s. Inr (0, s))))"

definition thunkproc_socket_recv :: "'k native \<Rightarrow> 'k thunk" where
  "thunkproc_socket_recv N = with_args 2 (\<lambda>args s ctx.
     bind_res (socket_recvfrom N (args ! 0) (args ! 1) 0 s) (\<lambda>(sb, s). thunk_return sb s ctx))"

definition thunkproc_socket_recvfrom :: "'k native \<Rightarrow> 'k thunk" where
  "thunkproc_socket_recvfrom N = with_args 3 (\<lambda>args s ctx.
     bind_res (socket_recvfrom N (args ! 0) (args ! 1) (args ! 2) s) (\<lambda>(sb, s). thunk_return sb s ctx))"

definition thunkproc_socket_shutdown :: "'k native \<Rightarrow> 'k thunk" where
  "thunkproc_socket_shutdown N = return_call (\<lambda>args.
     sys_shutdown (native_kernel N) (call_args N) (args ! 0) (args ! 1)) 2"

section \<open>Names and hashes\<close>

text \<open>\<open>make_hash\<close> of \<open>vm_gen_thunks.pl\<close>, on the bytes of the name.\<close>

definition make_hash :: "u8 list \<Rightarrow> u32" where
  "make_hash name = foldl (\<lambda>hash ch. (hash * 61 + ucast ch) XOR drop_bit 16 hash) 0 name"

definition ascii :: "string \<Rightarrow> u8 list" where
  "ascii cs = map (\<lambda>c. of_nat (of_char c)) cs"

text \<open>Every native procedure with its name, in the order of the generated table.\<close>

definition native_procs :: "(string \<times> ('k native \<Rightarrow> 'k thunk)) list" where
  "native_procs =
    [(''rtl_alloc'', thunkproc_rtl_alloc), (''rtl_realloc'', thunkproc_rtl_realloc),
     (''rtl_free'', thunkproc_rtl_free), (''rtl_memset'', thunkproc_rtl_memset),
     (''rtl_memcpy'', thunkproc_rtl_memcpy), (''rtl_strbuf_alloc'', thunkproc_rtl_strbuf_alloc),
     (''rtl_strbuf_free'', thunkproc_rtl_strbuf_free), (''rtl_strbuf_get_length'', thunkproc_rtl_strbuf_get_length),
     (''rtl_strbuf_get_size'', thunkproc_rtl_strbuf_get_size), (''rtl_strbuf_get_buffer'', thunkproc_rtl_strbuf_get_buffer),
     (''rtl_strbuf_set_length'', thunkproc_rtl_strbuf_set_length), (''rtl_strbuf_resize'', thunkproc_rtl_strbuf_resize),
     (''rtl_print_fd'', thunkproc_rtl_print_fd), (''rtl_print_sb'', thunkproc_rtl_print_sb),
     (''rtl_nswapl'', thunkproc_rtl_nswapl), (''rtl_nswaps'', thunkproc_rtl_nswaps),
     (''sockaddr_create'', thunkproc_sockaddr_create), (''sockaddr_get_ip'', thunkproc_sockaddr_get_ip),
     (''sockaddr_get_port'', thunkproc_sockaddr_get_port), (''socket_create'', thunkproc_socket_create),
     (''socket_set_blocking'', thunkproc_socket_set_blocking), (''socket_bind'', thunkproc_socket_bind),
     (''socket_listen'', thunkproc_socket_listen), (''socket_accept'', thunkproc_socket_accept),
     (''socket_connect'', thunkproc_socket_connect), (''socket_send'', thunkproc_socket_send),
     (''socket_sendto'', thunkproc_socket_sendto), (''socket_recv'', thunkproc_socket_recv),
     (''socket_recvfrom'', thunkproc_socket_recvfrom), (''socket_shutdown'', thunkproc_socket_shutdown),
     (''fdset_create'', thunkproc_fdset_create), (''fdset_set'', thunkproc_fdset_set),
     (''fdset_clear'', thunkproc_fdset_clear), (''fdset_check'', thunkproc_fdset_check),
     (''io_select'', thunkproc_io_select), (''sys_exit'', thunkproc_sys_exit),
     (''sys_time'', thunkproc_sys_time), (''io_open'', thunkproc_io_open),
     (''io_read'', thunkproc_io_read), (''io_write'', thunkproc_io_write),
     (''io_close'', thunkproc_io_close), (''io_ioctl'', thunkproc_io_ioctl)]"

definition native_names :: "string list" where
  "native_names = map fst (native_procs :: (string \<times> (unit native \<Rightarrow> unit thunk)) list)"

text \<open>The table of \<open>vm_thunks\<close>: hash and address of each procedure; the linker gives the addresses.\<close>

definition vm_thunks :: "(string \<Rightarrow> u32) \<Rightarrow> (u32 \<times> u32) list" where
  "vm_thunks address = map (\<lambda>name. (make_hash (ascii name), address name)) native_names"

fun vm_lookup_thunk :: "(u32 \<times> u32) list \<Rightarrow> u32 \<Rightarrow> u32" where
  "vm_lookup_thunk [] hash = 0"
| "vm_lookup_thunk ((h, proc) # table) hash = (if h = hash then proc else vm_lookup_thunk table hash)"

text \<open>The hashes in the generated table; no two are the same.\<close>

definition native_hashes :: "nat list" where
  "native_hashes =
    [0xC4F1134D, 0xAE1C67C0, 0xEA26E78E, 0xB6AE5920, 0xB6AD7C4C, 0x606062F5,
     0x128B4B25, 0xF1303C99, 0xECA79037, 0xEC780EA9, 0x1811F29E, 0x04BD92F5,
     0xE78074F8, 0xE7807B2B, 0x089C09EE, 0x089C09F7, 0xCC26EE70, 0x8CE7FB2E,
     0x17E45C6D, 0x0E4B19B6, 0xAAC8D7D5, 0x6BA7F155, 0x60A51431, 0xC438DFA4,
     0x16B395F8, 0x6E1D828C, 0x8B042F40, 0x6DD550D1, 0x9B4BD49B, 0x45D60AC9,
     0x54F66999, 0xEBE64C84, 0xF1801C85, 0xF1EAC4A9, 0x042FD4EE, 0xF3A2F67B,
     0xF35D7229, 0xAB88FFF7, 0xAB9F416A, 0xDF6F18B0, 0xD817841C, 0xD59C9A76]"

lemma native_hash_values: "map (make_hash \<circ> ascii) native_names = map of_nat native_hashes"
  by (simp add: native_names_def native_procs_def native_hashes_def make_hash_def ascii_def)

lemma hashes_distinct: "distinct (map (make_hash \<circ> ascii) native_names)"
proof -
  have "distinct native_hashes" by (simp add: native_hashes_def)
  moreover have "\<forall>h \<in> set native_hashes. h < 2 ^ 32" by (simp add: native_hashes_def)
  moreover have "inj_on (of_nat :: nat \<Rightarrow> u32) {..<2 ^ 32}"
    by (rule inj_onI) (auto dest!: arg_cong [where f = unat] simp: unat_of_nat)
  ultimately show ?thesis
    unfolding native_hash_values distinct_map by (auto intro: inj_on_subset)
qed

lemma lookup_distinct:
  "distinct (map h xs) \<Longrightarrow> x \<in> set xs \<Longrightarrow> vm_lookup_thunk (map (\<lambda>x. (h x, f x)) xs) (h x) = f x"
  by (induction xs) auto

end
