(* ===== verification/Native_Effect.thy ===== *)
theory Native_Effect
  imports VM_Sockets VM_Effect
begin

text \<open>
  The stack effect of the native procedures, and the laws of the descriptor sets and of the
  byte order conversions.
\<close>

section \<open>Stack effect\<close>

text \<open>\<open>leaves n r\<close>: \<open>n\<close> words are gone from the data stack and \<open>r\<close> are there instead; the bounds of the
  stack and the rest of the context are as before.\<close>

definition leaves :: "nat \<Rightarrow> nat \<Rightarrow> vm_context_t \<Rightarrow> vm_context_t \<Rightarrow> bool" where
  "leaves n r ctx ctx' \<longleftrightarrow> stack_ok (dstack ctx') \<and> n \<le> depth (dstack ctx)
     \<and> bottom (dstack ctx') = bottom (dstack ctx) \<and> limit (dstack ctx') = limit (dstack ctx)
     \<and> depth (dstack ctx') + n = depth (dstack ctx) + r \<and> ctx' = ctx\<lparr>dstack := dstack ctx'\<rparr>"

lemma leaves_trans: "leaves 0 a c c1 \<Longrightarrow> leaves 0 b c1 c2 \<Longrightarrow> leaves 0 (a + b) c c2"
  by (cases c; cases c1; cases c2) (auto simp: leaves_def)

definition thunk_effect :: "nat \<Rightarrow> nat \<Rightarrow> 'k thunk \<Rightarrow> bool" where
  "thunk_effect n r thunk \<longleftrightarrow> (\<forall>s ctx s' ctx'. stack_ok (dstack ctx) \<and> thunk s ctx = Inr (s', ctx') \<longrightarrow> leaves n r ctx ctx')"

lemma thunk_effectI:
  "(\<And>s ctx s' ctx'. stack_ok (dstack ctx) \<Longrightarrow> thunk s ctx = Inr (s', ctx') \<Longrightarrow> leaves n r ctx ctx') \<Longrightarrow> thunk_effect n r thunk"
  by (auto simp: thunk_effect_def)

lemma leaves_refl: "stack_ok (dstack ctx) \<Longrightarrow> leaves 0 0 ctx ctx"
  by (simp add: leaves_def)

lemma thunk_return_leaves:
  assumes run: "thunk_return w s ctx = Inr (s', ctx')" and ok: "stack_ok (dstack ctx)"
  shows "leaves 0 (Suc 0) ctx ctx'"
proof -
  from run obtain m st where p: "vm_stack_push3 (mem s) (dstack ctx) [w] = Inr (m, st)" "ctx' = ctx\<lparr>dstack := st\<rparr>"
    by (auto simp: thunk_return_def vm_stack_push_def result_simps)
  have "depth (dstack ctx) + length [w] \<le> capacity (dstack ctx)"
    using p(1) push3_overflow [OF ok, of "[w]" "mem s"] by (cases "capacity (dstack ctx) < depth (dstack ctx) + length [w]") auto
  then show ?thesis using push3_words [OF ok _ _ p(1)] p(2) by (simp add: leaves_def)
qed

lemma effect_return: "thunk_effect 0 1 (thunk_return w)"
  by (auto simp: thunk_effect_def dest: thunk_return_leaves)

lemma effect_with_args:
  assumes "\<And>args. thunk_effect 0 r (f args)" "n \<le> 0x4000"
  shows "thunk_effect n r (with_args n f)"
proof (rule thunk_effectI)
  fix s ctx s' ctx'
  assume ok: "stack_ok (dstack ctx)" and run: "with_args n f s ctx = Inr (s', ctx')"
  then obtain args st where p: "vm_stack_pop3 (mem s) (dstack ctx) n = Inr (args, st)"
      and b: "f args s (ctx\<lparr>dstack := st\<rparr>) = Inr (s', ctx')"
    by (auto simp: with_args_def result_simps)
  have n: "n \<le> depth (dstack ctx)" using pop3_underflow [OF ok _ assms(2), of "mem s"] p by (cases "depth (dstack ctx) < n") auto
  then have st: "stack_ok st" "depth st = depth (dstack ctx) - n" "bottom st = bottom (dstack ctx)" "limit st = limit (dstack ctx)"
    using pop3_fits(1) [OF ok n, of "mem s"] pop3_fits(3,4) [OF ok n] p by auto
  then have "leaves 0 r (ctx\<lparr>dstack := st\<rparr>) ctx'" using assms(1) b unfolding thunk_effect_def by fastforce
  then show "leaves n r ctx ctx'" using n st by (auto simp: leaves_def)
qed

lemma effect_bind:
  assumes "\<And>x. thunk_effect 0 r (f x)"
  shows "thunk_effect 0 r (\<lambda>s ctx. bind_res (g s) (\<lambda>(x, s). f x s ctx))"
  using assms by (auto simp: thunk_effect_def result_simps)

lemma effect_bind_state:
  assumes "thunk_effect 0 r f"
  shows "thunk_effect 0 r (\<lambda>s ctx. bind_res (g s) (\<lambda>s. f s ctx))"
  using assms by (auto simp: thunk_effect_def result_simps)

lemma effect_done: "thunk_effect 0 0 (\<lambda>s ctx. Inr (g s, ctx))"
  by (auto simp: thunk_effect_def leaves_refl)

lemma effect_stop: "thunk_effect n r (\<lambda>s ctx. Inl (e s ctx))"
  by (simp add: thunk_effect_def)

lemma effect_update:
  assumes "thunk_effect 0 r f"
  shows "thunk_effect 0 r (\<lambda>s ctx. f (g s) ctx)"
  using assms by (auto simp: thunk_effect_def)

lemma effect_call:
  assumes "\<And>x. thunk_effect 0 r (f x)"
  shows "thunk_effect 0 r (\<lambda>s ctx. case g s of (x, s) \<Rightarrow> f x s ctx)"
  using assms by (auto simp: thunk_effect_def split: prod.splits)

lemma effect_of_state:
  assumes "\<And>x. thunk_effect 0 r (f x)"
  shows "thunk_effect 0 r (\<lambda>s ctx. f (g s) s ctx)"
  using assms by (auto simp: thunk_effect_def)

lemma effect_bind_value:
  assumes "\<And>x. thunk_effect 0 r (f x)"
  shows "thunk_effect 0 r (\<lambda>s ctx. bind_res e (\<lambda>x. f x s ctx))"
  using assms by (auto simp: thunk_effect_def result_simps)

text \<open>Three of the 42 procedures are not listed: the two that print take as many words as the format
  asks for, and \<open>io_read\<close> leaves one word or, after an error, two.\<close>

definition native_effect :: "(nat \<times> nat \<times> ('k native \<Rightarrow> 'k thunk)) list" where
  "native_effect =
    [(1, 1, thunkproc_rtl_alloc), (2, 1, thunkproc_rtl_realloc), (1, 0, thunkproc_rtl_free),
     (3, 0, thunkproc_rtl_memset), (3, 0, thunkproc_rtl_memcpy), (1, 1, thunkproc_rtl_strbuf_alloc),
     (1, 0, thunkproc_rtl_strbuf_free), (1, 1, thunkproc_rtl_strbuf_get_length), (1, 1, thunkproc_rtl_strbuf_get_size),
     (1, 1, thunkproc_rtl_strbuf_get_buffer), (2, 0, thunkproc_rtl_strbuf_set_length), (2, 1, thunkproc_rtl_strbuf_resize),
     (1, 1, thunkproc_rtl_nswapl), (1, 1, thunkproc_rtl_nswaps), (2, 1, thunkproc_sockaddr_create),
     (1, 1, thunkproc_sockaddr_get_ip), (1, 1, thunkproc_sockaddr_get_port), (2, 1, thunkproc_socket_create),
     (2, 1, thunkproc_socket_set_blocking), (2, 1, thunkproc_socket_bind), (2, 1, thunkproc_socket_listen),
     (2, 1, thunkproc_socket_accept), (2, 1, thunkproc_socket_connect), (2, 1, thunkproc_socket_send),
     (3, 1, thunkproc_socket_sendto), (2, 1, thunkproc_socket_recv), (3, 1, thunkproc_socket_recvfrom),
     (2, 1, thunkproc_socket_shutdown), (0, 1, thunkproc_fdset_create), (2, 0, thunkproc_fdset_set),
     (2, 0, thunkproc_fdset_clear), (2, 1, thunkproc_fdset_check), (4, 1, thunkproc_io_select),
     (1, 0, thunkproc_sys_exit), (0, 1, thunkproc_sys_time), (3, 1, thunkproc_io_open),
     (2, 1, thunkproc_io_write), (1, 0, thunkproc_io_close), (3, 1, thunkproc_io_ioctl)]"

lemma effect_rtl:
  "thunk_effect 1 1 (thunkproc_rtl_alloc N)" "thunk_effect 2 1 (thunkproc_rtl_realloc N)"
  "thunk_effect 1 0 (thunkproc_rtl_free N)" "thunk_effect 3 0 (thunkproc_rtl_memset N)"
  "thunk_effect 3 0 (thunkproc_rtl_memcpy N)" "thunk_effect 1 1 (thunkproc_rtl_strbuf_alloc N)"
  "thunk_effect 1 0 (thunkproc_rtl_strbuf_free N)" "thunk_effect 1 1 (thunkproc_rtl_strbuf_get_length N)"
  "thunk_effect 1 1 (thunkproc_rtl_strbuf_get_size N)" "thunk_effect 1 1 (thunkproc_rtl_strbuf_get_buffer N)"
  "thunk_effect 2 0 (thunkproc_rtl_strbuf_set_length N)" "thunk_effect 2 1 (thunkproc_rtl_strbuf_resize N)"
  unfolding thunkproc_rtl_alloc_def thunkproc_rtl_realloc_def thunkproc_rtl_free_def thunkproc_rtl_memset_def
    thunkproc_rtl_memcpy_def thunkproc_rtl_strbuf_alloc_def thunkproc_rtl_strbuf_free_def
    thunkproc_rtl_strbuf_get_length_def thunkproc_rtl_strbuf_get_size_def thunkproc_rtl_strbuf_get_buffer_def
    thunkproc_rtl_strbuf_set_length_def thunkproc_rtl_strbuf_resize_def
  by (rule effect_with_args, (rule effect_bind effect_bind_state effect_done effect_return
        effect_of_state [where f = thunk_return, OF effect_return])+, simp)+

lemma effect_calls:
  assumes "n \<le> 0x4000"
  shows "thunk_effect n 1 (return_call call n)"
  unfolding return_call_def by (intro effect_with_args effect_call effect_return assms)

lemma effect_misc_io:
  "thunk_effect 1 0 (thunkproc_sys_exit N)" "thunk_effect 0 1 (thunkproc_sys_time N)"
  "thunk_effect 3 1 (thunkproc_io_open N)" "thunk_effect 2 1 (thunkproc_io_write N)"
  "thunk_effect 1 0 (thunkproc_io_close N)" "thunk_effect 3 1 (thunkproc_io_ioctl N)"
proof -
  show "thunk_effect 1 0 (thunkproc_sys_exit N)"
    unfolding thunkproc_sys_exit_def sys_exit_def by (rule effect_with_args) (rule effect_stop, simp)
  show "thunk_effect 0 1 (thunkproc_sys_time N)"
    by (auto simp: thunkproc_sys_time_def thunk_effect_def Let_def thunk_return_leaves)
  show "thunk_effect 3 1 (thunkproc_io_open N)"
    unfolding thunkproc_io_open_def
    by (intro effect_with_args) (auto simp: thunk_effect_def thunk_return_leaves split: prod.splits)
  show "thunk_effect 2 1 (thunkproc_io_write N)" "thunk_effect 3 1 (thunkproc_io_ioctl N)"
    unfolding thunkproc_io_write_def thunkproc_io_ioctl_def
    by (intro effect_with_args effect_call effect_return, simp)+
  show "thunk_effect 1 0 (thunkproc_io_close N)"
    unfolding thunkproc_io_close_def by (intro effect_with_args effect_done) simp
qed

lemma effect_select:
  "thunk_effect 0 1 (thunkproc_fdset_create N)" "thunk_effect 2 0 (thunkproc_fdset_set N)"
  "thunk_effect 2 0 (thunkproc_fdset_clear N)" "thunk_effect 2 1 (thunkproc_fdset_check N)"
  "thunk_effect 4 1 (thunkproc_io_select N)"
proof -
  show "thunk_effect 0 1 (thunkproc_fdset_create N)"
    by (auto simp: thunkproc_fdset_create_def thunk_effect_def result_simps dest: thunk_return_leaves)
  show "thunk_effect 2 0 (thunkproc_fdset_set N)" "thunk_effect 2 0 (thunkproc_fdset_clear N)"
    unfolding thunkproc_fdset_set_def thunkproc_fdset_clear_def
    by (rule effect_with_args; force simp: thunk_effect_def result_simps Let_def leaves_refl)+
  show "thunk_effect 2 1 (thunkproc_fdset_check N)" "thunk_effect 4 1 (thunkproc_io_select N)"
    unfolding thunkproc_fdset_check_def thunkproc_io_select_def
    by (rule effect_with_args; force simp: thunk_effect_def result_simps Let_def split: prod.splits dest: thunk_return_leaves)+
qed

lemma effect_sockets:
  "thunk_effect 1 1 (thunkproc_rtl_nswapl N)" "thunk_effect 1 1 (thunkproc_rtl_nswaps N)"
  "thunk_effect 2 1 (thunkproc_sockaddr_create N)" "thunk_effect 1 1 (thunkproc_sockaddr_get_ip N)"
  "thunk_effect 1 1 (thunkproc_sockaddr_get_port N)" "thunk_effect 2 1 (thunkproc_socket_create N)"
  "thunk_effect 2 1 (thunkproc_socket_set_blocking N)" "thunk_effect 2 1 (thunkproc_socket_bind N)"
  "thunk_effect 2 1 (thunkproc_socket_listen N)" "thunk_effect 2 1 (thunkproc_socket_accept N)"
  "thunk_effect 2 1 (thunkproc_socket_connect N)" "thunk_effect 2 1 (thunkproc_socket_send N)"
  "thunk_effect 3 1 (thunkproc_socket_sendto N)" "thunk_effect 2 1 (thunkproc_socket_recv N)"
  "thunk_effect 3 1 (thunkproc_socket_recvfrom N)" "thunk_effect 2 1 (thunkproc_socket_shutdown N)"
proof -
  show "thunk_effect 1 1 (thunkproc_rtl_nswapl N)" "thunk_effect 1 1 (thunkproc_rtl_nswaps N)"
    unfolding thunkproc_rtl_nswapl_def thunkproc_rtl_nswaps_def
    by (intro effect_with_args effect_return, simp)+
  show "thunk_effect 2 1 (thunkproc_sockaddr_create N)"
    unfolding thunkproc_sockaddr_create_def
    by (intro effect_with_args) (auto simp: thunk_effect_def result_simps Let_def dest: thunk_return_leaves)
  show "thunk_effect 1 1 (thunkproc_sockaddr_get_ip N)" "thunk_effect 1 1 (thunkproc_sockaddr_get_port N)"
    unfolding thunkproc_sockaddr_get_ip_def thunkproc_sockaddr_get_port_def
    by (rule effect_with_args; force simp: thunk_effect_def dest: thunk_return_leaves)+
  show "thunk_effect 2 1 (thunkproc_socket_set_blocking N)"
    unfolding thunkproc_socket_set_blocking_def
    by (intro effect_with_args) (auto simp: thunk_effect_def result_simps Let_def split: prod.splits dest: thunk_return_leaves)
  show "thunk_effect 2 1 (thunkproc_socket_recv N)" "thunk_effect 3 1 (thunkproc_socket_recvfrom N)"
    unfolding thunkproc_socket_recv_def thunkproc_socket_recvfrom_def
    by (intro effect_with_args effect_bind effect_return, simp)+
qed (unfold thunkproc_socket_create_def thunkproc_socket_bind_def thunkproc_socket_listen_def
    thunkproc_socket_accept_def thunkproc_socket_connect_def thunkproc_socket_send_def
    thunkproc_socket_sendto_def thunkproc_socket_shutdown_def, (rule effect_calls, simp)+)

lemmas native_effects = effect_rtl effect_misc_io effect_select effect_sockets

lemma native_effect_ok: "(n, r, proc) \<in> set native_effect \<Longrightarrow> thunk_effect n r (proc N)"
  unfolding native_effect_def by (auto simp del: One_nat_def simp: native_effects)

section \<open>Byte order\<close>

lemma rtl_htonl_bits:
  "n < 8 \<Longrightarrow> bit (rtl_htonl x) n \<longleftrightarrow> bit x (24 + n)"
  "8 \<le> n \<Longrightarrow> n < 16 \<Longrightarrow> bit (rtl_htonl x) n \<longleftrightarrow> bit x (8 + n)"
  "16 \<le> n \<Longrightarrow> n < 24 \<Longrightarrow> bit (rtl_htonl x) n \<longleftrightarrow> bit x (n - 8)"
  "24 \<le> n \<Longrightarrow> n < 32 \<Longrightarrow> bit (rtl_htonl x) n \<longleftrightarrow> bit x (n - 24)"
proof -
  have m: "0xFF = (mask 8 :: u32)" "0xFF00 = (push_bit 8 (mask 8) :: u32)" "0xFF0000 = (push_bit 16 (mask 8) :: u32)"
      "0xFF000000 = (push_bit 24 (mask 8) :: u32)"
    by (simp_all add: mask_eq_exp_minus_1 push_bit_eq_mult)
  show "n < 8 \<Longrightarrow> bit (rtl_htonl x) n \<longleftrightarrow> bit x (24 + n)"
    "8 \<le> n \<Longrightarrow> n < 16 \<Longrightarrow> bit (rtl_htonl x) n \<longleftrightarrow> bit x (8 + n)"
    "16 \<le> n \<Longrightarrow> n < 24 \<Longrightarrow> bit (rtl_htonl x) n \<longleftrightarrow> bit x (n - 8)"
    "24 \<le> n \<Longrightarrow> n < 32 \<Longrightarrow> bit (rtl_htonl x) n \<longleftrightarrow> bit x (n - 24)"
    unfolding rtl_htonl_def m by (auto simp: bit_simps)
qed

lemma rtl_htonl_involution: "rtl_htonl (rtl_htonl x) = x"
proof (rule bit_word_eqI)
  fix n assume "n < LENGTH(32)"
  then consider "n < 8" | "8 \<le> n" "n < 16" | "16 \<le> n" "n < 24" | "24 \<le> n" "n < 32" by fastforce
  then show "bit (rtl_htonl (rtl_htonl x)) n \<longleftrightarrow> bit x n"
    by cases (simp_all add: rtl_htonl_bits)
qed

end
