(* ===== verification/VM_Loader.thy ===== *)
theory VM_Loader
  imports VM_Sockets
begin

text \<open>
  Loading an image (\<open>src/vm/vm_loader.c\<close>) and the main program of the virtual machine
  (\<open>src/main.c\<close>), for a little-endian target. The header fields are read into local variables,
  which lie one behind the other from \<open>lv\<close> on; the module header is a record. Debug prints are
  left out.
\<close>

section \<open>Reading the image\<close>

definition read_exactly :: "'k kernel \<Rightarrow> u32 \<Rightarrow> string \<Rightarrow> u32 \<Rightarrow> u32 \<Rightarrow> 'k machine \<Rightarrow> stop + 'k machine" where
  "read_exactly K fd msg buf n s = (case sys_read K fd buf n s of (bytes_read, s) \<Rightarrow>
     if bytes_read \<noteq> n then Inl (Panic msg) else Inr s)"

definition signature_ok :: "memory \<Rightarrow> u32 \<Rightarrow> bool" where
  "signature_ok m p \<longleftrightarrow> \<not> (m p \<noteq> 66 \<or> m (p + 1) \<noteq> 65 \<or> m (p + 2) \<noteq> 82 \<or> m (p + 3) \<noteq> 70)"

definition read_header :: "'k kernel \<Rightarrow> u32 \<Rightarrow> u32 \<Rightarrow> 'k machine \<Rightarrow> stop + 'k machine" where
  "read_header K lv fd s =
     bind_res (read_exactly K fd ''vm_load_fd: input too short.'' lv 4 (snd (sys_lseek K fd 0 0 s))) (\<lambda>s.
     if \<not> signature_ok (mem s) lv then Inl (Panic ''vm_load_fd: invalid input.'')
     else bind_res (read_exactly K fd ''vm_load_fd: failed reading the data.'' (lv + 4) 4 s) (\<lambda>s.
          bind_res (read_exactly K fd ''vm_load_fd: failed reading the data.'' (lv + 8) 4 s) (\<lambda>s.
          bind_res (read_exactly K fd ''vm_load_fd: failed reading the data.'' (lv + 12) 4 s) (\<lambda>s.
          bind_res (read_exactly K fd ''vm_load_fd: failed reading the data.'' (lv + 16) 2 s) (\<lambda>s.
          Inr (snd (sys_lseek K fd 0x20 0 s)))))))"

text \<open>An allocation whose \<open>NULL\<close> stops the machine.\<close>

definition alloc_checked :: "'k kernel \<Rightarrow> string \<Rightarrow> u32 \<Rightarrow> 'k machine \<Rightarrow> stop + u32 \<times> 'k machine" where
  "alloc_checked K msg sz s =
     bind_res (returns (rtl_alloc K sz s)) (\<lambda>(p, s). if p = 0 then Inl (Panic msg) else Inr (p, s))"

text \<open>Each hash in the table is replaced by the address of the procedure.\<close>

primrec fix_ncalls :: "(u32 \<times> u32) list \<Rightarrow> nat \<Rightarrow> u32 \<Rightarrow> memory \<Rightarrow> stop + memory" where
  "fix_ncalls table 0 p m = Inr m"
| "fix_ncalls table (Suc n) p m =
     (let thunk = vm_lookup_thunk table (ld32 m p)
      in if thunk = 0 then Inl (Panic ''vm_load_fd: failed to resolve thunk %08x'')
         else fix_ncalls table n (p + 4) (st32 m p thunk))"

definition load_ncalls :: "'k kernel \<Rightarrow> (u32 \<times> u32) list \<Rightarrow> u32 \<Rightarrow> u16 \<Rightarrow> 'k machine \<Rightarrow> stop + u32 \<times> 'k machine" where
  "load_ncalls K table fd ncalls_count s =
     (if ncalls_count \<noteq> 0
      then let ncalls_size = ucast ncalls_count * 4
           in bind_res (alloc_checked K ''vm_load_fd: failed to alloc ncalls table memory'' ncalls_size s) (\<lambda>(p, s).
              bind_res (read_exactly K fd ''vm_load_fd: failed to read ncalls table: read %d, expected %d'' p ncalls_size s) (\<lambda>s.
              bind_res (fix_ncalls table (unat ncalls_count) p (mem s)) (\<lambda>m. Inr (p, s\<lparr>mem := m\<rparr>))))
      else Inr (0, s))"

definition vm_load_fd :: "'k kernel \<Rightarrow> (u32 \<times> u32) list \<Rightarrow> u32 \<Rightarrow> u32 \<Rightarrow> 'k machine \<Rightarrow> stop + vm_module_t \<times> 'k machine" where
  "vm_load_fd K table lv fd s =
     bind_res (read_header K lv fd s) (\<lambda>s.
     let module_memsize = ld32 (mem s) (lv + 4); module_filesize = ld32 (mem s) (lv + 8);
         ep_offset = ld32 (mem s) (lv + 12); ncalls_count = ld16 (mem s) (lv + 16)
     in bind_res (alloc_checked K ''vm_load_fd: failed to alloc vm_module struct.'' 16 s) (\<lambda>(mo, s).
        bind_res (alloc_checked K ''vm_load_fd: failed to alloc module memory'' module_memsize s) (\<lambda>(b, s).
        bind_res (read_exactly K fd ''vm_load_fd: failed to read module body: read %d, expected %d'' b module_filesize s) (\<lambda>s.
        bind_res (load_ncalls K table fd ncalls_count s) (\<lambda>(t, s).
        Inr (\<lparr>next_module = 0, base = b, entry = b + ep_offset, ncalls_table = t\<rparr>, s))))))"

section \<open>The main program\<close>

text \<open>The addresses of the two messages \<open>main\<close> prints.\<close>

record messages =
  msg_no_file :: u32
  msg_reading :: u32

text \<open>Up to the loop: the state in which the first instruction runs, or the value \<open>main\<close> returns.\<close>

definition main_start ::
  "'k vm_env \<Rightarrow> print_context_t \<Rightarrow> messages \<Rightarrow> (u32 \<times> u32) list \<Rightarrow> u32 \<Rightarrow> u32 list \<Rightarrow> 'k machine
    \<Rightarrow> stop + u32 + 'k machine \<times> vm_context_t" where
  "main_start E frame msgs table lv argv s =
     (let K = kernel E in case argv of
        [] \<Rightarrow> bind_res (rtl_print_fd K frame 2 (msg_no_file msgs) (\<lambda>_. 0) s) (\<lambda>(r, s). Inr (Inl 1))
      | path # rest \<Rightarrow>
          bind_res (rtl_print_fd K frame 2 (msg_reading msgs) (\<lambda>_. path) s) (\<lambda>(r, s).
          case sys_open K path 0 0 s of (fd, s) \<Rightarrow>
          if sint fd < 0 then Inl (Panic ''vm_load_exec: failed to open the image.'')
          else bind_res (vm_load_fd K table lv fd s) (\<lambda>(mo, s).
               bind_res (vm_context_create E mo (snd (sys_close K fd s))) (\<lambda>(s, ctx). Inr (Inr (s, ctx))))))"

text \<open>The first \<open>n\<close> instructions of a program.\<close>

definition main_run ::
  "'k vm_env \<Rightarrow> print_context_t \<Rightarrow> messages \<Rightarrow> (u32 \<times> u32) list \<Rightarrow> u32 \<Rightarrow> u32 list \<Rightarrow> nat \<Rightarrow> (nat \<Rightarrow> nat \<Rightarrow> u32)
    \<Rightarrow> 'k machine \<Rightarrow> stop + u32 + 'k machine \<times> vm_context_t" where
  "main_run E frame msgs table lv argv n junk s =
     bind_res (main_start E frame msgs table lv argv s) (\<lambda>r. case r of
       Inl code \<Rightarrow> Inr (Inl code)
     | Inr (s, ctx) \<Rightarrow> bind_res (vm_run n E junk s ctx) (\<lambda>x. Inr (Inr x)))"

end
