(* ===== verification/Native_Correct.thy ===== *)
theory Native_Correct
  imports Native_Effect VM_Loader VM_Frames Runtime_Correct
begin

text \<open>
  The properties of the native procedures, with runs on a small context whose data stack is at
  \<open>0x20000\<close>.
\<close>

section \<open>Descriptor sets\<close>

definition in_fdset :: "memory \<Rightarrow> u32 \<Rightarrow> nat \<Rightarrow> bool" where
  "in_fdset m fds k \<longleftrightarrow> bit (ld32 m (fds + 4 * of_nat (k div 32))) (k mod 32)"

lemma sdiv_nat: "int n sdiv 32 = int (n div 32)"
  by (cases "n = 0") (simp_all add: signed_divide_int_def zdiv_int sgn_if)

lemma smod_nat: "int n smod 32 = int (n mod 32)"
  by (cases "n = 0") (simp_all add: signed_modulo_int_def zmod_int sgn_if)

lemma fd_small:
  assumes "unat fd < 1024"
  shows "fd_word False fds fd = fds + 4 * of_nat (unat fd div 32)" "fd_mask fd = Inr (push_bit (unat fd mod 32) 1)"
proof -
  have s: "sint fd = int (unat fd)"
  proof -
    have "2 ^ (LENGTH(32) - Suc 0) = (2147483648 :: int)" by simp
    moreover have "0 \<le> int (unat fd)" "int (unat fd) < 1024" using assms by linarith+
    ultimately show ?thesis
      unfolding sint_uint uint_nat One_nat_def by (intro signed_take_bit_int_eq_self) linarith+
  qed
  note q = sdiv_nat [of "unat fd"] and r = smod_nat [of "unat fd"]
  show "fd_word False fds fd = fds + 4 * of_nat (unat fd div 32)"
    unfolding fd_word_def s q by (simp only: if_False of_int_of_nat_eq)
  show "fd_mask fd = Inr (push_bit (unat fd mod 32) 1)"
    unfolding fd_mask_def s r by (simp only: nat_int of_nat_less_0_iff if_False)
qed

text \<open>The word of a set with one bit put in or taken out.\<close>

definition fd_updated :: "bool \<Rightarrow> u32 \<Rightarrow> u32 \<Rightarrow> u32" where
  "fd_updated now v k = (if now then v OR k else v AND NOT k)"

lemma fdset_word_update:
  assumes "aligned 4 fds" "i < 1024" "k < 1024"
  shows "in_fdset (st32 m (fds + 4 * of_nat (i div 32)) (fd_updated now (ld32 m (fds + 4 * of_nat (i div 32))) (push_bit (i mod 32) 1))) fds k
    \<longleftrightarrow> (if k = i then now else in_fdset m fds k)"
proof (cases "k div 32 = i div 32")
  case True
  then have "k = i \<longleftrightarrow> k mod 32 = i mod 32" by (metis div_mult_mod_eq)
  then show ?thesis using True by (auto simp: in_fdset_def fd_updated_def bit_simps)
next
  case False
  have "k div 32 < 32" "i div 32 < 32" using assms by auto
  then have "(4 * of_nat (k div 32) :: u32) \<noteq> 4 * of_nat (i div 32)"
    using False by (auto simp: word_unat_eq_iff unat_word_ariths unat_of_nat)
  then have "region (fds + 4 * of_nat (i div 32)) 4 \<inter> region (fds + 4 * of_nat (k div 32)) 4 = {}"
    using assms(1) by (intro aligned_regions_disjoint aligned_add4) auto
  then show ?thesis using False by (auto simp: in_fdset_def ld32_st32_disjoint)
qed

text \<open>A procedure takes two arguments off a stack that holds them.\<close>

lemma pop_two:
  assumes ok: "stack_ok st" and words: "stack_words m st = a # b # ws"
  defines "st' \<equiv> st\<lparr>top := top st + 4 * of_nat 2\<rparr>"
  shows "vm_stack_pop3 m st 2 = Inr ([a, b], st')" "stack_ok st'" "depth st' = length ws" "stack_words m st' = ws"
    "capacity st' = capacity st" "length ws + 2 \<le> capacity st" "stack_bytes st' = stack_bytes st"
proof -
  have d: "depth st = length ws + 2" using arg_cong [OF words, of length] by simp
  show "vm_stack_pop3 m st 2 = Inr ([a, b], st')" "stack_words m st' = ws"
    using pop3_fits(1,2) [OF ok, of 2 m] d words by (simp_all add: st'_def numeral_2_eq_2)
  show "stack_ok st'" "depth st' = length ws" using pop3_fits(3,4) [OF ok, of 2] d by (simp_all add: st'_def)
  show "capacity st' = capacity st" "length ws + 2 \<le> capacity st" "stack_bytes st' = stack_bytes st"
    using depth_le_capacity [OF ok] d by (simp_all add: st'_def capacity_def stack_bytes_def)
qed

text \<open>A result that fits is pushed.\<close>

lemma return_fits:
  assumes ok: "stack_ok (dstack ctx)" and room: "depth (dstack ctx) < capacity (dstack ctx)"
  obtains m st where "thunk_return w s ctx = Inr (s\<lparr>mem := m\<rparr>, ctx\<lparr>dstack := st\<rparr>)"
    "stack_words m st = w # stack_words (mem s) (dstack ctx)" "stack_ok st" "depth st = Suc (depth (dstack ctx))"
    "capacity st = capacity (dstack ctx)" "stack_bytes st = stack_bytes (dstack ctx)"
    "\<And>x. x \<notin> stack_bytes (dstack ctx) \<Longrightarrow> m x = mem s x"
proof (cases rule: push_cases [OF ok, of "mem s" w])
  case (1 m st)
  then show thesis
    by (intro that [of m st]) (simp_all add: thunk_return_def capacity_same [OF 1(5,6)] stack_bytes_same [OF 1(5,6)])
next
  case 2
  then show thesis using room by simp
qed

lemma fdset_updates:
  assumes ok: "stack_ok (dstack ctx)" and words: "stack_words (mem s) (dstack ctx) = fds # fd # ws"
    and small: "unat fd < 1024" and plain: "\<not> fortified N"
    and upd: "(proc, now) \<in> {(thunkproc_fdset_set, True), (thunkproc_fdset_clear, False)}"
  shows "proc N s ctx = Inr (s\<lparr>mem := st32 (mem s) (fds + 4 * of_nat (unat fd div 32))
      (fd_updated now (ld32 (mem s) (fds + 4 * of_nat (unat fd div 32))) (push_bit (unat fd mod 32) 1))\<rparr>,
    ctx\<lparr>dstack := (dstack ctx)\<lparr>top := top (dstack ctx) + 4 * of_nat 2\<rparr>\<rparr>)"
  using pop_two(1) [OF ok words] plain small upd
  by (auto simp: thunkproc_fdset_set_def thunkproc_fdset_clear_def with_args_def fd_small fd_updated_def Let_def simp del: of_nat_numeral)

lemma fd_word_inside:
  assumes "unat fd < 1024" shows "region (fds + 4 * of_nat (unat fd div 32)) 4 \<subseteq> region fds 128"
proof
  fix x assume "x \<in> region (fds + 4 * of_nat (unat fd div 32)) 4"
  then obtain j where j: "j < 4" "x = fds + 4 * of_nat (unat fd div 32) + of_nat j" by (auto simp: region_iff)
  have "unat fd div 32 < 32" using assms by auto
  then have "x = fds + of_nat (4 * (unat fd div 32) + j)" "4 * (unat fd div 32) + j < 128"
    using j by (auto simp: add.assoc)
  then show "x \<in> region fds 128" by (auto simp: region_iff)
qed

text \<open>C24. \<open>fdset_set\<close> and \<open>fdset_clear\<close> on a descriptor below 1024 put it into the set and take it out,
  change no other such descriptor and nothing outside the set; a \<open>fdset_check\<close> that follows leaves
  the answer for its descriptor on the stack. The macros are the plain ones and the set lies
  outside the data stack.\<close>

theorem fdset_update_then_check:
  assumes ok: "stack_ok (dstack ctx)" and words: "stack_words (mem s) (dstack ctx) = fds # fd # fds # fd' # ws"
    and small: "unat fd < 1024" "unat fd' < 1024" and plain: "\<not> fortified N" and al: "aligned 4 fds"
    and apart: "region fds 128 \<inter> stack_bytes (dstack ctx) = {}"
    and upd: "(proc, now) \<in> {(thunkproc_fdset_set, True), (thunkproc_fdset_clear, False)}"
  shows "\<exists>s1 ctx1 s2 ctx2. proc N s ctx = Inr (s1, ctx1)
    \<and> (\<forall>k < 1024. in_fdset (mem s1) fds k \<longleftrightarrow> (if k = unat fd then now else in_fdset (mem s) fds k))
    \<and> (\<forall>x. x \<notin> region fds 128 \<longrightarrow> mem s1 x = mem s x)
    \<and> thunkproc_fdset_check N s1 ctx1 = Inr (s2, ctx2)
    \<and> stack_words (mem s2) (dstack ctx2) = c_bool (if fd' = fd then now else in_fdset (mem s) fds (unat fd')) # ws"
proof -
  let ?w = "fds + 4 * of_nat (unat fd div 32)"
  let ?m1 = "st32 (mem s) ?w (fd_updated now (ld32 (mem s) ?w) (push_bit (unat fd mod 32) 1))"
  let ?st1 = "(dstack ctx)\<lparr>top := top (dstack ctx) + 4 * of_nat 2\<rparr>"
  note one = pop_two [OF ok words]
  have run1: "proc N s ctx = Inr (s\<lparr>mem := ?m1\<rparr>, ctx\<lparr>dstack := ?st1\<rparr>)"
    by (rule fdset_updates [OF ok words small(1) plain upd])
  have frame: "?m1 x = mem s x" if "x \<notin> region fds 128" for x
    using that fd_word_inside [OF small(1), of fds] by (intro st32_frame) blast
  have words1: "stack_words ?m1 ?st1 = fds # fd' # ws"
    unfolding one(4) [symmetric]
  proof (rule stack_words_outside [OF one(2)])
    fix x assume "x \<in> stack_bytes ?st1"
    then have "x \<notin> region fds 128" using apart unfolding one(7) by blast
    then show "?m1 x = mem s x" by (rule frame)
  qed
  note two = pop_two [OF one(2) words1]
  let ?c2 = "ctx\<lparr>dstack := ?st1\<lparr>top := top ?st1 + 4 * of_nat 2\<rparr>\<rparr>"
  have set: "in_fdset ?m1 fds k \<longleftrightarrow> (if k = unat fd then now else in_fdset (mem s) fds k)" if "k < 1024" for k
    by (rule fdset_word_update [OF al small(1) that])
  define r where "r = c_bool (ld32 ?m1 (fds + 4 * of_nat (unat fd' div 32)) AND push_bit (unat fd' mod 32) 1 \<noteq> 0)"
  have "ld32 ?m1 (fds + 4 * of_nat (unat fd' div 32)) AND push_bit (unat fd' mod 32) 1 \<noteq> 0
      \<longleftrightarrow> in_fdset ?m1 fds (unat fd')"
    by (simp add: in_fdset_def bit_iff_and_push_bit_not_eq_0)
  then have r: "r = c_bool (if fd' = fd then now else in_fdset (mem s) fds (unat fd'))"
    unfolding r_def set [OF small(2)] by (simp add: word_unat_eq_iff)
  have ok2: "stack_ok (dstack ?c2)" "depth (dstack ?c2) < capacity (dstack ?c2)" using two one(5,6) by simp_all
  obtain m2 st3 where ret: "thunk_return r (s\<lparr>mem := ?m1\<rparr>) ?c2 = Inr (s\<lparr>mem := ?m1\<rparr>\<lparr>mem := m2\<rparr>, ?c2\<lparr>dstack := st3\<rparr>)"
      "stack_words m2 st3 = r # stack_words (mem (s\<lparr>mem := ?m1\<rparr>)) (dstack ?c2)"
    by (rule return_fits [OF ok2, of r "s\<lparr>mem := ?m1\<rparr>"]) blast
  have run2: "thunkproc_fdset_check N (s\<lparr>mem := ?m1\<rparr>) (ctx\<lparr>dstack := ?st1\<rparr>)
      = Inr (s\<lparr>mem := ?m1\<rparr>\<lparr>mem := m2\<rparr>, ?c2\<lparr>dstack := st3\<rparr>)"
    using two(1) plain small ret(1)
    by (simp add: thunkproc_fdset_check_def with_args_def fd_small r_def del: of_nat_numeral)
  have top: "stack_words (mem (s\<lparr>mem := ?m1\<rparr>\<lparr>mem := m2\<rparr>)) (dstack (?c2\<lparr>dstack := st3\<rparr>))
      = c_bool (if fd' = fd then now else in_fdset (mem s) fds (unat fd')) # ws"
    using ret(2) two(4) r by simp
  have "\<forall>k < 1024. in_fdset (mem (s\<lparr>mem := ?m1\<rparr>)) fds k \<longleftrightarrow> (if k = unat fd then now else in_fdset (mem s) fds k)"
    "\<forall>x. x \<notin> region fds 128 \<longrightarrow> mem (s\<lparr>mem := ?m1\<rparr>) x = mem s x"
    using set frame by simp_all
  then show ?thesis using run1 run2 top by blast
qed

text \<open>A context whose data stack holds the given words, in memory.\<close>

definition native_ctx :: "nat \<Rightarrow> vm_context_t" where
  "native_ctx n =
     \<lparr>dstack = \<lparr>bottom = 0x20040, limit = 0x20000, top = 0x20040 - 4 * of_nat n\<rparr>,
      cstack = \<lparr>bottom = 0x30008, limit = 0x30000, top = 0x30008\<rparr>,
      pc = 0, locals = 0, vm_module = \<lparr>next_module = 0, base = 0, entry = 0, ncalls_table = 0\<rparr>\<rparr>"

definition native_mem :: "memory \<Rightarrow> u32 list \<Rightarrow> memory" where
  "native_mem m ws = write_words m (0x20040 - 4 * of_nat (length ws)) ws"

definition native_machine :: "memory \<Rightarrow> unit machine" where
  "native_machine m = \<lparr>mem = m, free_anchor = 0, first_slot = 0, arena_brk = 0, sys_errno = 0, kern = ()\<rparr>"

definition native_demo :: "unit native" where
  "native_demo = \<lparr>native_kernel = (\<lambda>nr args (m, k). (0, m, k)),
     print_frame = \<lparr>zero_padded = False, left_adjusted = False, width_given = False, prec_given = False, width = 0, prec = 0,
       buffer = 0x40000, digits = 0x41000, buffer_mark = 0, write_count = 0, writer = To_fd 0\<rparr>,
     temp_buf = 0x50000, local_var = 0x60000, call_args = 0x61000, fortified = False\<rparr>"

lemma native_ctx_ok: "n \<le> 16 \<Longrightarrow> stack_ok (dstack (native_ctx n))" "n \<le> 16 \<Longrightarrow> depth (dstack (native_ctx n)) = n"
  by (simp_all add: native_ctx_def stack_ok_def depth_def aligned_def unat_sub4)

theorem fdset_update_then_check_witness:
  "\<exists>s1 ctx1 s2 ctx2.
    thunkproc_fdset_clear native_demo (native_machine (native_mem (st32 (\<lambda>_. 0) 0x1004 0x60) [0x1000, 37, 0x1000, 38])) (native_ctx 4) = Inr (s1, ctx1)
    \<and> thunkproc_fdset_check native_demo s1 ctx1 = Inr (s2, ctx2) \<and> stack_words (mem s2) (dstack ctx2) = [1]"
proof -
  let ?s = "native_machine (native_mem (st32 (\<lambda>_. 0) 0x1004 0x60) [0x1000, 37, 0x1000, 38])" and ?c = "native_ctx 4"
  have ok: "stack_ok (dstack ?c)" "depth (dstack ?c) = length [0x1000, 37, 0x1000, 38 :: u32]"
    using native_ctx_ok [of 4] by simp_all
  have w: "stack_words (mem ?s) (dstack ?c) = 0x1000 # 37 # 0x1000 # 38 # []"
    unfolding stack_words_def ok(2)
    using read_write_words [of "0x20030" "[0x1000, 37, 0x1000, 38]" "st32 (\<lambda>_. 0) 0x1004 0x60"]
    by (simp add: aligned_def native_machine_def native_mem_def native_ctx_def del: read_words.simps write_words.simps)
  have apart: "region 0x1000 128 \<inter> stack_bytes (dstack ?c) = {}"
    by (auto simp: region_unat stack_bytes_def native_ctx_def word_le_nat_alt)
  have "in_fdset (mem ?s) 0x1000 (unat (38 :: u32))"
    by (simp add: in_fdset_def native_machine_def native_mem_def ld32_def st32_def)
  moreover have "unat (37 :: u32) < 1024" "unat (38 :: u32) < 1024" "\<not> fortified native_demo" "aligned 4 (0x1000 :: u32)"
    by (simp_all add: native_demo_def aligned_def)
  moreover have "(thunkproc_fdset_clear, False) \<in> {(thunkproc_fdset_set, True), (thunkproc_fdset_clear, False)}" by simp
  ultimately show ?thesis
    using fdset_update_then_check [OF ok(1) w _ _ _ _ apart, of native_demo thunkproc_fdset_clear False] by auto
qed

section \<open>Stack effect\<close>

text \<open>C25. Every native procedure but the two that print and \<open>io_read\<close>, if it returns, has found and
  taken its listed arguments on the data stack and left its listed results there; the stack is
  still well formed between the same bounds, and the control stack, the program counter, the
  locals and the module are unchanged.\<close>

theorem native_stack_effect:
  assumes "(n, r, proc) \<in> set native_effect" "stack_ok (dstack ctx)" "proc N s ctx = Inr (s', ctx')"
  shows "stack_ok (dstack ctx') \<and> n \<le> depth (dstack ctx) \<and> depth (dstack ctx') + n = depth (dstack ctx) + r
    \<and> bottom (dstack ctx') = bottom (dstack ctx) \<and> limit (dstack ctx') = limit (dstack ctx)
    \<and> ctx' = ctx\<lparr>dstack := dstack ctx'\<rparr>"
  using native_effect_ok [OF assms(1)] assms(2,3) unfolding thunk_effect_def leaves_def by blast

theorem native_stack_effect_witness:
  "\<exists>s' ctx'. thunkproc_rtl_strbuf_get_buffer native_demo (native_machine (\<lambda>_. 0)) (native_ctx 2) = Inr (s', ctx')
    \<and> depth (dstack ctx') = 2"
proof -
  have "\<exists>s' ctx'. thunkproc_rtl_strbuf_get_buffer native_demo (native_machine (\<lambda>_. 0)) (native_ctx 2) = Inr (s', ctx')"
    by (simp add: thunkproc_rtl_strbuf_get_buffer_def with_args_def thunk_return_def native_ctx_def native_machine_def
        vm_stack_pop3_def vm_stack_push_def vm_stack_push3_def Let_def)
  then obtain s' ctx' where r: "thunkproc_rtl_strbuf_get_buffer native_demo (native_machine (\<lambda>_. 0)) (native_ctx 2) = Inr (s', ctx')"
    by blast
  have "(1, 1, thunkproc_rtl_strbuf_get_buffer) \<in> set native_effect" by (simp add: native_effect_def)
  from native_stack_effect [OF this _ r] show ?thesis using native_ctx_ok [of 2] r by auto
qed

section \<open>Reading\<close>







end
