(* ===== verification/Vma_Types.thy ===== *)
theory Vma_Types
  imports VM_Sockets
begin

text \<open>
  The data of the assembler, \<open>src/vma/vma.h\<close>. Expressions are nodes that evaluation updates, and
  a constant's expression is reached from every use of the constant, so they live in a store and
  are known by their addresses (natural numbers, in the order of allocation). Symbols do not
  change after parsing and their names are unique in a table, so a table is a list of symbols.
  An instruction is known by its position in the list of instructions.
\<close>

section \<open>Symbols\<close>

datatype vma_symbol_type = SYM_INVALID | SYM_LABEL | SYM_CONSTANT | SYM_NCALL

text \<open>The union of \<open>vma_symbol_t\<close>; \<open>No_value\<close> is what \<open>memset\<close> leaves.\<close>

datatype symbol_value = No_value | Location nat | Value_expr nat | Ncall_id u32

record vma_symbol =
  sym_type :: vma_symbol_type
  sym_name :: string
  sym_u :: symbol_value
  sym_line :: int

type_synonym vma_symtab = "vma_symbol list"

text \<open>
  The union of \<open>vma_symref_t\<close>: a name until it is resolved, the symbol afterwards.
\<close>

datatype vma_symref = Name string | Sym vma_symbol

section \<open>Expressions\<close>

datatype vma_expr_type =
    EXPR_LITERAL | EXPR_SYMREF | EXPR_OR | EXPR_AND | EXPR_XOR | EXPR_ADD | EXPR_SUB | EXPR_MUL | EXPR_DIV
  | EXPR_NEG | EXPR_NOT

datatype expr_union = Children "nat option" "nat option" | Ref vma_symref

record vma_expr =
  expr_type :: vma_expr_type
  expr_value :: u32
  expr_u :: expr_union

section \<open>Instructions\<close>

datatype vma_insn_type =
    INSN_ADD | INSN_SUB | INSN_MULU | INSN_MULS | INSN_DIVU | INSN_DIVS | INSN_AND | INSN_OR | INSN_XOR | INSN_NOT
  | INSN_LSL | INSN_LSR | INSN_ASR | INSN_CMP_LT | INSN_CMP_GT | INSN_CMP_B | INSN_CMP_A | INSN_CMP_EQ
  | INSN_LDC_0 | INSN_LDC_1 | INSN_LDC_2 | INSN_LDC_UB | INSN_LDC_SB | INSN_LDC_W | INSN_LEA
  | INSN_LDM_UB | INSN_LDM_SB | INSN_LDM_UH | INSN_LDM_SH | INSN_LDM_W | INSN_STM_B | INSN_STM_H | INSN_STM_W
  | INSN_LOCALS | INSN_LDLOC | INSN_STLOC | INSN_DUP | INSN_SWAP | INSN_POP
  | INSN_BR | INSN_BR_T | INSN_BR_F | INSN_CALL | INSN_RET | INSN_ICALL | INSN_IJMP | INSN_NCALL
  | INSN_ASM_KEYWORDS
  | INSN_DEFB | INSN_DEFH | INSN_DEFW | INSN_DEFS
  | INSN_ALLOCATE
  | INSN_RESB | INSN_RESH | INSN_RESW | INSN_CONST | INSN_SUBSTART | INSN_SUBEND
  | INSN_MAX

text \<open>The enumerators in their order, and the numbers C gives them.\<close>

definition insn_types :: "vma_insn_type list" where
  "insn_types =
    [INSN_ADD, INSN_SUB, INSN_MULU, INSN_MULS, INSN_DIVU, INSN_DIVS, INSN_AND, INSN_OR, INSN_XOR, INSN_NOT,
     INSN_LSL, INSN_LSR, INSN_ASR, INSN_CMP_LT, INSN_CMP_GT, INSN_CMP_B, INSN_CMP_A, INSN_CMP_EQ,
     INSN_LDC_0, INSN_LDC_1, INSN_LDC_2, INSN_LDC_UB, INSN_LDC_SB, INSN_LDC_W, INSN_LEA,
     INSN_LDM_UB, INSN_LDM_SB, INSN_LDM_UH, INSN_LDM_SH, INSN_LDM_W, INSN_STM_B, INSN_STM_H, INSN_STM_W,
     INSN_LOCALS, INSN_LDLOC, INSN_STLOC, INSN_DUP, INSN_SWAP, INSN_POP,
     INSN_BR, INSN_BR_T, INSN_BR_F, INSN_CALL, INSN_RET, INSN_ICALL, INSN_IJMP, INSN_NCALL,
     INSN_ASM_KEYWORDS,
     INSN_DEFB, INSN_DEFH, INSN_DEFW, INSN_DEFS,
     INSN_ALLOCATE,
     INSN_RESB, INSN_RESH, INSN_RESW, INSN_CONST, INSN_SUBSTART, INSN_SUBEND,
     INSN_MAX]"

primrec position :: "'a \<Rightarrow> 'a list \<Rightarrow> nat" where
  "position x [] = 0"
| "position x (y # ys) = (if x = y then 0 else Suc (position x ys))"

definition insn_number :: "vma_insn_type \<Rightarrow> nat" where
  "insn_number t = position t insn_types"

lemma position_nth: "x \<in> set xs \<Longrightarrow> xs ! position x xs = x"
  by (induction xs) auto

lemma insn_types_all: "t \<in> set insn_types"
  by (cases t) (simp_all add: insn_types_def)

lemma insn_number_nth: "insn_types ! insn_number t = t"
  by (simp add: insn_number_def position_nth insn_types_all)

lemma insn_number_eq [simp]: "insn_number s = insn_number t \<longleftrightarrow> s = t"
  by (metis insn_number_nth)

text \<open>Enumerators are compared by their numbers.\<close>

instantiation vma_insn_type :: linorder
begin

definition less_eq_vma_insn_type :: "vma_insn_type \<Rightarrow> vma_insn_type \<Rightarrow> bool" where
  "s \<le> t \<longleftrightarrow> insn_number s \<le> insn_number t"

definition less_vma_insn_type :: "vma_insn_type \<Rightarrow> vma_insn_type \<Rightarrow> bool" where
  "s < t \<longleftrightarrow> insn_number s < insn_number t"

instance
  by standard (auto simp: less_eq_vma_insn_type_def less_vma_insn_type_def)

end

text \<open>The union of \<open>vma_insn_t\<close>.\<close>

datatype insn_union =
    No_operand
  | Symref vma_symref
  | Symtab vma_symtab
  | Expr nat
  | Expr_list "nat list"
  | Text_bytes "u8 list"

record vma_insn =
  insn_type :: vma_insn_type
  start_addr :: u32
  align_bytes :: u32
  insn_u :: insn_union
  allocated :: bool
  insn_line :: int

section \<open>The context\<close>

text \<open>\<open>lookup_stack\<close> points to the global table or to the table of a \<open>SUBSTART\<close> instruction, whose
  \<open>lookup_next\<close> is the global table.\<close>

datatype scope = Globals | Sub nat

record vma_context =
  start_symbol :: string
  globals :: vma_symtab
  ncalls :: vma_symtab
  lookup_stack :: scope
  insns :: "vma_insn list"
  start_va :: u32
  bss_va :: u32
  end_va :: u32
  current_va :: u32
  exprs :: "nat \<Rightarrow> vma_expr"
  next_expr :: nat
  vma_errors :: nat
  vma_output :: "u8 list"

text \<open>How a run ends early: \<open>vma_abort\<close> with its message, a null or mistyped pointer followed,
  or the evaluation fuel used up.\<close>

datatype abort = Aborted string | Bad_pointer | Out_of_fuel

type_synonym 'a asm = "vma_context \<Rightarrow> abort + 'a \<times> vma_context"

end
