(* ===== verification/Vma_Build.thy ===== *)
theory Vma_Build
  imports Vma_Types
begin

text \<open>
  Building the program: errors and aborts (\<open>vma_misc.c\<close>), symbol tables, expressions and
  instructions (\<open>vma_asm.c\<close>), and the actions of the grammar (\<open>vma_parser.y\<close>) on statements. The
  texts of error messages other than the aborts' and the debug prints are left out.
\<close>

section \<open>Errors\<close>

definition VMA_MAX_ERRORS :: nat where
  "VMA_MAX_ERRORS = 20"

definition vma_abort :: "string \<Rightarrow> abort + 'a" where
  "vma_abort msg = Inl (Aborted msg)"

definition vma_error :: "vma_context \<Rightarrow> abort + vma_context" where
  "vma_error ctx =
     (let ctx = ctx\<lparr>vma_errors := Suc (vma_errors ctx)\<rparr>
      in if vma_errors ctx > VMA_MAX_ERRORS then vma_abort ''too many errors to continue.'' else Inr ctx)"

definition vma_abort_on_errors :: "vma_context \<Rightarrow> abort + vma_context" where
  "vma_abort_on_errors ctx = (if vma_errors ctx \<noteq> 0 then vma_abort ''errors encountered, aborting.'' else Inr ctx)"

section \<open>Symbol tables\<close>

primrec vma_symtab_lookup :: "vma_symtab \<Rightarrow> string \<Rightarrow> vma_symbol option" where
  "vma_symtab_lookup [] name = None"
| "vma_symtab_lookup (symb # tab) name = (if sym_name symb = name then Some symb else vma_symtab_lookup tab name)"

text \<open>The result: the table, and the previous definition if there is one.\<close>

definition vma_symtab_define :: "vma_symtab \<Rightarrow> string \<Rightarrow> vma_symbol_type \<Rightarrow> vma_symtab \<times> vma_symbol option" where
  "vma_symtab_define tab name type =
     (case vma_symtab_lookup tab name of
        Some symb \<Rightarrow> (tab, Some symb)
      | None \<Rightarrow> (tab @ [\<lparr>sym_type = type, sym_name = name,
                        sym_u = (if type = SYM_NCALL then Ncall_id (of_nat (length tab)) else No_value),
                        sym_line = 0\<rparr>], None))"

fun vma_symtab_lookup_chain :: "vma_symtab list \<Rightarrow> string \<Rightarrow> vma_symbol option" where
  "vma_symtab_lookup_chain [] name = None"
| "vma_symtab_lookup_chain (tab # tabs) name =
     (case vma_symtab_lookup tab name of Some symb \<Rightarrow> Some symb | None \<Rightarrow> vma_symtab_lookup_chain tabs name)"

text \<open>The tables from a scope on, along \<open>lookup_next\<close>.\<close>

definition sub_symtab :: "vma_context \<Rightarrow> nat \<Rightarrow> vma_symtab" where
  "sub_symtab ctx i = (case insn_u (insns ctx ! i) of Symtab tab \<Rightarrow> tab | _ \<Rightarrow> [])"

definition lookup_tables :: "vma_context \<Rightarrow> vma_symtab list" where
  "lookup_tables ctx = (case lookup_stack ctx of Globals \<Rightarrow> [globals ctx] | Sub i \<Rightarrow> [sub_symtab ctx i, globals ctx])"

definition set_symtab :: "scope \<Rightarrow> vma_symtab \<Rightarrow> vma_context \<Rightarrow> vma_context" where
  "set_symtab sc tab ctx = (case sc of
     Globals \<Rightarrow> ctx\<lparr>globals := tab\<rparr>
   | Sub i \<Rightarrow> ctx\<lparr>insns := (insns ctx)[i := (insns ctx ! i)\<lparr>insn_u := Symtab tab\<rparr>]\<rparr>)"

definition get_symtab :: "scope \<Rightarrow> vma_context \<Rightarrow> vma_symtab" where
  "get_symtab sc ctx = (case sc of Globals \<Rightarrow> globals ctx | Sub i \<Rightarrow> sub_symtab ctx i)"

text \<open>A change of one symbol, through the pointer that defining it gave.\<close>

definition update_symbol :: "scope \<Rightarrow> string \<Rightarrow> (vma_symbol \<Rightarrow> vma_symbol) \<Rightarrow> vma_context \<Rightarrow> vma_context" where
  "update_symbol sc name f ctx =
     set_symtab sc (map (\<lambda>symb. if sym_name symb = name then f symb else symb) (get_symtab sc ctx)) ctx"

definition local_name :: "string \<Rightarrow> bool" where
  "local_name name \<longleftrightarrow> length name > 2 \<and> name ! 0 = CHR ''@'' \<and> name ! 1 = CHR ''@''"

definition vma_symbol_define :: "string \<Rightarrow> vma_symbol_type \<Rightarrow> int \<Rightarrow> scope asm" where
  "vma_symbol_define name type line ctx =
     bind_res (if local_name name
               then bind_res (if type = SYM_NCALL then vma_error ctx else Inr ctx) (\<lambda>ctx.
                    bind_res (if lookup_stack ctx = Globals then vma_error ctx else Inr ctx) (\<lambda>ctx.
                    Inr (lookup_stack ctx, ctx)))
               else Inr (Globals, ctx)) (\<lambda>(sc, ctx).
     case vma_symtab_define (get_symtab sc ctx) name type of (tab, previous) \<Rightarrow>
     let ctx = set_symtab sc tab ctx
     in case previous of
          None \<Rightarrow> Inr (sc, update_symbol sc name (\<lambda>symb. symb\<lparr>sym_line := line\<rparr>) ctx)
        | Some symb \<Rightarrow> bind_res (if type \<noteq> SYM_NCALL then vma_error ctx else Inr ctx) (\<lambda>ctx. Inr (sc, ctx)))"

section \<open>References, expressions, instructions\<close>

definition vma_symref_init :: "string \<Rightarrow> vma_symref" where
  "vma_symref_init name = Name name"

text \<open>
  Resolving looks up \<open>u.name\<close>, and on success overwrites it with the symbol, as both are members of
  one union. In a reference that is resolved already, \<open>u.name\<close> reads the bytes of the symbol's
  record as a name: \<open>raw\<close> gives them.
\<close>

type_synonym raw_names = "vma_symbol \<Rightarrow> string"

definition symref_name :: "raw_names \<Rightarrow> vma_symref \<Rightarrow> string" where
  "symref_name raw r = (case r of Name name \<Rightarrow> name | Sym symb \<Rightarrow> raw symb)"

definition vma_symref_resolve :: "raw_names \<Rightarrow> vma_symref \<Rightarrow> vma_symtab list \<Rightarrow> vma_symref option" where
  "vma_symref_resolve raw r tabs = map_option Sym (vma_symtab_lookup_chain tabs (symref_name raw r))"

text \<open>A new node keeps what the memory held in the fields that are not set.\<close>

definition new_expr :: "(vma_expr \<Rightarrow> vma_expr) \<Rightarrow> vma_context \<Rightarrow> nat \<times> vma_context" where
  "new_expr f ctx = (let node = next_expr ctx
     in (node, ctx\<lparr>exprs := (exprs ctx)(node := f (exprs ctx node)), next_expr := Suc node\<rparr>))"

definition vma_expr_build_literal :: "u32 \<Rightarrow> vma_context \<Rightarrow> nat \<times> vma_context" where
  "vma_expr_build_literal val = new_expr (\<lambda>node. node\<lparr>expr_type := EXPR_LITERAL, expr_value := val\<rparr>)"

definition vma_expr_build_symref :: "string \<Rightarrow> vma_context \<Rightarrow> nat \<times> vma_context" where
  "vma_expr_build_symref name = new_expr (\<lambda>node. node\<lparr>expr_type := EXPR_SYMREF, expr_u := Ref (vma_symref_init name)\<rparr>)"

definition vma_expr_build_parent :: "vma_expr_type \<Rightarrow> nat option \<Rightarrow> nat option \<Rightarrow> vma_context \<Rightarrow> nat \<times> vma_context" where
  "vma_expr_build_parent type a b = new_expr (\<lambda>node. node\<lparr>expr_type := type, expr_u := Children a b\<rparr>)"

text \<open>An expression list is the list of its nodes; \<open>count\<close> is its length.\<close>

definition vma_expr_list_create :: "nat list" where
  "vma_expr_list_create = []"

definition vma_expr_list_append :: "nat list \<Rightarrow> nat \<Rightarrow> nat list" where
  "vma_expr_list_append nodes node = nodes @ [node]"

definition vma_insn_build :: "vma_insn_type \<Rightarrow> vma_insn" where
  "vma_insn_build type = \<lparr>insn_type = type, start_addr = 0, align_bytes = 0, insn_u = No_operand,
     allocated = False, insn_line = 0\<rparr>"

definition append_insn :: "vma_insn \<Rightarrow> vma_context \<Rightarrow> vma_context" where
  "append_insn insn ctx = ctx\<lparr>insns := insns ctx @ [insn]\<rparr>"

text \<open>\<open>junk\<close> is what the store of expressions holds before anything is built.\<close>

definition vma_context_init :: "(nat \<Rightarrow> vma_expr) \<Rightarrow> vma_context" where
  "vma_context_init junk = \<lparr>start_symbol = ''start'', globals = [], ncalls = [], lookup_stack = Globals, insns = [],
     start_va = 0, bss_va = 0, end_va = 0, current_va = 0, exprs = junk, next_expr = 0, vma_errors = 0, vma_output = []\<rparr>"

section \<open>The actions of the grammar\<close>

datatype ast = Int_lit u32 | Ident string | Binary vma_expr_type ast ast | Unary vma_expr_type ast

primrec build_expr :: "ast \<Rightarrow> vma_context \<Rightarrow> nat \<times> vma_context" where
  "build_expr (Int_lit v) ctx = vma_expr_build_literal v ctx"
| "build_expr (Ident name) ctx = vma_expr_build_symref name ctx"
| "build_expr (Binary op a b) ctx =
     (case build_expr a ctx of (i, ctx) \<Rightarrow> case build_expr b ctx of (j, ctx) \<Rightarrow>
      vma_expr_build_parent op (Some i) (Some j) ctx)"
| "build_expr (Unary op a) ctx =
     (case build_expr a ctx of (i, ctx) \<Rightarrow> vma_expr_build_parent op (Some i) None ctx)"

primrec build_expr_list :: "nat list \<Rightarrow> ast list \<Rightarrow> vma_context \<Rightarrow> nat list \<times> vma_context" where
  "build_expr_list nodes [] ctx = (nodes, ctx)"
| "build_expr_list nodes (a # as) ctx =
     (case build_expr a ctx of (i, ctx) \<Rightarrow> build_expr_list (vma_expr_list_append nodes i) as ctx)"

datatype body =
    Machine vma_insn_type
  | Machine_expr vma_insn_type ast
  | Machine_ncall string
  | Data vma_insn_type "ast list"
  | Data_text "u8 list"
  | Reserve vma_insn_type ast
  | Substart

text \<open>The number of the \<open>SUBSTART\<close> instruction is the place it is going to have in the list.\<close>

primrec build_body :: "body \<Rightarrow> vma_context \<Rightarrow> vma_insn \<times> vma_context" where
  "build_body (Machine t) ctx = (vma_insn_build t, ctx)"
| "build_body (Machine_expr t a) ctx =
     (case build_expr a ctx of (i, ctx) \<Rightarrow> ((vma_insn_build t)\<lparr>insn_u := Expr i\<rparr>, ctx))"
| "build_body (Machine_ncall name) ctx =
     (case vma_symtab_define (ncalls ctx) name SYM_NCALL of (tab, previous) \<Rightarrow>
      let symb = (case previous of Some symb \<Rightarrow> symb | None \<Rightarrow> last tab)
      in ((vma_insn_build INSN_NCALL)\<lparr>insn_u := Symref (Sym symb)\<rparr>, ctx\<lparr>ncalls := tab\<rparr>))"
| "build_body (Data t as) ctx =
     (case build_expr_list vma_expr_list_create as ctx of (nodes, ctx) \<Rightarrow>
      ((vma_insn_build t)\<lparr>insn_u := Expr_list nodes\<rparr>, ctx))"
| "build_body (Data_text xs) ctx = ((vma_insn_build INSN_DEFS)\<lparr>insn_u := Text_bytes xs\<rparr>, ctx)"
| "build_body (Reserve t a) ctx =
     (case build_expr a ctx of (i, ctx) \<Rightarrow> ((vma_insn_build t)\<lparr>insn_u := Expr i\<rparr>, ctx))"
| "build_body Substart ctx =
     ((vma_insn_build INSN_SUBSTART)\<lparr>insn_u := Symtab []\<rparr>, ctx\<lparr>lookup_stack := Sub (length (insns ctx))\<rparr>)"

datatype stmt =
    Insn_stmt "(string \<times> int) option" body int
  | Const_stmt string ast int
  | Subend_stmt int

primrec listed_stmt :: "stmt \<Rightarrow> vma_context \<Rightarrow> abort + vma_context" where
  "listed_stmt (Insn_stmt label body line) ctx =
     (case label of
        None \<Rightarrow> (case build_body body ctx of (insn, ctx) \<Rightarrow> Inr (append_insn (insn\<lparr>insn_line := line\<rparr>) ctx))
      | Some (name, l) \<Rightarrow> bind_res (vma_symbol_define name SYM_LABEL l ctx) (\<lambda>(sc, ctx).
          case build_body body ctx of (insn, ctx) \<Rightarrow>
          let ctx = update_symbol sc name (\<lambda>symb. symb\<lparr>sym_u := Location (length (insns ctx))\<rparr>) ctx
          in Inr (append_insn (insn\<lparr>insn_line := line\<rparr>) ctx)))"
| "listed_stmt (Const_stmt name a line) ctx =
     (case build_expr a ctx of (i, ctx) \<Rightarrow>
      bind_res (vma_symbol_define name SYM_CONSTANT line ctx) (\<lambda>(sc, ctx).
      let ctx = update_symbol sc name (\<lambda>symb. symb\<lparr>sym_u := Value_expr i\<rparr>) ctx
      in Inr (append_insn ((vma_insn_build INSN_CONST)\<lparr>insn_line := line\<rparr>) ctx)))"
| "listed_stmt (Subend_stmt line) ctx =
     Inr (append_insn ((vma_insn_build INSN_SUBEND)\<lparr>insn_line := line\<rparr>) (ctx\<lparr>lookup_stack := Globals\<rparr>))"

primrec parse_stmts :: "stmt list \<Rightarrow> vma_context \<Rightarrow> abort + vma_context" where
  "parse_stmts [] ctx = Inr ctx"
| "parse_stmts (st # sts) ctx = bind_res (listed_stmt st ctx) (parse_stmts sts)"

end
