(* ===== verification/Vma_Asm.thy ===== *)
theory Vma_Asm
  imports Vma_Build VM_Opcodes
begin

text \<open>
  The two passes of the assembler (\<open>vma_asm.c\<close>), the image writer (\<open>vma_out.c\<close>) and the stages of
  its main program (\<open>vma.c\<close>). Evaluation follows the symbols of constants, so its recursion is
  not structural and is given fuel; running out of it is an abort of its own.
\<close>

section \<open>Evaluating expressions\<close>

text \<open>What a run depends on besides the program: what resolved references read as names, the fuel of
  one evaluation, and which writes to the output file succeed, by position.\<close>

record asm_env =
  raw :: raw_names
  fuel :: nat
  io_ok :: "nat \<Rightarrow> bool"

definition set_expr :: "nat \<Rightarrow> (vma_expr \<Rightarrow> vma_expr) \<Rightarrow> vma_context \<Rightarrow> vma_context" where
  "set_expr e f ctx = ctx\<lparr>exprs := (exprs ctx)(e := f (exprs ctx e))\<rparr>"

definition value_of :: "vma_context \<Rightarrow> nat \<Rightarrow> u32" where
  "value_of ctx e = expr_value (exprs ctx e)"

definition set_value :: "nat \<Rightarrow> u32 \<Rightarrow> vma_context \<Rightarrow> vma_context" where
  "set_value e v = set_expr e (\<lambda>node. node\<lparr>expr_value := v\<rparr>)"

definition failed :: "vma_context \<Rightarrow> abort + bool \<times> vma_context" where
  "failed ctx = bind_res (vma_error ctx) (\<lambda>ctx. Inr (False, ctx))"

definition vma_passx_evaluate_symref :: "raw_names \<Rightarrow> (nat \<Rightarrow> bool asm) \<Rightarrow> nat \<Rightarrow> bool asm" where
  "vma_passx_evaluate_symref names evaluate e ctx =
     (case expr_u (exprs ctx e) of
        Children a b \<Rightarrow> Inl Bad_pointer
      | Ref r \<Rightarrow> (case vma_symref_resolve names r (lookup_tables ctx) of
          None \<Rightarrow> failed ctx
        | Some (Name name) \<Rightarrow> Inl Bad_pointer
        | Some (Sym symb) \<Rightarrow>
            let ctx = set_expr e (\<lambda>node. node\<lparr>expr_u := Ref (Sym symb)\<rparr>) ctx
            in (case sym_type symb of
                  SYM_LABEL \<Rightarrow> (case sym_u symb of
                      Location i \<Rightarrow> if allocated (insns ctx ! i)
                                    then Inr (True, set_value e (start_addr (insns ctx ! i)) ctx)
                                    else failed ctx
                    | _ \<Rightarrow> Inl Bad_pointer)
                | SYM_CONSTANT \<Rightarrow> (case sym_u symb of
                      Value_expr v \<Rightarrow> bind_res (evaluate v ctx) (\<lambda>(ok, ctx).
                        Inr (if ok then (True, set_value e (value_of ctx v) ctx) else (False, ctx)))
                    | _ \<Rightarrow> Inl Bad_pointer)
                | SYM_NCALL \<Rightarrow> failed ctx
                | SYM_INVALID \<Rightarrow> vma_abort ''%s:%d: internal error: unhandled symbol type %d'')))"

text \<open>A division by zero is an error with the value 1.\<close>

definition binary_op :: "vma_expr_type \<Rightarrow> u32 \<Rightarrow> u32 \<Rightarrow> vma_context \<Rightarrow> abort + u32 \<times> vma_context" where
  "binary_op op lhs rhs ctx = (case op of
     EXPR_OR \<Rightarrow> Inr (lhs OR rhs, ctx)
   | EXPR_AND \<Rightarrow> Inr (lhs AND rhs, ctx)
   | EXPR_XOR \<Rightarrow> Inr (lhs XOR rhs, ctx)
   | EXPR_ADD \<Rightarrow> Inr (lhs + rhs, ctx)
   | EXPR_SUB \<Rightarrow> Inr (lhs - rhs, ctx)
   | EXPR_MUL \<Rightarrow> Inr (lhs * rhs, ctx)
   | _ \<Rightarrow> if rhs = 0 then bind_res (vma_error ctx) (\<lambda>ctx. Inr (1, ctx)) else Inr (lhs div rhs, ctx))"

definition is_binary :: "vma_expr_type \<Rightarrow> bool" where
  "is_binary op \<longleftrightarrow> op \<in> {EXPR_OR, EXPR_AND, EXPR_XOR, EXPR_ADD, EXPR_SUB, EXPR_MUL, EXPR_DIV}"

primrec vma_passx_evaluate_expr :: "raw_names \<Rightarrow> nat \<Rightarrow> nat \<Rightarrow> bool asm" where
  "vma_passx_evaluate_expr names 0 e ctx = Inl Out_of_fuel"
| "vma_passx_evaluate_expr names (Suc n) e ctx =
     (let evaluate = vma_passx_evaluate_expr names n; op = expr_type (exprs ctx e)
      in if op = EXPR_LITERAL then Inr (True, ctx)
         else if op = EXPR_SYMREF then vma_passx_evaluate_symref names evaluate e ctx
         else if is_binary op
         then (case expr_u (exprs ctx e) of
                 Children (Some a) (Some b) \<Rightarrow>
                   bind_res (evaluate a ctx) (\<lambda>(ok, ctx). if \<not> ok then Inr (False, ctx) else
                   bind_res (evaluate b ctx) (\<lambda>(ok, ctx). if \<not> ok then Inr (False, ctx) else
                   bind_res (binary_op op (value_of ctx a) (value_of ctx b) ctx) (\<lambda>(v, ctx).
                   Inr (True, set_value e v ctx))))
               | _ \<Rightarrow> Inl Bad_pointer)
         else (case expr_u (exprs ctx e) of
                 Children (Some a) b \<Rightarrow>
                   bind_res (evaluate a ctx) (\<lambda>(ok, ctx). if \<not> ok then Inr (False, ctx) else
                   let rhs = value_of ctx a
                   in Inr (True, set_value e (if op = EXPR_NEG then - rhs else NOT rhs) ctx))
               | _ \<Rightarrow> Inl Bad_pointer))"

definition evaluate_expr :: "asm_env \<Rightarrow> nat \<Rightarrow> bool asm" where
  "evaluate_expr E = vma_passx_evaluate_expr (raw E) (fuel E)"

section \<open>Pass 1: sizes and addresses\<close>

definition VMA_ALIGN :: "u32 \<Rightarrow> u32 \<Rightarrow> u32" where
  "VMA_ALIGN x a = (x + a - 1) AND NOT (a - 1)"

definition no_size :: "vma_insn_type set" where
  "no_size = {INSN_CONST, INSN_SUBSTART, INSN_SUBEND}"

definition one_byte :: "vma_insn_type set" where
  "one_byte = {INSN_ADD, INSN_SUB, INSN_MULU, INSN_MULS, INSN_DIVU, INSN_DIVS, INSN_AND, INSN_OR, INSN_XOR, INSN_NOT,
     INSN_LSL, INSN_LSR, INSN_ASR, INSN_CMP_LT, INSN_CMP_GT, INSN_CMP_B, INSN_CMP_A, INSN_CMP_EQ,
     INSN_LDC_0, INSN_LDC_1, INSN_LDC_2, INSN_LDM_UB, INSN_LDM_SB, INSN_LDM_UH, INSN_LDM_SH, INSN_LDM_W,
     INSN_STM_B, INSN_STM_H, INSN_STM_W, INSN_DUP, INSN_SWAP, INSN_POP, INSN_RET, INSN_ICALL, INSN_IJMP}"

definition byte_operand :: "vma_insn_type set" where
  "byte_operand = {INSN_LDC_UB, INSN_LDC_SB, INSN_LOCALS, INSN_LDLOC, INSN_STLOC}"

definition branches :: "vma_insn_type set" where
  "branches = {INSN_BR, INSN_BR_T, INSN_BR_F}"

text \<open>The bytes of one element of a data definition or reservation.\<close>

definition element_size :: "vma_insn_type \<Rightarrow> nat" where
  "element_size t = (if t \<in> {INSN_DEFB, INSN_RESB} then 1 else if t \<in> {INSN_DEFH, INSN_RESH} then 2 else 4)"

definition vma_pass1_insn_estimate_size :: "asm_env \<Rightarrow> vma_insn \<Rightarrow> u32 asm" where
  "vma_pass1_insn_estimate_size E insn ctx =
     (let t = insn_type insn in
      if t \<in> no_size then Inr (0, ctx)
      else if t \<in> one_byte then Inr (1, ctx)
      else if t \<in> byte_operand \<union> branches then Inr (1 + 1, ctx)
      else if t = INSN_NCALL then Inr (1 + 2, ctx)
      else if t \<in> {INSN_LDC_W, INSN_LEA, INSN_CALL} then Inr (1 + 4, ctx)
      else if t = INSN_DEFS
      then (case insn_u insn of Text_bytes xs \<Rightarrow> Inr (of_nat (length xs), ctx) | _ \<Rightarrow> Inl Bad_pointer)
      else if t \<in> {INSN_DEFB, INSN_DEFH, INSN_DEFW}
      then (case insn_u insn of
              Expr_list nodes \<Rightarrow> Inr (of_nat (element_size t) * of_nat (length nodes), ctx) | _ \<Rightarrow> Inl Bad_pointer)
      else if t \<in> {INSN_RESB, INSN_RESH, INSN_RESW}
      then (case insn_u insn of
              Expr e \<Rightarrow> bind_res (evaluate_expr E e ctx) (\<lambda>(ok, ctx).
                if \<not> ok then bind_res (vma_error ctx) (\<lambda>ctx. Inr (0, ctx))
                else Inr (of_nat (element_size t) * value_of ctx e, ctx))
            | _ \<Rightarrow> Inl Bad_pointer)
      else vma_abort ''%s:%d:internal error: unhandled insn type %d'')"

definition set_insn :: "nat \<Rightarrow> (vma_insn \<Rightarrow> vma_insn) \<Rightarrow> vma_context \<Rightarrow> vma_context" where
  "set_insn i f ctx = ctx\<lparr>insns := (insns ctx)[i := f (insns ctx ! i)]\<rparr>"

text \<open>The alignment of data of two and four bytes; other instructions keep \<open>align_bytes\<close>.\<close>

definition pass1_align :: "nat \<Rightarrow> u32 \<Rightarrow> vma_context \<Rightarrow> u32 \<times> vma_context" where
  "pass1_align i nva ctx =
     (let t = insn_type (insns ctx ! i);
          a = (if t \<in> {INSN_DEFH, INSN_RESH} then 2 else if t \<in> {INSN_DEFW, INSN_RESW} then 4 else 1)
      in if a = 1 then (nva, ctx)
         else (VMA_ALIGN nva a, set_insn i (\<lambda>insn. insn\<lparr>align_bytes := VMA_ALIGN nva a - nva\<rparr>) ctx))"

definition enter_scope :: "nat \<Rightarrow> vma_context \<Rightarrow> vma_context" where
  "enter_scope i ctx = (case insn_type (insns ctx ! i) of
     INSN_SUBSTART \<Rightarrow> ctx\<lparr>lookup_stack := Sub i\<rparr>
   | INSN_SUBEND \<Rightarrow> ctx\<lparr>lookup_stack := Globals\<rparr>
   | _ \<Rightarrow> ctx)"

definition pass1_insn :: "asm_env \<Rightarrow> nat \<Rightarrow> u32 \<times> u32 \<Rightarrow> (u32 \<times> u32) asm" where
  "pass1_insn E i x ctx = (case x of (nva, bss) \<Rightarrow>
     case pass1_align i nva ctx of (nva, ctx) \<Rightarrow>
     let ctx = (enter_scope i ctx)\<lparr>current_va := nva\<rparr>;
         ctx = set_insn i (\<lambda>insn. insn\<lparr>start_addr := nva, allocated := True\<rparr>) ctx
     in bind_res (vma_pass1_insn_estimate_size E (insns ctx ! i) ctx) (\<lambda>(size, ctx).
        let nva = nva + size
        in Inr ((nva, if insn_type (insns ctx ! i) < INSN_ALLOCATE then nva else bss), ctx)))"

text \<open>From instruction \<open>i\<close> on, for \<open>n\<close> instructions.\<close>

primrec pass1_loop :: "asm_env \<Rightarrow> nat \<Rightarrow> nat \<Rightarrow> u32 \<times> u32 \<Rightarrow> (u32 \<times> u32) asm" where
  "pass1_loop E 0 i x ctx = Inr (x, ctx)"
| "pass1_loop E (Suc n) i x ctx = bind_res (pass1_insn E i x ctx) (\<lambda>(x, ctx). pass1_loop E n (Suc i) x ctx)"

definition vma_pass1 :: "asm_env \<Rightarrow> vma_context \<Rightarrow> abort + vma_context" where
  "vma_pass1 E ctx =
     bind_res (pass1_loop E (length (insns ctx)) 0 (start_va ctx, start_va ctx) ctx) (\<lambda>((nva, bss), ctx).
     vma_abort_on_errors (ctx\<lparr>end_va := nva, bss_va := bss\<rparr>))"

definition vma_assemble :: "asm_env \<Rightarrow> vma_context \<Rightarrow> abort + vma_context" where
  "vma_assemble E ctx = vma_pass1 E ctx"

end
