(* ===== verification/Vma_Out.thy ===== *)
theory Vma_Out
  imports Vma_Asm
begin

text \<open>
  The output side of the assembler: the writer of \<open>vma_out.c\<close>, for a little-endian host, pass 2
  (\<open>vma_emit_insn\<close> of \<open>vma_asm.c\<close>) and the stages of \<open>vma.c\<close>. The output file is the list of bytes
  written so far.
\<close>

section \<open>Writing\<close>

definition output_bytes :: "asm_env \<Rightarrow> u8 list \<Rightarrow> vma_context \<Rightarrow> abort + vma_context" where
  "output_bytes E xs ctx =
     (if io_ok E (length (vma_output ctx)) then Inr (ctx\<lparr>vma_output := vma_output ctx @ xs\<rparr>)
      else vma_abort ''i/o failed'')"

definition vma_output_u8 :: "asm_env \<Rightarrow> u8 \<Rightarrow> vma_context \<Rightarrow> abort + vma_context" where
  "vma_output_u8 E v = output_bytes E [v]"

definition vma_output_u16 :: "asm_env \<Rightarrow> u16 \<Rightarrow> vma_context \<Rightarrow> abort + vma_context" where
  "vma_output_u16 E v = output_bytes E [ucast v, ucast (drop_bit 8 v)]"

definition vma_output_u32 :: "asm_env \<Rightarrow> u32 \<Rightarrow> vma_context \<Rightarrow> abort + vma_context" where
  "vma_output_u32 E v = output_bytes E [ucast v, ucast (drop_bit 8 v), ucast (drop_bit 16 v), ucast (drop_bit 24 v)]"

primrec output_times :: "nat \<Rightarrow> (vma_context \<Rightarrow> abort + vma_context) \<Rightarrow> vma_context \<Rightarrow> abort + vma_context" where
  "output_times 0 out ctx = Inr ctx"
| "output_times (Suc n) out ctx = bind_res (out ctx) (output_times n out)"

section \<open>Pass 2\<close>

text \<open>The result of an evaluation is not looked at, only the value the node then has.\<close>

definition evaluated :: "asm_env \<Rightarrow> nat \<Rightarrow> (u32 \<Rightarrow> vma_context \<Rightarrow> abort + vma_context) \<Rightarrow> vma_context \<Rightarrow> abort + vma_context" where
  "evaluated E e f ctx = bind_res (evaluate_expr E e ctx) (\<lambda>(ok, ctx). f (value_of ctx e) ctx)"

primrec output_exprs :: "asm_env \<Rightarrow> (u32 \<Rightarrow> vma_context \<Rightarrow> abort + vma_context) \<Rightarrow> nat list \<Rightarrow> vma_context \<Rightarrow> abort + vma_context" where
  "output_exprs E out [] ctx = Inr ctx"
| "output_exprs E out (e # es) ctx = bind_res (evaluated E e out ctx) (output_exprs E out es)"

primrec output_text :: "asm_env \<Rightarrow> u8 list \<Rightarrow> vma_context \<Rightarrow> abort + vma_context" where
  "output_text E [] ctx = Inr ctx"
| "output_text E (x # xs) ctx = bind_res (vma_output_u8 E x ctx) (output_text E xs)"

definition emit_byte_operand :: "asm_env \<Rightarrow> u32 \<Rightarrow> vma_context \<Rightarrow> abort + vma_context" where
  "emit_byte_operand E v ctx = (if v > 0xFF then vma_error ctx else vma_output_u8 E (ucast v) ctx)"

definition emit_branch :: "asm_env \<Rightarrow> u32 \<Rightarrow> u32 \<Rightarrow> vma_context \<Rightarrow> abort + vma_context" where
  "emit_branch E start v ctx =
     (let diff = v - (start + 2)
      in bind_res (if sint diff > 127 \<or> sint diff < - 128 then vma_error ctx else Inr ctx) (vma_output_u8 E (ucast diff)))"

definition operand_expr :: "vma_insn \<Rightarrow> (nat \<Rightarrow> vma_context \<Rightarrow> abort + vma_context) \<Rightarrow> vma_context \<Rightarrow> abort + vma_context" where
  "operand_expr insn f ctx = (case insn_u insn of Expr e \<Rightarrow> f e ctx | _ \<Rightarrow> Inl Bad_pointer)"

definition operand_list :: "vma_insn \<Rightarrow> (nat list \<Rightarrow> vma_context \<Rightarrow> abort + vma_context) \<Rightarrow> vma_context \<Rightarrow> abort + vma_context" where
  "operand_list insn f ctx = (case insn_u insn of Expr_list es \<Rightarrow> f es ctx | _ \<Rightarrow> Inl Bad_pointer)"

definition emit_opcode :: "asm_env \<Rightarrow> vma_insn \<Rightarrow> vma_context \<Rightarrow> abort + vma_context" where
  "emit_opcode E insn ctx =
     (if insn_type insn < INSN_ASM_KEYWORDS
      then vma_output_u8 E (vm_insn_to_opcode ! insn_number (insn_type insn)) ctx else Inr ctx)"

definition emit_padding :: "asm_env \<Rightarrow> vma_insn \<Rightarrow> vma_context \<Rightarrow> abort + vma_context" where
  "emit_padding E insn ctx =
     (if insn_type insn \<in> {INSN_DEFH, INSN_RESH, INSN_DEFW, INSN_RESW}
      then output_times (unat (align_bytes insn)) (vma_output_u8 E 0xAA) ctx else Inr ctx)"

definition emit_operand :: "asm_env \<Rightarrow> nat \<Rightarrow> vma_insn \<Rightarrow> vma_context \<Rightarrow> abort + vma_context" where
  "emit_operand E i insn ctx =
     (let t = insn_type insn in
      if t = INSN_SUBSTART \<or> t = INSN_SUBEND then Inr (enter_scope i ctx)
      else if t \<in> byte_operand then operand_expr insn (\<lambda>e. evaluated E e (emit_byte_operand E)) ctx
      else if t \<in> branches then operand_expr insn (\<lambda>e. evaluated E e (emit_branch E (start_addr insn))) ctx
      else if t = INSN_NCALL
      then (case insn_u insn of
              Symref (Sym symb) \<Rightarrow> (case sym_u symb of Ncall_id k \<Rightarrow> vma_output_u16 E (ucast k) ctx | _ \<Rightarrow> Inl Bad_pointer)
            | _ \<Rightarrow> Inl Bad_pointer)
      else if t = INSN_LDC_W then operand_expr insn (\<lambda>e. evaluated E e (vma_output_u32 E)) ctx
      else if t = INSN_LEA \<or> t = INSN_CALL
      then operand_expr insn (\<lambda>e. evaluated E e (\<lambda>v. vma_output_u32 E (v - (start_addr insn + 5)))) ctx
      else if t = INSN_DEFS
      then (case insn_u insn of Text_bytes xs \<Rightarrow> output_text E xs ctx | _ \<Rightarrow> Inl Bad_pointer)
      else if t = INSN_DEFB then operand_list insn (output_exprs E (\<lambda>v. vma_output_u8 E (ucast v))) ctx
      else if t = INSN_DEFH then operand_list insn (output_exprs E (\<lambda>v. vma_output_u16 E (ucast v))) ctx
      else if t = INSN_DEFW then operand_list insn (output_exprs E (vma_output_u32 E)) ctx
      else if t = INSN_RESB
      then operand_expr insn (\<lambda>e ctx. output_times (unat (value_of ctx e)) (vma_output_u8 E 0xCC) ctx) ctx
      else if t = INSN_RESH
      then operand_expr insn (\<lambda>e ctx. output_times (unat (value_of ctx e)) (vma_output_u16 E 0xCCCC) ctx) ctx
      else if t = INSN_RESW
      then operand_expr insn (\<lambda>e ctx. output_times (unat (value_of ctx e)) (vma_output_u32 E 0xCCCCCCCC) ctx) ctx
      else Inr ctx)"

definition vma_emit_insn :: "asm_env \<Rightarrow> nat \<Rightarrow> vma_context \<Rightarrow> abort + vma_context" where
  "vma_emit_insn E i ctx =
     (let insn = insns ctx ! i
      in bind_res (emit_opcode E insn ctx) (\<lambda>ctx. bind_res (emit_padding E insn ctx) (emit_operand E i insn)))"

section \<open>The image\<close>

text \<open>\<open>char\<close> is signed: a byte from 128 on is added with its sign.\<close>

definition vma_hash_name :: "u8 list \<Rightarrow> u32" where
  "vma_hash_name name = foldl (\<lambda>hash ch. (hash * 61 + scast ch) XOR drop_bit 16 hash) 0 name"

definition output_header :: "asm_env \<Rightarrow> u32 \<Rightarrow> u32 \<Rightarrow> u32 \<Rightarrow> vma_context \<Rightarrow> abort + vma_context" where
  "output_header E size_in_memory size_in_file ep_offset ctx =
     bind_res (output_text E [66, 65, 82, 70] ctx) (\<lambda>ctx.
     bind_res (vma_output_u32 E size_in_memory ctx) (\<lambda>ctx.
     bind_res (vma_output_u32 E size_in_file ctx) (\<lambda>ctx.
     bind_res (vma_output_u32 E ep_offset ctx) (\<lambda>ctx.
     bind_res (vma_output_u16 E (of_nat (length (ncalls ctx))) ctx) (\<lambda>ctx.
     bind_res (vma_output_u16 E 0xFFFF ctx) (\<lambda>ctx.
     bind_res (vma_output_u32 E 0xFFFF ctx) (\<lambda>ctx.
     bind_res (vma_output_u32 E 0xFFFF ctx) (vma_output_u32 E 0xFFFF))))))))"

text \<open>Instructions from \<open>i\<close> on, until one starts at or behind \<open>bss_va\<close>.\<close>

primrec emit_loop :: "asm_env \<Rightarrow> nat \<Rightarrow> nat \<Rightarrow> vma_context \<Rightarrow> abort + vma_context" where
  "emit_loop E 0 i ctx = Inr ctx"
| "emit_loop E (Suc n) i ctx =
     (if start_addr (insns ctx ! i) < bss_va ctx
      then bind_res (vma_emit_insn E i ctx) (emit_loop E n (Suc i)) else Inr ctx)"

primrec output_ncalls :: "asm_env \<Rightarrow> vma_symtab \<Rightarrow> vma_context \<Rightarrow> abort + vma_context" where
  "output_ncalls E [] ctx = Inr ctx"
| "output_ncalls E (symb # tab) ctx =
     bind_res (vma_output_u32 E (vma_hash_name (ascii (sym_name symb))) ctx) (output_ncalls E tab)"

definition vma_generate :: "asm_env \<Rightarrow> vma_context \<Rightarrow> abort + vma_context" where
  "vma_generate E ctx =
     (let size_in_memory = end_va ctx - start_va ctx; size_in_file = bss_va ctx - start_va ctx
      in case vma_symtab_lookup (globals ctx) (start_symbol ctx) of
           None \<Rightarrow> vma_abort ''start symbol '%s' not defined''
         | Some ep_sym \<Rightarrow> (case sym_u ep_sym of
             Location i \<Rightarrow>
               bind_res (output_header E size_in_memory size_in_file (start_addr (insns ctx ! i) - start_va ctx) ctx) (\<lambda>ctx.
               bind_res (emit_loop E (length (insns ctx)) 0 ctx) (\<lambda>ctx.
               output_ncalls E (ncalls ctx) ctx))
           | _ \<Rightarrow> Inl Bad_pointer))"

section \<open>The stages\<close>

definition vma_main :: "asm_env \<Rightarrow> (nat \<Rightarrow> vma_expr) \<Rightarrow> stmt list \<Rightarrow> abort + u8 list" where
  "vma_main E junk sts =
     bind_res (parse_stmts sts (vma_context_init junk)) (\<lambda>ctx.
     bind_res (vma_abort_on_errors ctx) (\<lambda>ctx.
     bind_res (vma_assemble E (ctx\<lparr>start_va := 0, bss_va := 0, end_va := 0\<rparr>)) (\<lambda>ctx.
     bind_res (vma_abort_on_errors ctx) (\<lambda>ctx.
     bind_res (vma_generate E ctx) (\<lambda>ctx.
     bind_res (vma_abort_on_errors ctx) (\<lambda>ctx. Inr (vma_output ctx)))))))"

end
