(* ===== verification/Vma_Wf.thy ===== *)
theory Vma_Wf
  imports Vma_Out
begin

text \<open>
  When the data of the assembler are well formed, and what an evaluation does to them: it keeps
  them well formed, changes only the values of nodes and the references it resolves, fails only
  with an error counted, returns with a bounded amount of fuel, and leaves alone every node that
  no node and no constant refers to.
\<close>

section \<open>Well-formed data\<close>

text \<open>The children of a node are older than the node, which is how the parser builds them.\<close>

definition node_ok :: "nat \<Rightarrow> vma_expr \<Rightarrow> bool" where
  "node_ok n x \<longleftrightarrow>
     (case expr_type x of
        EXPR_LITERAL \<Rightarrow> True
      | EXPR_SYMREF \<Rightarrow> (case expr_u x of Ref r \<Rightarrow> True | _ \<Rightarrow> False)
      | op \<Rightarrow> (case expr_u x of
            Children (Some a) (Some b) \<Rightarrow> a < n \<and> b < n
          | Children (Some a) None \<Rightarrow> a < n \<and> \<not> is_binary op
          | _ \<Rightarrow> False))"

definition exprs_ok :: "vma_context \<Rightarrow> bool" where
  "exprs_ok ctx \<longleftrightarrow> (\<forall>n < next_expr ctx. node_ok n (exprs ctx n))"

text \<open>A label has the place of its instruction and a constant its expression.\<close>

definition symbol_ok :: "nat \<Rightarrow> nat \<Rightarrow> vma_symbol \<Rightarrow> bool" where
  "symbol_ok ninsns nexprs symb \<longleftrightarrow>
     (case sym_type symb of
        SYM_LABEL \<Rightarrow> (case sym_u symb of Location i \<Rightarrow> i < ninsns | _ \<Rightarrow> False)
      | SYM_CONSTANT \<Rightarrow> (case sym_u symb of Value_expr v \<Rightarrow> v < nexprs | _ \<Rightarrow> False)
      | _ \<Rightarrow> False)"

definition all_symbols :: "vma_context \<Rightarrow> vma_symbol set" where
  "all_symbols ctx = set (globals ctx) \<union> (\<Union>i < length (insns ctx). set (sub_symtab ctx i))"

definition symbols_ok :: "vma_context \<Rightarrow> bool" where
  "symbols_ok ctx \<longleftrightarrow> (\<forall>symb \<in> all_symbols ctx. symbol_ok (length (insns ctx)) (next_expr ctx) symb)"

definition scope_ok :: "vma_context \<Rightarrow> bool" where
  "scope_ok ctx \<longleftrightarrow> (case lookup_stack ctx of
     Globals \<Rightarrow> True | Sub i \<Rightarrow> i < length (insns ctx) \<and> insn_type (insns ctx ! i) = INSN_SUBSTART)"

definition data_ok :: "vma_context \<Rightarrow> bool" where
  "data_ok ctx \<longleftrightarrow> exprs_ok ctx \<and> symbols_ok ctx \<and> scope_ok ctx"

lemma lookup_in: "vma_symtab_lookup tab name = Some symb \<Longrightarrow> symb \<in> set tab \<and> sym_name symb = name"
  by (induction tab) (auto split: if_splits)

lemma lookup_chain_in: "vma_symtab_lookup_chain tabs name = Some symb \<Longrightarrow> sym_name symb = name \<and> (\<exists>tab \<in> set tabs. symb \<in> set tab)"
  by (induction tabs) (auto split: option.splits dest: lookup_in)

lemma found_symbol:
  assumes "vma_symtab_lookup_chain (lookup_tables ctx) name = Some symb" and "scope_ok ctx"
  shows "symb \<in> all_symbols ctx" and "sym_name symb = name"
  using lookup_chain_in [OF assms(1)] assms(2)
  by (auto simp: lookup_tables_def all_symbols_def scope_ok_def split: scope.splits)

lemma resolve_found:
  "vma_symref_resolve raws r tabs = Some r' \<longleftrightarrow>
     (\<exists>symb. vma_symtab_lookup_chain tabs (symref_name raws r) = Some symb \<and> r' = Sym symb)"
  by (auto simp: vma_symref_resolve_def)

section \<open>What an evaluation changes\<close>

definition resolved_from :: "expr_union \<Rightarrow> expr_union \<Rightarrow> bool" where
  "resolved_from u u' \<longleftrightarrow> u' = u \<or> (\<exists>r symb. u = Ref r \<and> u' = Ref (Sym symb))"

definition evaluates :: "vma_context \<Rightarrow> vma_context \<Rightarrow> bool" where
  "evaluates ctx ctx' \<longleftrightarrow>
     ctx' = ctx\<lparr>exprs := exprs ctx', vma_errors := vma_errors ctx'\<rparr> \<and> vma_errors ctx \<le> vma_errors ctx' \<and>
     (\<forall>n. expr_type (exprs ctx' n) = expr_type (exprs ctx n) \<and>
          resolved_from (expr_u (exprs ctx n)) (expr_u (exprs ctx' n)))"

lemma resolved_from_refl [simp]: "resolved_from u u"
  by (simp add: resolved_from_def)

lemma resolved_from_trans: "resolved_from u v \<Longrightarrow> resolved_from v w \<Longrightarrow> resolved_from u w"
  by (auto simp: resolved_from_def)

lemma evaluates_refl [simp]: "evaluates ctx ctx"
  by (simp add: evaluates_def)

lemma evaluates_trans [trans]: "evaluates c1 c2 \<Longrightarrow> evaluates c2 c3 \<Longrightarrow> evaluates c1 c3"
  unfolding evaluates_def by (cases c1; cases c2; cases c3) (auto intro: resolved_from_trans)

lemma evaluates_fields:
  assumes "evaluates ctx ctx'"
  shows "globals ctx' = globals ctx" "ncalls ctx' = ncalls ctx" "lookup_stack ctx' = lookup_stack ctx"
    "insns ctx' = insns ctx" "start_va ctx' = start_va ctx" "bss_va ctx' = bss_va ctx" "end_va ctx' = end_va ctx"
    "next_expr ctx' = next_expr ctx" "vma_output ctx' = vma_output ctx" "start_symbol ctx' = start_symbol ctx"
    "sub_symtab ctx' = sub_symtab ctx" "lookup_tables ctx' = lookup_tables ctx" "all_symbols ctx' = all_symbols ctx"
  using assms unfolding evaluates_def
  by (cases ctx; cases ctx'; simp add: sub_symtab_def lookup_tables_def all_symbols_def fun_eq_iff split: scope.splits)+

lemma evaluates_node:
  assumes "evaluates ctx ctx'"
  shows "expr_type (exprs ctx' n) = expr_type (exprs ctx n)"
    and "expr_u (exprs ctx n) = Children a b \<Longrightarrow> expr_u (exprs ctx' n) = Children a b"
    and "vma_errors ctx \<le> vma_errors ctx'"
  using assms unfolding evaluates_def resolved_from_def by (metis expr_union.distinct(1))+

lemma node_ok_resolved:
  "expr_type y = expr_type x \<Longrightarrow> resolved_from (expr_u x) (expr_u y) \<Longrightarrow> node_ok n x \<Longrightarrow> node_ok n y"
  by (auto simp: node_ok_def resolved_from_def split: vma_expr_type.splits expr_union.splits option.splits)

lemma evaluates_ok:
  assumes "evaluates ctx ctx'" and "data_ok ctx" shows "data_ok ctx'"
proof -
  have "exprs_ok ctx'"
    using assms node_ok_resolved by (fastforce simp: data_ok_def exprs_ok_def evaluates_def evaluates_fields [OF assms(1)])
  then show ?thesis
    using assms(2) by (simp add: data_ok_def symbols_ok_def scope_ok_def evaluates_fields [OF assms(1)] split: scope.splits)
qed

lemma vma_error_cases:
  "vma_error ctx = Inr ctx' \<Longrightarrow> ctx' = ctx\<lparr>vma_errors := Suc (vma_errors ctx)\<rparr>"
  "vma_error ctx = Inl a \<Longrightarrow> \<exists>msg. a = Aborted msg"
  by (auto simp: vma_error_def vma_abort_def Let_def split: if_splits)

lemma evaluates_error [simp]: "evaluates ctx (ctx\<lparr>vma_errors := Suc (vma_errors ctx)\<rparr>)"
  by (simp add: evaluates_def)

lemma evaluates_set_value [simp]: "evaluates ctx (set_value e v ctx)"
  by (simp add: evaluates_def set_value_def set_expr_def)

lemma evaluates_resolve:
  "expr_u (exprs ctx e) = Ref r \<Longrightarrow> evaluates ctx (set_expr e (\<lambda>node. node\<lparr>expr_u := Ref (Sym symb)\<rparr>) ctx)"
  by (simp add: evaluates_def set_expr_def resolved_from_def)

text \<open>An evaluation that fails has counted an error.\<close>

definition tells :: "vma_context \<Rightarrow> bool \<Rightarrow> vma_context \<Rightarrow> bool" where
  "tells ctx ok ctx' \<longleftrightarrow> evaluates ctx ctx' \<and> (ok \<or> vma_errors ctx < vma_errors ctx')"

lemma tells_trans: "evaluates c1 c2 \<Longrightarrow> tells c2 ok c3 \<Longrightarrow> tells c1 ok c3"
  by (auto simp: tells_def intro: evaluates_trans dest: evaluates_node(3))

lemma evaluates_then_value: "evaluates c1 c2 \<Longrightarrow> evaluates c2 c3 \<Longrightarrow> evaluates c3 c4 \<Longrightarrow> evaluates c1 (set_value e v c4)"
  by (meson evaluates_trans evaluates_set_value)

lemma errors_later: "evaluates c1 c2 \<Longrightarrow> vma_errors c2 < n \<Longrightarrow> vma_errors c1 < n"
  using evaluates_node(3) le_less_trans by blast

lemma tells_failed: "failed ctx = Inr (ok, ctx') \<Longrightarrow> tells ctx ok ctx'"
  by (auto simp: failed_def bind_res_eq_Inr tells_def dest!: vma_error_cases(1))

lemma tells_binary_op:
  "binary_op op l r ctx = Inr (v, ctx') \<Longrightarrow> evaluates ctx ctx'"
  by (auto simp: binary_op_def bind_res_eq_Inr split: vma_expr_type.splits if_splits dest!: vma_error_cases(1))

lemma tells_symref:
  assumes "vma_passx_evaluate_symref names evaluate e ctx = Inr (ok, ctx')"
    and "\<And>v c ok c'. evaluate v c = Inr (ok, c') \<Longrightarrow> tells c ok c'"
  shows "tells ctx ok ctx'"
proof -
  obtain r where r: "expr_u (exprs ctx e) = Ref r"
    using assms(1) by (cases "expr_u (exprs ctx e)") (auto simp: vma_passx_evaluate_symref_def)
  show ?thesis
  proof (cases "vma_symref_resolve names r (lookup_tables ctx)")
    case None
    then show ?thesis using assms(1) r by (simp add: vma_passx_evaluate_symref_def tells_failed)
  next
    case (Some x)
    then obtain symb where x: "x = Sym symb" by (auto simp: resolve_found)
    let ?c = "set_expr e (\<lambda>node. node\<lparr>expr_u := Ref (Sym symb)\<rparr>) ctx"
    have "tells ?c ok ctx'"
      using assms(1) Some r x
      by (auto simp: vma_passx_evaluate_symref_def vma_abort_def bind_res_eq_Inr Let_def tells_failed
          split: vma_symbol_type.splits symbol_value.splits if_splits dest!: assms(2))
        (auto simp: tells_def intro: evaluates_trans [OF _ evaluates_set_value])
    then show ?thesis using evaluates_resolve [OF r] by (blast intro: tells_trans)
  qed
qed

text \<open>The four kinds of node.\<close>

lemma node_kinds:
  obtains "t = EXPR_LITERAL" | "t = EXPR_SYMREF" | "is_binary t" | "t = EXPR_NEG \<or> t = EXPR_NOT"
  by (cases t) (auto simp: is_binary_def)

lemma evaluate_leaf:
  "expr_type (exprs ctx e) = EXPR_LITERAL \<Longrightarrow> vma_passx_evaluate_expr names (Suc n) e ctx = Inr (True, ctx)"
  "expr_type (exprs ctx e) = EXPR_SYMREF \<Longrightarrow>
     vma_passx_evaluate_expr names (Suc n) e ctx = vma_passx_evaluate_symref names (vma_passx_evaluate_expr names n) e ctx"
  by simp_all

lemma evaluate_binary:
  assumes "is_binary (expr_type (exprs ctx e))"
  shows "vma_passx_evaluate_expr names (Suc n) e ctx =
    (case expr_u (exprs ctx e) of
       Children (Some a) (Some b) \<Rightarrow>
         bind_res (vma_passx_evaluate_expr names n a ctx) (\<lambda>(ok, c). if \<not> ok then Inr (False, c) else
         bind_res (vma_passx_evaluate_expr names n b c) (\<lambda>(ok, c). if \<not> ok then Inr (False, c) else
         bind_res (binary_op (expr_type (exprs ctx e)) (value_of c a) (value_of c b) c)
           (\<lambda>(v, c). Inr (True, set_value e v c))))
     | _ \<Rightarrow> Inl Bad_pointer)"
  using assms by (auto simp: Let_def is_binary_def cong: expr_union.case_cong)

lemma evaluate_unary:
  assumes "expr_type (exprs ctx e) = EXPR_NEG \<or> expr_type (exprs ctx e) = EXPR_NOT"
  shows "vma_passx_evaluate_expr names (Suc n) e ctx =
    (case expr_u (exprs ctx e) of
       Children (Some a) b \<Rightarrow>
         bind_res (vma_passx_evaluate_expr names n a ctx) (\<lambda>(ok, c). if \<not> ok then Inr (False, c) else
         Inr (True, set_value e (if expr_type (exprs ctx e) = EXPR_NEG then - value_of c a else NOT (value_of c a)) c))
     | _ \<Rightarrow> Inl Bad_pointer)"
  using assms by (auto simp: Let_def is_binary_def cong: if_cong option.case_cong expr_union.case_cong)

lemma evaluate_binaryE:
  assumes "vma_passx_evaluate_expr names (Suc n) e ctx = Inr (ok, ctx')" and "is_binary (expr_type (exprs ctx e))"
  obtains a b where "expr_u (exprs ctx e) = Children (Some a) (Some b)" "\<not> ok"
      "vma_passx_evaluate_expr names n a ctx = Inr (False, ctx')"
  | a b c1 where "expr_u (exprs ctx e) = Children (Some a) (Some b)" "\<not> ok"
      "vma_passx_evaluate_expr names n a ctx = Inr (True, c1)" "vma_passx_evaluate_expr names n b c1 = Inr (False, ctx')"
  | a b c1 c2 v c3 where "expr_u (exprs ctx e) = Children (Some a) (Some b)" ok
      "vma_passx_evaluate_expr names n a ctx = Inr (True, c1)" "vma_passx_evaluate_expr names n b c1 = Inr (True, c2)"
      "binary_op (expr_type (exprs ctx e)) (value_of c2 a) (value_of c2 b) c2 = Inr (v, c3)" "ctx' = set_value e v c3"
  using assms(1) unfolding evaluate_binary [OF assms(2)]
  by (fastforce simp: bind_res_eq_Inr split: expr_union.splits option.splits if_splits)

lemma evaluate_unaryE:
  assumes "vma_passx_evaluate_expr names (Suc n) e ctx = Inr (ok, ctx')"
    and "expr_type (exprs ctx e) = EXPR_NEG \<or> expr_type (exprs ctx e) = EXPR_NOT"
  obtains a b where "expr_u (exprs ctx e) = Children (Some a) b" "\<not> ok"
      "vma_passx_evaluate_expr names n a ctx = Inr (False, ctx')"
  | a b c v where "expr_u (exprs ctx e) = Children (Some a) b" ok
      "vma_passx_evaluate_expr names n a ctx = Inr (True, c)" "ctx' = set_value e v c"
      "v = (if expr_type (exprs ctx e) = EXPR_NEG then - value_of c a else NOT (value_of c a))"
  using assms(1) unfolding evaluate_unary [OF assms(2)]
  by (fastforce simp: bind_res_eq_Inr split: expr_union.splits option.splits if_splits)

declare vma_passx_evaluate_expr.simps(2) [simp del]

lemma evaluate_tells: "vma_passx_evaluate_expr names n e ctx = Inr (ok, ctx') \<Longrightarrow> tells ctx ok ctx'"
proof (induction n arbitrary: e ctx ok ctx')
  case (Suc n)
  show ?case
  proof (cases rule: node_kinds [of "expr_type (exprs ctx e)"])
    case 1
    then show ?thesis using Suc.prems by (simp add: evaluate_leaf tells_def)
  next
    case 2
    then show ?thesis using Suc.prems by (simp add: evaluate_leaf tells_symref [OF _ Suc.IH])
  next
    case 3
    from Suc.prems this show ?thesis
      by (cases rule: evaluate_binaryE)
        (auto dest!: Suc.IH tells_binary_op simp: tells_def intro: evaluates_then_value evaluates_trans errors_later)
  next
    case 4
    from Suc.prems this show ?thesis
      by (cases rule: evaluate_unaryE)
        (auto dest!: Suc.IH simp: tells_def intro: evaluates_trans [OF _ evaluates_set_value])
  qed
qed simp

lemmas evaluate_evaluates = evaluate_tells [unfolded tells_def, THEN conjunct1]

section \<open>Nodes an evaluation cannot reach\<close>

definition kids :: "vma_expr \<Rightarrow> nat set" where
  "kids x = (if expr_type x = EXPR_LITERAL \<or> expr_type x = EXPR_SYMREF then {}
     else case expr_u x of Children a b \<Rightarrow> set_option a \<union> set_option b | Ref r \<Rightarrow> {})"

text \<open>No node and no constant refers to the node: it is the root of an operand.\<close>

definition unreached :: "vma_context \<Rightarrow> nat \<Rightarrow> bool" where
  "unreached ctx r \<longleftrightarrow> (\<forall>n < next_expr ctx. r \<notin> kids (exprs ctx n)) \<and> (\<forall>symb \<in> all_symbols ctx. sym_u symb \<noteq> Value_expr r)"

lemma evaluates_unreached:
  assumes "evaluates ctx ctx'" and "unreached ctx r" shows "unreached ctx' r"
proof -
  have "kids (exprs ctx' n) = kids (exprs ctx n)" for n
    using assms(1) unfolding evaluates_def kids_def resolved_from_def by (metis expr_union.simps(6))
  then show ?thesis using assms(2) by (simp add: unreached_def evaluates_fields [OF assms(1)])
qed

lemma node_okD:
  assumes "exprs_ok ctx" and "e < next_expr ctx"
  shows "expr_type (exprs ctx e) = EXPR_SYMREF \<Longrightarrow> \<exists>r. expr_u (exprs ctx e) = Ref r"
    and "is_binary (expr_type (exprs ctx e)) \<Longrightarrow> \<exists>a b. expr_u (exprs ctx e) = Children (Some a) (Some b) \<and> a < e \<and> b < e"
    and "expr_type (exprs ctx e) = EXPR_NEG \<or> expr_type (exprs ctx e) = EXPR_NOT \<Longrightarrow>
      \<exists>a b. expr_u (exprs ctx e) = Children (Some a) b \<and> a < e"
proof -
  have ok: "node_ok e (exprs ctx e)" using assms by (simp add: exprs_ok_def)
  show "expr_type (exprs ctx e) = EXPR_SYMREF \<Longrightarrow> \<exists>r. expr_u (exprs ctx e) = Ref r"
    using ok by (auto simp: node_ok_def split: expr_union.splits)
  show "is_binary (expr_type (exprs ctx e)) \<Longrightarrow> \<exists>a b. expr_u (exprs ctx e) = Children (Some a) (Some b) \<and> a < e \<and> b < e"
    using ok by (cases "expr_type (exprs ctx e)") (auto simp: is_binary_def node_ok_def split: expr_union.splits option.splits)
  show "expr_type (exprs ctx e) = EXPR_NEG \<or> expr_type (exprs ctx e) = EXPR_NOT \<Longrightarrow>
      \<exists>a b. expr_u (exprs ctx e) = Children (Some a) b \<and> a < e"
    using ok by (cases "expr_type (exprs ctx e)") (auto simp: node_ok_def split: expr_union.splits option.splits)
qed

lemma constant_in:
  assumes "data_ok ctx" and "vma_symtab_lookup_chain (lookup_tables ctx) name = Some symb"
  shows "symb \<in> all_symbols ctx" and "symbol_ok (length (insns ctx)) (next_expr ctx) symb"
  using found_symbol(1) [OF assms(2)] assms(1) by (auto simp: data_ok_def symbols_ok_def)

lemma value_of_set [simp]: "value_of (set_value e v ctx) r = (if r = e then v else value_of ctx r)"
  by (simp add: value_of_def set_value_def set_expr_def)

lemma value_of_resolve [simp]: "value_of (set_expr e (\<lambda>node. node\<lparr>expr_u := u\<rparr>) ctx) r = value_of ctx r"
  by (simp add: value_of_def set_expr_def)

lemma value_of_error [simp]: "value_of (ctx\<lparr>vma_errors := n\<rparr>) r = value_of ctx r"
  by (simp add: value_of_def)

lemma value_of_failed: "failed ctx = Inr (ok, ctx') \<Longrightarrow> value_of ctx' r = value_of ctx r"
  by (auto simp: failed_def bind_res_eq_Inr dest!: vma_error_cases(1))

lemma value_of_binary_op: "binary_op op x y ctx = Inr (v, ctx') \<Longrightarrow> value_of ctx' r = value_of ctx r"
  by (auto simp: binary_op_def bind_res_eq_Inr split: vma_expr_type.splits if_splits dest!: vma_error_cases(1))

text \<open>A reference that evaluates: the label's address, or the value of the constant's expression.\<close>

lemma evaluate_symrefE:
  assumes "vma_passx_evaluate_symref names evaluate e ctx = Inr (ok, ctx')"
  obtains "failed ctx = Inr (ok, ctx')"
  | r symb i where "expr_u (exprs ctx e) = Ref r"
      "vma_symtab_lookup_chain (lookup_tables ctx) (symref_name names r) = Some symb"
      "failed (set_expr e (\<lambda>node. node\<lparr>expr_u := Ref (Sym symb)\<rparr>) ctx) = Inr (ok, ctx')"
  | r symb i where "expr_u (exprs ctx e) = Ref r"
      "vma_symtab_lookup_chain (lookup_tables ctx) (symref_name names r) = Some symb"
      "sym_type symb = SYM_LABEL" "sym_u symb = Location i" "allocated (insns ctx ! i)" ok
      "ctx' = set_value e (start_addr (insns ctx ! i)) (set_expr e (\<lambda>node. node\<lparr>expr_u := Ref (Sym symb)\<rparr>) ctx)"
  | r symb v c where "expr_u (exprs ctx e) = Ref r"
      "vma_symtab_lookup_chain (lookup_tables ctx) (symref_name names r) = Some symb"
      "sym_type symb = SYM_CONSTANT" "sym_u symb = Value_expr v"
      "evaluate v (set_expr e (\<lambda>node. node\<lparr>expr_u := Ref (Sym symb)\<rparr>) ctx) = Inr (ok, c)"
      "ctx' = (if ok then set_value e (value_of c v) c else c)"
proof -
  obtain r where r: "expr_u (exprs ctx e) = Ref r"
    using assms by (cases "expr_u (exprs ctx e)") (auto simp: vma_passx_evaluate_symref_def)
  show ?thesis
  proof (cases "vma_symref_resolve names r (lookup_tables ctx)")
    case None
    then show ?thesis using assms r that(1) by (simp add: vma_passx_evaluate_symref_def)
  next
    case (Some x)
    then obtain symb where x: "x = Sym symb" and l: "vma_symtab_lookup_chain (lookup_tables ctx) (symref_name names r) = Some symb"
      by (auto simp: resolve_found)
    have ev: "insns (set_expr e f ctx) = insns ctx" for f by (simp add: set_expr_def)
    show ?thesis
      using assms Some x r that(2-4) [OF r l]
      by (auto simp: vma_passx_evaluate_symref_def vma_abort_def bind_res_eq_Inr Let_def ev
          split: vma_symbol_type.splits symbol_value.splits if_splits)
  qed
qed

lemma evaluate_frame:
  "vma_passx_evaluate_expr names n e ctx = Inr (ok, ctx') \<Longrightarrow> data_ok ctx \<Longrightarrow> e < next_expr ctx \<Longrightarrow> unreached ctx r \<Longrightarrow> r \<noteq> e
    \<Longrightarrow> value_of ctx' r = value_of ctx r"
proof (induction n arbitrary: e ctx ok ctx')
  case (Suc n)
  have later: "value_of c' r = value_of c r"
    if "vma_passx_evaluate_expr names n a c = Inr (ok, c')" "evaluates ctx c" "a < next_expr ctx" "r \<noteq> a" for a c c' ok
    using Suc.IH [OF that(1)] evaluates_ok [OF that(2) Suc.prems(2)] evaluates_unreached [OF that(2) Suc.prems(4)] that
    by (simp add: evaluates_fields [OF that(2)])
  have kid: "r \<noteq> a" if "a \<in> kids (exprs ctx e)" for a
    using Suc.prems(3,4) that by (auto simp: unreached_def)
  note ok = Suc.prems(2) [unfolded data_ok_def, THEN conjunct1]
  show ?case
  proof (cases rule: node_kinds [of "expr_type (exprs ctx e)"])
    case 1
    then show ?thesis using Suc.prems by (simp add: evaluate_leaf)
  next
    case 2
    then have "vma_passx_evaluate_symref names (vma_passx_evaluate_expr names n) e ctx = Inr (ok, ctx')"
      using Suc.prems by (simp add: evaluate_leaf)
    then show ?thesis
    proof (cases rule: evaluate_symrefE)
      case (4 r' symb v c)
      have "r \<noteq> v" "v < next_expr ctx"
        using constant_in [OF Suc.prems(2) 4(2)] 4(3,4) Suc.prems(4) by (auto simp: unreached_def symbol_ok_def)
      then have "value_of c r = value_of ctx r"
        using later [OF 4(5) evaluates_resolve [OF 4(1)]] by simp
      then show ?thesis using 4 Suc.prems(5) by simp
    qed (use Suc.prems(5) in \<open>auto dest: value_of_failed [where r = r]\<close>)
  next
    case 3
    then obtain a b where ab: "expr_u (exprs ctx e) = Children (Some a) (Some b)" "a < e" "b < e"
      using node_okD(2) [OF ok Suc.prems(3)] by auto
    then have "r \<noteq> a" "r \<noteq> b" using 3 by (auto intro!: kid simp: kids_def is_binary_def)
    have both: "value_of c2 r = value_of ctx r"
      if "vma_passx_evaluate_expr names n a ctx = Inr (ok1, c1)" "vma_passx_evaluate_expr names n b c1 = Inr (ok2, c2)"
      for ok1 ok2 c1 c2
      using later [OF that(1)] later [OF that(2) evaluate_evaluates [OF that(1)]] ab \<open>r \<noteq> a\<close> \<open>r \<noteq> b\<close> Suc.prems(3) by simp
    from Suc.prems(1) 3 show ?thesis
      by (cases rule: evaluate_binaryE)
        (use ab \<open>r \<noteq> a\<close> Suc.prems(3,5) in \<open>auto simp: later both value_of_binary_op [where r = r]\<close>)
  next
    case 4
    then obtain a b where ab: "expr_u (exprs ctx e) = Children (Some a) b" "a < e"
      using node_okD(3) [OF ok Suc.prems(3)] by auto
    then have "r \<noteq> a" using 4 by (auto intro!: kid simp: kids_def)
    from Suc.prems(1) 4 show ?thesis
      by (cases rule: evaluate_unaryE) (use ab \<open>r \<noteq> a\<close> Suc.prems(3,5) in \<open>auto simp: later\<close>)
  qed
qed simp

section \<open>Evaluation returns\<close>

text \<open>
  A run is \<open>well_ended\<close> unless it runs out of fuel or follows a bad pointer. Following a reference
  uses up an unresolved name, and going to a child leads to an older node. A reference met a second
  time is not followed when the bytes of a symbol are no symbol's name.
\<close>

definition well_ended :: "abort + 'a \<Rightarrow> bool" where
  "well_ended r \<longleftrightarrow> r \<noteq> Inl Out_of_fuel \<and> r \<noteq> Inl Bad_pointer"

lemma well_ended_simps [simp]: "well_ended (Inr x)" "well_ended (vma_abort msg)" "well_ended (vma_error ctx)"
  "well_ended (failed ctx)" "well_ended (vma_abort_on_errors ctx)" "\<not> well_ended (Inl Bad_pointer)" "\<not> well_ended (Inl Out_of_fuel)"
  by (auto simp: well_ended_def vma_abort_def vma_error_def failed_def vma_abort_on_errors_def Let_def)

lemma well_ended_bind: "well_ended r \<Longrightarrow> (\<And>x. r = Inr x \<Longrightarrow> well_ended (f x)) \<Longrightarrow> well_ended (bind_res r f)"
  by (cases r) (auto simp: well_ended_def)

definition foreign :: "raw_names \<Rightarrow> vma_context \<Rightarrow> bool" where
  "foreign names ctx \<longleftrightarrow> (\<forall>symb \<in> all_symbols ctx. sym_name symb \<notin> range names)"

definition unresolved :: "vma_context \<Rightarrow> nat" where
  "unresolved ctx = card {n. n < next_expr ctx \<and> (\<exists>name. expr_u (exprs ctx n) = Ref (Name name))}"

lemma evaluates_unresolved:
  assumes "evaluates ctx ctx'" shows "unresolved ctx' \<le> unresolved ctx"
proof -
  have "expr_u (exprs ctx n) = Ref (Name name)" if "expr_u (exprs ctx' n) = Ref (Name name)" for n name
  proof -
    have "resolved_from (expr_u (exprs ctx n)) (expr_u (exprs ctx' n))" using assms by (simp add: evaluates_def)
    then show ?thesis using that by (auto simp: resolved_from_def)
  qed
  then have "{n. n < next_expr ctx' \<and> (\<exists>name. expr_u (exprs ctx' n) = Ref (Name name))}
      \<subseteq> {n. n < next_expr ctx \<and> (\<exists>name. expr_u (exprs ctx n) = Ref (Name name))}"
    unfolding evaluates_fields [OF assms] by blast
  then show ?thesis unfolding unresolved_def by (rule card_mono [rotated]) simp
qed

lemma resolve_unresolved:
  assumes "expr_u (exprs ctx e) = Ref (Name name)" and "e < next_expr ctx"
  shows "unresolved (set_expr e (\<lambda>node. node\<lparr>expr_u := Ref (Sym symb)\<rparr>) ctx) < unresolved ctx"
proof -
  let ?c = "set_expr e (\<lambda>node. node\<lparr>expr_u := Ref (Sym symb)\<rparr>) ctx"
  let ?U = "{n. n < next_expr ctx \<and> (\<exists>name. expr_u (exprs ctx n) = Ref (Name name))}"
  have "{n. n < next_expr ?c \<and> (\<exists>name. expr_u (exprs ?c n) = Ref (Name name))} = ?U - {e}"
    by (auto simp: set_expr_def)
  moreover have "e \<in> ?U" using assms by blast
  ultimately show ?thesis unfolding unresolved_def by (simp only:) (rule card_Diff1_less, simp_all)
qed

lemma foreign_evaluates: "evaluates ctx ctx' \<Longrightarrow> foreign names ctx \<Longrightarrow> foreign names ctx'"
  by (simp add: foreign_def evaluates_fields)

lemma evaluate_well_ended:
  "data_ok ctx \<Longrightarrow> foreign names ctx \<Longrightarrow> e < next_expr ctx \<Longrightarrow> unresolved ctx * Suc (next_expr ctx) + e < n
    \<Longrightarrow> well_ended (vma_passx_evaluate_expr names n e ctx)"
proof (induction n arbitrary: e ctx)
  case (Suc n)
  have kid: "well_ended (vma_passx_evaluate_expr names n a c)" if "evaluates ctx c" "a < e" for a c
  proof (rule Suc.IH)
    show "data_ok c" "foreign names c" using that Suc.prems(1,2) by (simp_all add: evaluates_ok foreign_evaluates)
    show "a < next_expr c" using that Suc.prems(3) by (simp add: evaluates_fields [OF that(1)])
    have "unresolved c * Suc (next_expr ctx) \<le> unresolved ctx * Suc (next_expr ctx)"
      using evaluates_unresolved [OF that(1)] by (rule mult_le_mono1)
    then show "unresolved c * Suc (next_expr c) + a < n"
      using that(2) Suc.prems(4) by (simp add: evaluates_fields [OF that(1)])
  qed
  note ok = Suc.prems(1) [unfolded data_ok_def, THEN conjunct1]
  show ?case
  proof (cases rule: node_kinds [of "expr_type (exprs ctx e)"])
    case 1
    then show ?thesis by (simp add: evaluate_leaf)
  next
    case 2
    then obtain r where r: "expr_u (exprs ctx e) = Ref r" using node_okD(1) [OF ok Suc.prems(3)] by auto
    show ?thesis
    proof (cases "vma_symtab_lookup_chain (lookup_tables ctx) (symref_name names r)")
      case None
      then show ?thesis using 2 r by (simp add: evaluate_leaf vma_passx_evaluate_symref_def vma_symref_resolve_def)
    next
      case (Some symb)
      then obtain name where name: "r = Name name"
        using Suc.prems(1,2) found_symbol [OF Some] by (cases r) (auto simp: foreign_def data_ok_def symref_name_def)
      let ?c = "set_expr e (\<lambda>node. node\<lparr>expr_u := Ref (Sym symb)\<rparr>) ctx"
      have ev: "evaluates ctx ?c" using r by (rule evaluates_resolve)
      have less: "unresolved ?c * Suc (next_expr ctx) + Suc (next_expr ctx) \<le> unresolved ctx * Suc (next_expr ctx)"
        using mult_le_mono1 [of "Suc (unresolved ?c)" "unresolved ctx" "Suc (next_expr ctx)"]
          resolve_unresolved [of ctx e name symb] r name Suc.prems(3) by simp
      have const: "well_ended (vma_passx_evaluate_expr names n v ?c)" if "v < next_expr ctx" for v
      proof (rule Suc.IH)
        show "data_ok ?c" "foreign names ?c" using ev Suc.prems(1,2) by (simp_all add: evaluates_ok foreign_evaluates)
        show "v < next_expr ?c" using that by (simp add: evaluates_fields [OF ev])
        show "unresolved ?c * Suc (next_expr ?c) + v < n"
          using that less Suc.prems(4) by (simp add: evaluates_fields [OF ev])
      qed
      show ?thesis
        using 2 r Some constant_in(2) [OF Suc.prems(1) Some]
        by (auto simp: evaluate_leaf vma_passx_evaluate_symref_def vma_symref_resolve_def Let_def symbol_ok_def
            split: vma_symbol_type.splits symbol_value.splits intro!: well_ended_bind const)
    qed
  next
    case 3
    then obtain a b where ab: "expr_u (exprs ctx e) = Children (Some a) (Some b)" "a < e" "b < e"
      using node_okD(2) [OF ok Suc.prems(3)] by auto
    have "well_ended (binary_op op x y c)" for op x y c
      by (auto simp: binary_op_def split: vma_expr_type.splits intro!: well_ended_bind)
    moreover have "well_ended (vma_passx_evaluate_expr names n b c)"
      if "vma_passx_evaluate_expr names n a ctx = Inr (ok1, c)" for ok1 c
      by (rule kid [OF evaluate_evaluates [OF that] ab(3)])
    ultimately show ?thesis
      using kid [of ctx a] ab by (auto simp: evaluate_binary [OF 3] intro!: well_ended_bind)
  next
    case 4
    then obtain a b where ab: "expr_u (exprs ctx e) = Children (Some a) b" "a < e"
      using node_okD(3) [OF ok Suc.prems(3)] by auto
    then show ?thesis by (auto simp: evaluate_unary [OF 4] intro!: well_ended_bind kid)
  qed
qed simp

end
