(* ===== verification/Vma_Parse.thy ===== *)
theory Vma_Parse
  imports Vma_Wf
begin

text \<open>
  What the actions of the grammar build: nodes that only refer to older nodes of the same
  expression, instructions with the operand their kind has, and, when no error was counted, labels
  and constants with their place and value.
\<close>

section \<open>What the grammar admits\<close>

primrec ast_ok :: "ast \<Rightarrow> bool" where
  "ast_ok (Int_lit v) = True"
| "ast_ok (Ident name) = True"
| "ast_ok (Binary op a b) = (is_binary op \<and> ast_ok a \<and> ast_ok b)"
| "ast_ok (Unary op a) = (op \<in> {EXPR_NEG, EXPR_NOT} \<and> ast_ok a)"

definition expr_operand :: "vma_insn_type set" where
  "expr_operand = byte_operand \<union> branches \<union> {INSN_LDC_W, INSN_LEA, INSN_CALL}"

definition data_insns :: "vma_insn_type set" where
  "data_insns = {INSN_DEFB, INSN_DEFH, INSN_DEFW}"

definition res_insns :: "vma_insn_type set" where
  "res_insns = {INSN_RESB, INSN_RESH, INSN_RESW}"

primrec body_ok :: "body \<Rightarrow> bool" where
  "body_ok (Machine t) = (t \<in> one_byte)"
| "body_ok (Machine_expr t a) = (t \<in> expr_operand \<and> ast_ok a)"
| "body_ok (Machine_ncall name) = True"
| "body_ok (Data t as) = (t \<in> data_insns \<and> as \<noteq> [] \<and> list_all ast_ok as)"
| "body_ok (Data_text xs) = True"
| "body_ok (Reserve t a) = (t \<in> res_insns \<and> ast_ok a)"
| "body_ok Substart = True"

primrec stmt_ok :: "stmt \<Rightarrow> bool" where
  "stmt_ok (Insn_stmt label body line) = body_ok body"
| "stmt_ok (Const_stmt name a line) = ast_ok a"
| "stmt_ok (Subend_stmt line) = True"

lemmas insn_kinds = no_size_def one_byte_def byte_operand_def branches_def expr_operand_def data_insns_def res_insns_def

section \<open>Building expressions\<close>

text \<open>Nodes are added, and the new ones refer to new ones.\<close>

definition built :: "vma_context \<Rightarrow> vma_context \<Rightarrow> bool" where
  "built ctx ctx' \<longleftrightarrow>
     ctx' = ctx\<lparr>exprs := exprs ctx', next_expr := next_expr ctx'\<rparr> \<and> next_expr ctx \<le> next_expr ctx' \<and>
     (\<forall>n < next_expr ctx. exprs ctx' n = exprs ctx n) \<and>
     (\<forall>n. next_expr ctx \<le> n \<and> n < next_expr ctx' \<longrightarrow>
          node_ok n (exprs ctx' n) \<and> kids (exprs ctx' n) \<subseteq> {next_expr ctx..<n})"

lemma built_refl [simp]: "built ctx ctx"
  by (auto simp: built_def)

lemma built_fields:
  assumes "built ctx ctx'"
  shows "globals ctx' = globals ctx" "ncalls ctx' = ncalls ctx" "lookup_stack ctx' = lookup_stack ctx"
    "insns ctx' = insns ctx" "start_symbol ctx' = start_symbol ctx" "vma_errors ctx' = vma_errors ctx"
    "vma_output ctx' = vma_output ctx" "sub_symtab ctx' = sub_symtab ctx" "all_symbols ctx' = all_symbols ctx"
  using assms unfolding built_def by (cases ctx; cases ctx'; simp add: sub_symtab_def all_symbols_def fun_eq_iff)+

lemma built_trans [trans]:
  assumes "built c1 c2" "built c2 c3" shows "built c1 c3"
proof -
  have "c3 = c1\<lparr>exprs := exprs c3, next_expr := next_expr c3\<rparr>"
    using assms unfolding built_def by (cases c1; cases c2; cases c3) auto
  moreover have "node_ok n (exprs c3 n) \<and> kids (exprs c3 n) \<subseteq> {next_expr c1..<n}"
    if "next_expr c1 \<le> n" "n < next_expr c3" for n
  proof (cases "n < next_expr c2")
    case True
    then show ?thesis using assms that unfolding built_def by metis
  next
    case False
    then have "node_ok n (exprs c3 n)" "kids (exprs c3 n) \<subseteq> {next_expr c2..<n}" "next_expr c1 \<le> next_expr c2"
      using assms that unfolding built_def by auto
    then show ?thesis by fastforce
  qed
  ultimately show ?thesis using assms unfolding built_def by simp
qed

lemma built_node:
  assumes "built ctx c" and "new_expr f c = (i, ctx')"
    and "\<And>x. node_ok (next_expr c) (f x)" and "\<And>x. kids (f x) \<subseteq> {next_expr ctx..<next_expr c}"
  shows "built ctx ctx'" and "Suc i = next_expr ctx'" and "next_expr ctx \<le> i"
proof -
  have c': "ctx' = c\<lparr>exprs := (exprs c)(next_expr c := f (exprs c (next_expr c))), next_expr := Suc (next_expr c)\<rparr>"
    and i: "i = next_expr c"
    using assms(2) by (auto simp: new_expr_def Let_def)
  have frame: "ctx' = ctx\<lparr>exprs := exprs ctx', next_expr := next_expr ctx'\<rparr>"
    using assms(1) c' unfolding built_def by (cases ctx; cases c) simp
  show "Suc i = next_expr ctx'" using c' i by simp
  show "next_expr ctx \<le> i" using assms(1) i by (simp add: built_def)
  have "node_ok n (exprs ctx' n) \<and> kids (exprs ctx' n) \<subseteq> {next_expr ctx..<n}"
    if "next_expr ctx \<le> n" "n < next_expr ctx'" for n
    using that assms(1,3,4) c' by (cases "n = next_expr c") (auto simp: built_def less_Suc_eq)
  then show "built ctx ctx'" using frame assms(1) c' by (auto simp: built_def)
qed

lemma built_expr:
  "ast_ok a \<Longrightarrow> build_expr a ctx = (i, ctx') \<Longrightarrow> built ctx ctx' \<and> Suc i = next_expr ctx' \<and> next_expr ctx \<le> i"
proof (induction a arbitrary: ctx i ctx')
  case (Int_lit v)
  then show ?case
    using built_node [OF built_refl, of _ ctx i ctx']
    by (auto simp: vma_expr_build_literal_def node_ok_def kids_def)
next
  case (Ident name)
  then show ?case
    using built_node [OF built_refl, of _ ctx i ctx']
    by (auto simp: vma_expr_build_symref_def node_ok_def kids_def vma_symref_init_def)
next
  case (Binary op a b)
  obtain x c1 where a: "build_expr a ctx = (x, c1)" by fastforce
  obtain y c2 where b: "build_expr b c1 = (y, c2)" by fastforce
  have A: "built ctx c1" "Suc x = next_expr c1" "next_expr ctx \<le> x" using Binary.IH(1) [OF _ a] Binary.prems by auto
  have B: "built c1 c2" "Suc y = next_expr c2" "next_expr c1 \<le> y" using Binary.IH(2) [OF _ b] Binary.prems by auto
  have c: "new_expr (\<lambda>node. node\<lparr>expr_type := op, expr_u := Children (Some x) (Some y)\<rparr>) c2 = (i, ctx')"
    using Binary.prems a b by (simp add: vma_expr_build_parent_def)
  show ?case
    using built_node [OF built_trans [OF A(1) B(1)] c] Binary.prems A(2,3) B(2,3)
    by (cases op) (auto simp: node_ok_def is_binary_def kids_def)
next
  case (Unary op a)
  obtain x c1 where a: "build_expr a ctx = (x, c1)" by fastforce
  have A: "built ctx c1" "Suc x = next_expr c1" "next_expr ctx \<le> x" using Unary.IH [OF _ a] Unary.prems by auto
  have c: "new_expr (\<lambda>node. node\<lparr>expr_type := op, expr_u := Children (Some x) None\<rparr>) c1 = (i, ctx')"
    using Unary.prems a by (simp add: vma_expr_build_parent_def)
  show ?case
    using built_node [OF A(1) c] Unary.prems A(2,3) by (cases op) (auto simp: node_ok_def is_binary_def kids_def)
qed

lemma built_expr_list:
  "list_all ast_ok as \<Longrightarrow> build_expr_list es as ctx = (es', ctx') \<Longrightarrow>
     built ctx ctx' \<and> (\<exists>xs. es' = es @ xs \<and> length xs = length as \<and> set xs \<subseteq> {next_expr ctx..<next_expr ctx'})"
proof (induction "as" arbitrary: es ctx)
  case (Cons a as)
  obtain x c1 where a: "build_expr a ctx = (x, c1)" by fastforce
  have A: "built ctx c1" "Suc x = next_expr c1" "next_expr ctx \<le> x" using built_expr [OF _ a] Cons.prems by auto
  obtain xs where B: "built c1 ctx'" "es' = (es @ [x]) @ xs" "length xs = length as" "set xs \<subseteq> {next_expr c1..<next_expr ctx'}"
    using Cons.IH [of "es @ [x]" c1] Cons.prems a by (auto simp: vma_expr_list_append_def)
  have "next_expr c1 \<le> next_expr ctx'" using B(1) by (simp add: built_def)
  then have "es' = es @ (x # xs)" "length (x # xs) = length (a # as)" "set (x # xs) \<subseteq> {next_expr ctx..<next_expr ctx'}"
    using A B by auto
  then show ?case using built_trans [OF A(1) B(1)] by blast
qed simp

section \<open>The shape of a program\<close>

definition operands :: "vma_insn \<Rightarrow> nat set" where
  "operands insn = (case insn_u insn of Expr e \<Rightarrow> {e} | Expr_list es \<Rightarrow> set es | _ \<Rightarrow> {})"

text \<open>The operand an instruction has, by its kind.\<close>

definition operand_ok :: "vma_insn_type \<Rightarrow> insn_union \<Rightarrow> bool" where
  "operand_ok t u \<longleftrightarrow>
     (if t \<in> expr_operand \<union> res_insns then \<exists>e. u = Expr e
      else if t \<in> data_insns then \<exists>es. u = Expr_list es \<and> es \<noteq> []
      else if t = INSN_NCALL then \<exists>symb k. u = Symref (Sym symb) \<and> sym_u symb = Ncall_id k
      else if t = INSN_DEFS then \<exists>xs. u = Text_bytes xs
      else if t = INSN_SUBSTART then \<exists>tab. u = Symtab tab
      else t \<in> one_byte \<union> no_size \<and> u = No_operand)"

definition insns_ok :: "vma_context \<Rightarrow> bool" where
  "insns_ok ctx \<longleftrightarrow>
     (\<forall>insn \<in> set (insns ctx). operand_ok (insn_type insn) (insn_u insn) \<and> operands insn \<subseteq> {..<next_expr ctx})"

text \<open>The operand of a reservation belongs to it alone.\<close>

definition roots_ok :: "vma_context \<Rightarrow> bool" where
  "roots_ok ctx \<longleftrightarrow>
     (\<forall>i < length (insns ctx). insn_type (insns ctx ! i) \<in> res_insns \<longrightarrow>
        (\<forall>e \<in> operands (insns ctx ! i). unreached ctx e \<and>
           (\<forall>j < length (insns ctx). j \<noteq> i \<longrightarrow> e \<notin> operands (insns ctx ! j))))"

definition values_ok :: "vma_context \<Rightarrow> bool" where
  "values_ok ctx \<longleftrightarrow> (\<forall>symb \<in> all_symbols ctx. \<forall>v. sym_u symb = Value_expr v \<longrightarrow> v < next_expr ctx)"

definition ncalls_ok :: "vma_context \<Rightarrow> bool" where
  "ncalls_ok ctx \<longleftrightarrow> (\<forall>symb \<in> set (ncalls ctx). \<exists>k. sym_u symb = Ncall_id k)"

definition shape_ok :: "vma_context \<Rightarrow> bool" where
  "shape_ok ctx \<longleftrightarrow> exprs_ok ctx \<and> scope_ok ctx \<and> insns_ok ctx \<and> roots_ok ctx \<and> values_ok ctx \<and> ncalls_ok ctx"

lemma built_shape:
  assumes "built ctx c" and "shape_ok ctx" shows "shape_ok c"
proof -
  note f = built_fields [OF assms(1)]
  have le: "next_expr ctx \<le> next_expr c" and old: "\<And>n. n < next_expr ctx \<Longrightarrow> exprs c n = exprs ctx n"
    and new: "\<And>n. next_expr ctx \<le> n \<Longrightarrow> n < next_expr c \<Longrightarrow> node_ok n (exprs c n) \<and> kids (exprs c n) \<subseteq> {next_expr ctx..<n}"
    using assms(1) by (auto simp: built_def)
  have "exprs_ok c"
    using assms(2) old new unfolding shape_ok_def exprs_ok_def by (metis not_le)
  moreover have "insns_ok c"
    using assms(2) le by (fastforce simp: shape_ok_def insns_ok_def f)
  moreover have "unreached c e" if "unreached ctx e" "e < next_expr ctx" for e
    unfolding unreached_def f
  proof (intro conjI allI impI)
    fix n assume "n < next_expr c"
    then show "e \<notin> kids (exprs c n)" using that old [of n] new [of n] unfolding unreached_def by (cases "n < next_expr ctx") auto
  qed (use that in \<open>simp add: unreached_def\<close>)
  then have "roots_ok c"
    using assms(2) by (fastforce simp: shape_ok_def roots_ok_def insns_ok_def f)
  moreover have "scope_ok c" "values_ok c" "ncalls_ok c"
    using assms(2) le by (fastforce simp: shape_ok_def scope_ok_def values_ok_def ncalls_ok_def f split: scope.splits)+
  ultimately show ?thesis
    by (simp add: shape_ok_def)
qed

lemma operands_Symtab [simp]: "insn_u insn = Symtab tab \<Longrightarrow> operands insn = {}"
  by (simp add: operands_def)

text \<open>A table may be replaced when its constants' expressions are known ones or belong to nothing else.\<close>

lemma all_symbols_set:
  assumes "sc = Globals \<or> (\<exists>i < length (insns ctx). sc = Sub i)"
  shows "all_symbols (set_symtab sc tab ctx) \<subseteq> all_symbols ctx \<union> set tab"
  using assms by (auto simp: all_symbols_def set_symtab_def sub_symtab_def nth_list_update split: scope.splits if_splits)

lemma set_symtab_fields [simp]:
  "exprs (set_symtab sc tab ctx) = exprs ctx" "next_expr (set_symtab sc tab ctx) = next_expr ctx"
  "lookup_stack (set_symtab sc tab ctx) = lookup_stack ctx" "vma_errors (set_symtab sc tab ctx) = vma_errors ctx"
  "ncalls (set_symtab sc tab ctx) = ncalls ctx" "length (insns (set_symtab sc tab ctx)) = length (insns ctx)"
  "start_symbol (set_symtab sc tab ctx) = start_symbol ctx" "vma_output (set_symtab sc tab ctx) = vma_output ctx"
  by (simp_all add: set_symtab_def split: scope.splits)

lemma set_symtab_shape:
  assumes "shape_ok ctx" and "sc = Globals \<or> sc = lookup_stack ctx"
    and "\<And>symb v. symb \<in> set tab \<Longrightarrow> sym_u symb = Value_expr v \<Longrightarrow>
      v < next_expr ctx \<and> ((\<exists>symb \<in> all_symbols ctx. sym_u symb = Value_expr v) \<or> (\<forall>insn \<in> set (insns ctx). v \<notin> operands insn))"
  shows "shape_ok (set_symtab sc tab ctx)"
proof -
  let ?c = "set_symtab sc tab ctx"
  have sc: "sc = Globals \<or> (\<exists>i < length (insns ctx). sc = Sub i \<and> insn_type (insns ctx ! i) = INSN_SUBSTART)"
    using assms(1,2) by (auto simp: shape_ok_def scope_ok_def split: scope.splits)
  have same: "insn_type (insns ?c ! j) = insn_type (insns ctx ! j) \<and>
      (insns ?c ! j = insns ctx ! j \<or> insn_type (insns ctx ! j) = INSN_SUBSTART \<and> insn_u (insns ?c ! j) = Symtab tab)"
    if "j < length (insns ctx)" for j
    using sc that by (auto simp: set_symtab_def nth_list_update split: scope.splits if_splits)
  have syms: "all_symbols ?c \<subseteq> all_symbols ctx \<union> set tab"
    using sc by (intro all_symbols_set) auto
  have op_ok: "operand_ok INSN_SUBSTART (Symtab tab)" by (simp add: operand_ok_def insn_kinds)
  have ops: "operands (insns ?c ! j) \<subseteq> operands (insns ctx ! j)" if "j < length (insns ctx)" for j
    using same [OF that] by auto
  have "operand_ok (insn_type (insns ?c ! j)) (insn_u (insns ?c ! j)) \<and> operands (insns ?c ! j) \<subseteq> {..<next_expr ctx}"
    if "j < length (insns ctx)" for j
    using same [OF that] ops [OF that] op_ok assms(1) nth_mem [OF that] by (auto simp: shape_ok_def insns_ok_def)
  then have insns: "insns_ok ?c"
    unfolding insns_ok_def all_set_conv_all_nth by simp
  have "unreached ?c e" if "j < length (insns ctx)" "insn_type (insns ctx ! j) \<in> res_insns" "e \<in> operands (insns ctx ! j)" for j e
  proof -
    have "unreached ctx e" using assms(1) that by (auto simp: shape_ok_def roots_ok_def)
    moreover have "sym_u symb \<noteq> Value_expr e" if "symb \<in> set tab" for symb
      using assms(3) [OF that, of e] \<open>unreached ctx e\<close> \<open>e \<in> operands (insns ctx ! j)\<close> \<open>j < length (insns ctx)\<close>
      by (auto simp: unreached_def)
    ultimately show ?thesis using syms by (auto simp: unreached_def)
  qed
  then have "roots_ok ?c"
    using assms(1) same ops unfolding shape_ok_def roots_ok_def set_symtab_fields by (metis subsetD)
  moreover have "scope_ok ?c"
    using assms(1) same by (auto simp: shape_ok_def scope_ok_def split: scope.splits)
  moreover have "values_ok ?c"
    using assms(1,3) syms by (fastforce simp: shape_ok_def values_ok_def)
  ultimately show ?thesis
    using assms(1) insns by (simp add: shape_ok_def exprs_ok_def ncalls_ok_def)
qed

section \<open>Adding an instruction\<close>

lemma kids_less: "node_ok n x \<Longrightarrow> kids x \<subseteq> {..<n}"
  by (auto simp: node_ok_def kids_def split: vma_expr_type.splits expr_union.splits option.splits)

lemma all_symbols_append:
  assumes "\<And>tab. insn_u insn = Symtab tab \<Longrightarrow> tab = []"
  shows "all_symbols (append_insn insn c) = all_symbols c" (is "all_symbols ?c = _")
proof -
  have "set (sub_symtab ?c (length (insns c))) = {}"
    using assms by (cases "insn_u insn") (auto simp: append_insn_def sub_symtab_def)
  moreover have "sub_symtab ?c i = sub_symtab c i" if "i < length (insns c)" for i
    using that by (simp add: append_insn_def sub_symtab_def nth_append)
  ultimately show ?thesis
    by (simp add: all_symbols_def append_insn_def [of insn c] lessThan_Suc)
qed

lemma append_insn_fields [simp]:
  "exprs (append_insn insn c) = exprs c" "next_expr (append_insn insn c) = next_expr c"
  "lookup_stack (append_insn insn c) = lookup_stack c" "vma_errors (append_insn insn c) = vma_errors c"
  "ncalls (append_insn insn c) = ncalls c" "insns (append_insn insn c) = insns c @ [insn]"
  "globals (append_insn insn c) = globals c" "start_symbol (append_insn insn c) = start_symbol c"
  by (simp_all add: append_insn_def)

lemma append_shape:
  assumes "shape_ok c" and "operand_ok (insn_type insn) (insn_u insn)" and "operands insn \<subseteq> {n..<next_expr c}"
    and "\<And>insn'. insn' \<in> set (insns c) \<Longrightarrow> operands insn' \<subseteq> {..<n}"
    and "insn_type insn \<in> res_insns \<Longrightarrow> \<forall>e \<in> operands insn. unreached c e"
    and "\<And>tab. insn_u insn = Symtab tab \<Longrightarrow> tab = []"
  shows "shape_ok (append_insn insn c)"
proof -
  let ?c = "append_insn insn c"
  note syms = all_symbols_append [of insn c, OF assms(6)]
  have unr: "unreached ?c e \<longleftrightarrow> unreached c e" for e by (simp add: unreached_def syms)
  have at_old: "insns ?c ! i = insns c ! i" if "i < length (insns c)" for i
    using that by (simp add: nth_append)
  have at_new: "insns ?c ! length (insns c) = insn" by simp
  have old_below: "e < n" if "i < length (insns c)" "e \<in> operands (insns c ! i)" for i e
    using assms(4) [OF nth_mem [OF that(1)]] that(2) by auto
  have new_above: "n \<le> e" if "e \<in> operands insn" for e using assms(3) that by auto
  have root: "unreached c e \<and> (\<forall>j < length (insns c). j \<noteq> i \<longrightarrow> e \<notin> operands (insns c ! j))"
    if "i < length (insns c)" "insn_type (insns c ! i) \<in> res_insns" "e \<in> operands (insns c ! i)" for i e
    using assms(1) that by (auto simp: shape_ok_def roots_ok_def)
  have "roots_ok ?c"
    unfolding roots_ok_def unr
  proof (intro allI impI ballI conjI)
    fix i e
    assume i: "i < length (insns ?c)" "insn_type (insns ?c ! i) \<in> res_insns" and e: "e \<in> operands (insns ?c ! i)"
    consider (old) "i < length (insns c)" | (new) "i = length (insns c)" using i(1) by fastforce
    note which_i = this
    show "unreached c e"
    proof (cases rule: which_i)
      case old
      then show ?thesis using root [of i e] i(2) e by (simp only: at_old)
    next
      case new
      then show ?thesis using assms(5) i(2) e by (simp only: at_new)
    qed
    fix j assume j: "j < length (insns ?c)" "j \<noteq> i"
    consider (old) "j < length (insns c)" | (new) "j = length (insns c)" using j(1) by fastforce
    then show "e \<notin> operands (insns ?c ! j)"
    proof cases
      case jold: old
      show ?thesis
      proof (cases rule: which_i)
        case old
        then show ?thesis using root [of i e] i(2) e j(2) jold by (simp only: at_old) blast
      next
        case new
        then have "n \<le> e" using e new_above [of e] by (simp only: at_new)
        then show ?thesis using old_below [OF jold, of e] jold by (simp only: at_old) fastforce
      qed
    next
      case jnew: new
      then have "i < length (insns c)" using which_i j(2) by blast
      then have "e < n" using e old_below [of i e] by (simp only: at_old)
      then show ?thesis using new_above [of e] jnew by (simp only: at_new) fastforce
    qed
  qed
  moreover have "insns_ok ?c"
    using assms(1-3) unfolding shape_ok_def insns_ok_def by simp (meson atLeastLessThan_iff lessThan_iff subset_eq)
  moreover have "scope_ok ?c"
    using assms(1) unfolding shape_ok_def scope_ok_def by (simp add: nth_append split: scope.splits)
  ultimately show ?thesis
    using assms(1) by (simp add: shape_ok_def exprs_ok_def values_ok_def ncalls_ok_def syms)
qed

text \<open>What a body builds: an instruction with new expressions, and the scope of a new subroutine.\<close>

definition prepared :: "vma_context \<Rightarrow> vma_insn \<Rightarrow> vma_context \<Rightarrow> bool" where
  "prepared ctx insn ctx' \<longleftrightarrow>
     shape_ok (ctx'\<lparr>lookup_stack := lookup_stack ctx\<rparr>) \<and>
     insns ctx' = insns ctx \<and> globals ctx' = globals ctx \<and> vma_errors ctx' = vma_errors ctx \<and>
     start_symbol ctx' = start_symbol ctx \<and> next_expr ctx \<le> next_expr ctx' \<and>
     operand_ok (insn_type insn) (insn_u insn) \<and> operands insn \<subseteq> {next_expr ctx..<next_expr ctx'} \<and>
     (insn_type insn \<in> res_insns \<longrightarrow> (\<forall>e \<in> operands insn. unreached ctx' e)) \<and>
     (\<forall>tab. insn_u insn = Symtab tab \<longrightarrow> tab = []) \<and>
     (lookup_stack ctx' = lookup_stack ctx \<or>
      lookup_stack ctx' = Sub (length (insns ctx)) \<and> insn_type insn = INSN_SUBSTART)"

lemma shape_lookup_self [simp]: "ctx\<lparr>lookup_stack := lookup_stack ctx\<rparr> = ctx"
  by simp

lemma built_prepared:
  assumes "shape_ok ctx" and "built ctx c" and "operand_ok t u"
    and "\<And>e. u = Expr e \<Longrightarrow> Suc e = next_expr c \<and> next_expr ctx \<le> e"
    and "\<And>es. u = Expr_list es \<Longrightarrow> set es \<subseteq> {next_expr ctx..<next_expr c}" and "\<And>tab. u \<noteq> Symtab tab"
  shows "prepared ctx ((vma_insn_build t)\<lparr>insn_u := u\<rparr>) c"
proof -
  note f = built_fields [OF assms(2)]
  have shape: "shape_ok c" by (rule built_shape [OF assms(2,1)])
  have ls: "c\<lparr>lookup_stack := lookup_stack ctx\<rparr> = c" using f(3) by (cases c) simp
  have unr: "unreached c e" if "Suc e = next_expr c" "next_expr ctx \<le> e" for e
  proof -
    have "e \<notin> kids (exprs c n)" if "n < next_expr c" for n
      using kids_less [of n "exprs c n"] shape that \<open>Suc e = next_expr c\<close> by (auto simp: shape_ok_def exprs_ok_def)
    moreover have "sym_u symb \<noteq> Value_expr e" if "symb \<in> all_symbols c" for symb
      using assms(1) that \<open>next_expr ctx \<le> e\<close> by (auto simp: shape_ok_def values_ok_def f)
    ultimately show ?thesis by (simp add: unreached_def)
  qed
  have ops: "operands ((vma_insn_build t)\<lparr>insn_u := u\<rparr>) \<subseteq> {next_expr ctx..<next_expr c}"
    using assms(4,5) by (cases u) (auto simp: operands_def)
  have res: "\<forall>e \<in> operands ((vma_insn_build t)\<lparr>insn_u := u\<rparr>). unreached c e" if "t \<in> res_insns"
  proof -
    have "\<exists>e. u = Expr e" using assms(3) that by (simp add: operand_ok_def)
    then show ?thesis using assms(4) unr by (auto simp: operands_def)
  qed
  have "next_expr ctx \<le> next_expr c" using assms(2) by (simp add: built_def)
  then show ?thesis
    using shape ops res assms(3,6) by (simp add: prepared_def ls f vma_insn_build_def)
qed

lemma shape_cong:
  assumes "shape_ok c" and "exprs c' = exprs c" "next_expr c' = next_expr c" "insns c' = insns c" "globals c' = globals c"
    and "scope_ok c'" "ncalls_ok c'"
  shows "shape_ok c'"
proof -
  have "all_symbols c' = all_symbols c" using assms by (simp add: all_symbols_def sub_symtab_def)
  then show ?thesis using assms by (simp add: shape_ok_def exprs_ok_def insns_ok_def roots_ok_def values_ok_def unreached_def)
qed

lemma build_body_prepared:
  assumes "shape_ok ctx" and "body_ok body" and "build_body body ctx = (insn, ctx')"
  shows "prepared ctx insn ctx'"
proof (cases body)
  case (Machine t)
  have "prepared ctx ((vma_insn_build t)\<lparr>insn_u := No_operand\<rparr>) ctx"
    using assms(2) Machine by (intro built_prepared [OF assms(1)]) (auto simp: operand_ok_def insn_kinds)
  then show ?thesis using assms(3) Machine by (simp add: vma_insn_build_def)
next
  case (Machine_expr t a)
  obtain i c where a: "build_expr a ctx = (i, c)" by fastforce
  have "prepared ctx ((vma_insn_build t)\<lparr>insn_u := Expr i\<rparr>) c"
    using assms(2) Machine_expr built_expr [OF _ a] by (intro built_prepared [OF assms(1)]) (auto simp: operand_ok_def)
  then show ?thesis using assms(3) Machine_expr a by simp
next
  case (Data t as)
  obtain es c where a: "build_expr_list vma_expr_list_create as ctx = (es, c)" by fastforce
  have b: "built ctx c" "length es = length as" "set es \<subseteq> {next_expr ctx..<next_expr c}"
    using assms(2) Data built_expr_list [OF _ a] by (auto simp: vma_expr_list_create_def)
  have "prepared ctx ((vma_insn_build t)\<lparr>insn_u := Expr_list es\<rparr>) c"
    using assms(2) Data b by (intro built_prepared [OF assms(1)]) (auto simp: operand_ok_def insn_kinds)
  then show ?thesis using assms(3) Data a by simp
next
  case (Data_text xs)
  have "prepared ctx ((vma_insn_build INSN_DEFS)\<lparr>insn_u := Text_bytes xs\<rparr>) ctx"
    by (intro built_prepared [OF assms(1)]) (auto simp: operand_ok_def insn_kinds)
  then show ?thesis using assms(3) Data_text by simp
next
  case (Reserve t a)
  obtain i c where a: "build_expr a ctx = (i, c)" by fastforce
  have "prepared ctx ((vma_insn_build t)\<lparr>insn_u := Expr i\<rparr>) c"
    using assms(2) Reserve built_expr [OF _ a] by (intro built_prepared [OF assms(1)]) (auto simp: operand_ok_def)
  then show ?thesis using assms(3) Reserve a by simp
next
  case (Machine_ncall name)
  obtain tab previous where d: "vma_symtab_define (ncalls ctx) name SYM_NCALL = (tab, previous)" by fastforce
  let ?symb = "case previous of Some symb \<Rightarrow> symb | None \<Rightarrow> last tab"
  have known: "\<forall>symb \<in> set (ncalls ctx). \<exists>k. sym_u symb = Ncall_id k" using assms(1) by (simp add: shape_ok_def ncalls_ok_def)
  have tab: "\<forall>symb \<in> set tab. \<exists>k. sym_u symb = Ncall_id k" and symb: "\<exists>k. sym_u ?symb = Ncall_id k"
    using d known lookup_in [of "ncalls ctx" name] by (auto simp: vma_symtab_define_def split: option.splits)
  have insn: "insn = (vma_insn_build INSN_NCALL)\<lparr>insn_u := Symref (Sym ?symb)\<rparr>" and c: "ctx' = ctx\<lparr>ncalls := tab\<rparr>"
    using assms(3) Machine_ncall d by (auto simp: Let_def)
  have "shape_ok ctx'"
    by (rule shape_cong [OF assms(1)]) (use assms(1) tab c in \<open>auto simp: shape_ok_def scope_ok_def ncalls_ok_def split: scope.splits\<close>)
  then show ?thesis
    using symb unfolding prepared_def insn
    by (simp add: c operand_ok_def insn_kinds vma_insn_build_def operands_def)
next
  case Substart
  then show ?thesis
    using assms(1,3) by (auto simp: prepared_def operand_ok_def insn_kinds vma_insn_build_def)
qed

lemma all_symbols_cong: "insns c' = insns c \<Longrightarrow> globals c' = globals c \<Longrightarrow> all_symbols c' = all_symbols c"
  by (simp add: all_symbols_def sub_symtab_def)

lemma set_symtab_operands:
  assumes "insn \<in> set (insns (set_symtab sc tab c))"
  shows "operands insn = {} \<or> insn \<in> set (insns c)"
proof -
  obtain j where j: "j < length (insns c)" "insn = insns (set_symtab sc tab c) ! j"
    using assms by (auto simp: in_set_conv_nth)
  then have "insn = insns c ! j \<or> insn_u insn = Symtab tab"
    by (cases sc; cases "sc = Sub j") (auto simp: set_symtab_def)
  then show ?thesis using j(1) by auto
qed

text \<open>A prepared instruction is appended, after its label has been given its place.\<close>

lemma prepared_append:
  assumes "shape_ok ctx" and p: "prepared ctx insn c" and sc: "sc = Globals \<or> sc = lookup_stack ctx"
    and vals: "\<And>symb v. symb \<in> set tab \<Longrightarrow> sym_u symb = Value_expr v \<Longrightarrow> \<exists>symb \<in> all_symbols ctx. sym_u symb = Value_expr v"
  shows "shape_ok (append_insn (insn\<lparr>insn_line := line\<rparr>) (set_symtab sc tab c))" (is "shape_ok ?c'")
    and "all_symbols (append_insn (insn\<lparr>insn_line := line\<rparr>) (set_symtab sc tab c)) \<subseteq> all_symbols ctx \<union> set tab"
proof -
  let ?c0 = "c\<lparr>lookup_stack := lookup_stack ctx\<rparr>"
  let ?i = "insn\<lparr>insn_line := line\<rparr>"
  have p': "shape_ok ?c0" "insns c = insns ctx" "globals c = globals ctx" "next_expr ctx \<le> next_expr c"
      "operand_ok (insn_type insn) (insn_u insn)" "operands insn \<subseteq> {next_expr ctx..<next_expr c}"
      "insn_type insn \<in> res_insns \<Longrightarrow> \<forall>e \<in> operands insn. unreached c e" "\<And>tab. insn_u insn = Symtab tab \<Longrightarrow> tab = []"
      "lookup_stack c = lookup_stack ctx \<or> lookup_stack c = Sub (length (insns ctx)) \<and> insn_type insn = INSN_SUBSTART"
    using p by (auto simp: prepared_def)
  have ops: "operands ?i = operands insn" by (simp add: operands_def)
  have syms0: "all_symbols ?c0 = all_symbols ctx" "all_symbols c = all_symbols ctx"
    by (rule all_symbols_cong; use p'(2,3) in simp)+
  have bound: "v < next_expr ctx" if "symb \<in> all_symbols ctx" "sym_u symb = Value_expr v" for symb v
    using assms(1) that by (auto simp: shape_ok_def values_ok_def)
  have shape0: "shape_ok (set_symtab sc tab ?c0)"
  proof (rule set_symtab_shape [OF p'(1)])
    show "sc = Globals \<or> sc = lookup_stack ?c0" using sc by simp
    fix symb v assume "symb \<in> set tab" "sym_u symb = Value_expr v"
    then obtain old where "old \<in> all_symbols ctx" "sym_u old = Value_expr v" using vals by blast
    then show "v < next_expr ?c0 \<and> ((\<exists>symb \<in> all_symbols ?c0. sym_u symb = Value_expr v) \<or>
        (\<forall>insn \<in> set (insns ?c0). v \<notin> operands insn))"
      using bound [of old v] p'(4) unfolding syms0 by auto
  qed
  have valid: "sc = Globals \<or> (\<exists>i < length (insns c). sc = Sub i)"
    using sc assms(1) p'(2) by (auto simp: shape_ok_def scope_ok_def split: scope.splits)
  have symsc: "all_symbols (set_symtab sc tab c) \<subseteq> all_symbols ctx \<union> set tab"
    using all_symbols_set [OF valid] syms0(2) by simp
  have symscc: "all_symbols (set_symtab sc tab ?c0) = all_symbols (set_symtab sc tab c)"
    by (rule all_symbols_cong) (simp_all add: set_symtab_def sub_symtab_def split: scope.splits)
  have shape1: "shape_ok (append_insn ?i (set_symtab sc tab ?c0))"
  proof (rule append_shape [OF shape0])
    show "operand_ok (insn_type ?i) (insn_u ?i)" "\<And>tab. insn_u ?i = Symtab tab \<Longrightarrow> tab = []" using p'(5,8) by auto
    show "operands ?i \<subseteq> {next_expr ctx..<next_expr (set_symtab sc tab ?c0)}" using p'(6) by (simp add: ops)
    fix insn' assume "insn' \<in> set (insns (set_symtab sc tab ?c0))"
    then have "operands insn' = {} \<or> insn' \<in> set (insns ctx)" using set_symtab_operands p'(2) by fastforce
    then show "operands insn' \<subseteq> {..<next_expr ctx}" using assms(1) by (auto simp: shape_ok_def insns_ok_def)
  next
    assume "insn_type ?i \<in> res_insns"
    then have un: "\<forall>e \<in> operands insn. unreached c e" using p'(7) by simp
    show "\<forall>e \<in> operands ?i. unreached (set_symtab sc tab ?c0) e"
    proof
      fix e assume e: "e \<in> operands ?i"
      have "sym_u symb \<noteq> Value_expr e" if "symb \<in> all_symbols ctx \<union> set tab" for symb
        using that vals [of symb e] bound [of _ e] e p'(6) ops by fastforce
      then show "unreached (set_symtab sc tab ?c0) e"
        using un e symsc unfolding unreached_def symscc ops by (auto simp: subset_eq)
    qed
  qed
  have insns': "insns ?c' = insns (append_insn ?i (set_symtab sc tab ?c0))" "globals ?c' = globals (append_insn ?i (set_symtab sc tab ?c0))"
    by (simp_all add: set_symtab_def split: scope.splits)
  have scope: "scope_ok ?c'"
  proof (cases "lookup_stack c = lookup_stack ctx")
    case True
    then show ?thesis using shape1 unfolding shape_ok_def scope_ok_def insns' by simp
  next
    case False
    then have "lookup_stack ?c' = Sub (length (insns ctx))" "insn_type insn = INSN_SUBSTART" using p'(9) by auto
    then show ?thesis using p'(2) by (simp add: scope_ok_def nth_append)
  qed
  show "shape_ok ?c'"
    by (rule shape_cong [OF shape1]) (use scope insns' shape1 in \<open>simp_all add: shape_ok_def ncalls_ok_def\<close>)
  show "all_symbols ?c' \<subseteq> all_symbols ctx \<union> set tab"
    using symsc all_symbols_append [of ?i "set_symtab sc tab c"] p'(8) by simp
qed

section \<open>Defining symbols\<close>

definition fresh_symbol :: "string \<Rightarrow> vma_symbol_type \<Rightarrow> int \<Rightarrow> vma_symbol" where
  "fresh_symbol name type line = \<lparr>sym_type = type, sym_name = name, sym_u = No_value, sym_line = line\<rparr>"

lemma lookup_None: "vma_symtab_lookup tab name = None \<Longrightarrow> symb \<in> set tab \<Longrightarrow> sym_name symb \<noteq> name"
  by (induction tab) (auto split: if_splits)

lemma get_set_symtab: "scope_ok ctx \<Longrightarrow> sc = Globals \<or> sc = lookup_stack ctx \<Longrightarrow> get_symtab sc (set_symtab sc tab ctx) = tab"
  by (auto simp: get_symtab_def set_symtab_def sub_symtab_def scope_ok_def split: scope.splits)

lemma set_set_symtab:
  "scope_ok ctx \<Longrightarrow> sc = Globals \<or> sc = lookup_stack ctx \<Longrightarrow> set_symtab sc tab' (set_symtab sc tab ctx) = set_symtab sc tab' ctx"
  by (auto simp: set_symtab_def scope_ok_def split: scope.splits)

lemma set_symtab_errors: "set_symtab sc tab (ctx\<lparr>vma_errors := k\<rparr>) = (set_symtab sc tab ctx)\<lparr>vma_errors := k\<rparr>"
  by (simp add: set_symtab_def split: scope.splits)

lemma get_symtab_errors [simp]: "get_symtab sc (ctx\<lparr>vma_errors := k\<rparr>) = get_symtab sc ctx"
  by (simp add: get_symtab_def sub_symtab_def split: scope.splits)

lemma scope_ok_errors [simp]: "scope_ok (ctx\<lparr>vma_errors := k\<rparr>) = scope_ok ctx"
  by (simp add: scope_ok_def split: scope.splits)

lemma vma_error_eq: "vma_error ctx = Inr ctx' \<longleftrightarrow> ctx' = ctx\<lparr>vma_errors := Suc (vma_errors ctx)\<rparr> \<and> Suc (vma_errors ctx) \<le> VMA_MAX_ERRORS"
  by (auto simp: vma_error_def vma_abort_def Let_def)

text \<open>Defining a symbol adds it to the table of its scope, or counts an error.\<close>

lemma symbol_defined:
  assumes "vma_symbol_define name type line ctx = Inr (sc, ctx')" and "type \<noteq> SYM_NCALL" and "scope_ok ctx"
  obtains k tab where "ctx' = set_symtab sc tab (ctx\<lparr>vma_errors := k\<rparr>)" "vma_errors ctx \<le> k"
    "sc = Globals \<or> sc = lookup_stack ctx"
    "tab = get_symtab sc ctx \<and> vma_errors ctx < k \<or>
     tab = get_symtab sc ctx @ [fresh_symbol name type line] \<and> (\<forall>symb \<in> set (get_symtab sc ctx). sym_name symb \<noteq> name)"
proof -
  let ?scope = "if local_name name
    then bind_res (if type = SYM_NCALL then vma_error ctx else Inr ctx) (\<lambda>ctx.
         bind_res (if lookup_stack ctx = Globals then vma_error ctx else Inr ctx) (\<lambda>ctx. Inr (lookup_stack ctx, ctx)))
    else Inr (Globals, ctx)"
  obtain sc1 c1 where scope: "?scope = Inr (sc1, c1)"
    using assms(1) by (cases ?scope) (auto simp: vma_symbol_define_def)
  then obtain k1 where c1: "c1 = ctx\<lparr>vma_errors := k1\<rparr>" and k1: "vma_errors ctx \<le> k1"
    and sc1: "sc1 = Globals \<or> sc1 = lookup_stack ctx"
  proof (cases "local_name name \<and> lookup_stack ctx = Globals")
    case True
    then show ?thesis using scope assms(2) that [of "Suc (vma_errors ctx)"] by (auto simp: bind_res_eq_Inr vma_error_eq)
  next
    case False
    then show ?thesis using scope assms(2) that [of "vma_errors ctx"] by (auto split: if_splits)
  qed
  have rest0: "(case vma_symtab_define (get_symtab sc1 c1) name type of (tab, previous) \<Rightarrow>
     let ctx = set_symtab sc1 tab c1
     in case previous of
          None \<Rightarrow> Inr (sc1, update_symbol sc1 name (\<lambda>symb. symb\<lparr>sym_line := line\<rparr>) ctx)
        | Some symb \<Rightarrow> bind_res (if type \<noteq> SYM_NCALL then vma_error ctx else Inr ctx) (\<lambda>ctx. Inr (sc1, ctx))) = Inr (sc, ctx')"
    using assms(1) unfolding vma_symbol_define_def scope by simp
  then have "sc1 = sc"
    by (auto simp: Let_def bind_res_eq_Inr split: prod.splits option.splits)
  note rest = rest0 [unfolded this c1] and sc = sc1 [unfolded this]
  let ?c1 = "ctx\<lparr>vma_errors := k1\<rparr>"
  have ok: "scope_ok ?c1" "sc = Globals \<or> sc = lookup_stack ?c1" using assms(3) sc by simp_all
  show ?thesis
  proof (cases "vma_symtab_lookup (get_symtab sc ctx) name")
    case None
    let ?tab = "get_symtab sc ctx @ [fresh_symbol name type line]"
    have other: "\<forall>symb \<in> set (get_symtab sc ctx). sym_name symb \<noteq> name" using lookup_None [OF None] by blast
    then have map: "map (\<lambda>symb. if sym_name symb = name then symb\<lparr>sym_line := line\<rparr> else symb) (get_symtab sc ctx) = get_symtab sc ctx"
      by (intro map_idI) auto
    have "ctx' = set_symtab sc ?tab ?c1"
      using rest None assms(2)
      by (simp add: vma_symtab_define_def Let_def update_symbol_def get_set_symtab [OF ok] set_set_symtab [OF ok] map fresh_symbol_def)
    then show ?thesis using that [of ?tab k1] sc k1 other by simp
  next
    case (Some symb)
    have "ctx' = set_symtab sc (get_symtab sc ctx) (ctx\<lparr>vma_errors := Suc k1\<rparr>)"
      using rest Some assms(2)
      by (auto simp: vma_symtab_define_def Let_def bind_res_eq_Inr vma_error_eq set_symtab_errors)
    then show ?thesis using that [of "get_symtab sc ctx" "Suc k1"] sc k1 by simp
  qed
qed

text \<open>The table after the symbol has been given its value.\<close>

definition attach :: "string \<Rightarrow> symbol_value \<Rightarrow> vma_symtab \<Rightarrow> vma_symtab" where
  "attach name u tab = map (\<lambda>symb. if sym_name symb = name then symb\<lparr>sym_u := u\<rparr> else symb) tab"

lemma attach_symbol:
  "symb \<in> set (attach name u tab) \<Longrightarrow>
     \<exists>old \<in> set tab. sym_type symb = sym_type old \<and> sym_name symb = sym_name old \<and> (sym_u symb = u \<or> symb = old)"
  by (auto simp: attach_def)

lemma attach_fresh:
  "\<forall>symb \<in> set tab. sym_name symb \<noteq> name \<Longrightarrow>
     attach name u (tab @ [fresh_symbol name type line]) = tab @ [(fresh_symbol name type line)\<lparr>sym_u := u\<rparr>]"
  by (auto simp: attach_def fresh_symbol_def intro!: map_idI)

lemma get_symtab_symbols: "scope_ok ctx \<Longrightarrow> sc = Globals \<or> sc = lookup_stack ctx \<Longrightarrow> set (get_symtab sc ctx) \<subseteq> all_symbols ctx"
  by (auto simp: get_symtab_def all_symbols_def scope_ok_def split: scope.splits)

lemma symbol_ok_mono: "symbol_ok m n symb \<Longrightarrow> m \<le> m' \<Longrightarrow> n \<le> n' \<Longrightarrow> symbol_ok m' n' symb"
  by (auto simp: symbol_ok_def split: vma_symbol_type.splits symbol_value.splits)

section \<open>Parsing\<close>

text \<open>Where the symbols come from.\<close>

definition declared :: "stmt list \<Rightarrow> vma_symbol \<Rightarrow> bool" where
  "declared sts symb \<longleftrightarrow>
     sym_type symb = SYM_LABEL \<and> (\<exists>l body line. Insn_stmt (Some (sym_name symb, l)) body line \<in> set sts) \<or>
     sym_type symb = SYM_CONSTANT \<and> (\<exists>a line. Const_stmt (sym_name symb) a line \<in> set sts)"

lemma declared_cong: "sym_type s = sym_type t \<Longrightarrow> sym_name s = sym_name t \<Longrightarrow> declared sts s \<longleftrightarrow> declared sts t"
  by (simp add: declared_def)

definition parsed :: "stmt list \<Rightarrow> vma_context \<Rightarrow> bool" where
  "parsed sts ctx \<longleftrightarrow>
     shape_ok ctx \<and> (vma_errors ctx = 0 \<longrightarrow> symbols_ok ctx) \<and> (\<forall>symb \<in> all_symbols ctx. declared sts symb)"

lemma parsed_append:
  assumes "parsed sts ctx" and "prepared ctx insn c"
  shows "parsed sts (append_insn (insn\<lparr>insn_line := line\<rparr>) c)"
proof -
  let ?c' = "append_insn (insn\<lparr>insn_line := line\<rparr>) c"
  have p: "insns c = insns ctx" "globals c = globals ctx" "next_expr ctx \<le> next_expr c" "vma_errors c = vma_errors ctx"
    using assms(2) by (auto simp: prepared_def)
  have id: "set_symtab Globals (globals ctx) c = c" using p(2) by (cases c) (simp add: set_symtab_def)
  have in_syms: "set (globals ctx) \<subseteq> all_symbols ctx" by (auto simp: all_symbols_def)
  have shape: "shape_ok ctx" using assms(1) by (simp add: parsed_def)
  have c': "shape_ok ?c'" "all_symbols ?c' \<subseteq> all_symbols ctx"
    using prepared_append [OF shape assms(2), of Globals "globals ctx" line] in_syms unfolding id by auto
  have "symbols_ok ?c'" if "vma_errors ctx = 0"
    using assms(1) that c'(2) p by (fastforce simp: parsed_def symbols_ok_def intro: symbol_ok_mono)
  then show ?thesis
    using assms(1) c' p by (auto simp: parsed_def)
qed

text \<open>Defining a symbol and giving it a value whose place is about to be appended.\<close>

lemma parsed_stmt:
  assumes "parsed sts ctx" and "st \<in> set sts" and "stmt_ok st" and "listed_stmt st ctx = Inr ctx'"
  shows "parsed sts ctx'"
proof -
  have shape: "shape_ok ctx" and scope: "scope_ok ctx" using assms(1) by (simp_all add: parsed_def shape_ok_def)
  have shape_k: "shape_ok (c\<lparr>vma_errors := k\<rparr>)" if "shape_ok c" for c k
    by (rule shape_cong [OF that]) (use that in \<open>simp_all add: shape_ok_def ncalls_ok_def\<close>)
  have syms_k: "all_symbols (c\<lparr>vma_errors := k\<rparr>) = all_symbols c" for c :: vma_context and k
    by (rule all_symbols_cong) simp_all
  show ?thesis
  proof (cases st)
    case (Subend_stmt line)
    let ?c = "ctx\<lparr>lookup_stack := Globals\<rparr>"
    have "shape_ok ?c" by (rule shape_cong [OF shape]) (use shape in \<open>simp_all add: shape_ok_def scope_ok_def ncalls_ok_def\<close>)
    moreover have "all_symbols ?c = all_symbols ctx" by (rule all_symbols_cong) simp_all
    ultimately have "parsed sts ?c" using assms(1) by (simp add: parsed_def symbols_ok_def)
    moreover have "prepared ?c ((vma_insn_build INSN_SUBEND)\<lparr>insn_u := No_operand\<rparr>) ?c"
      by (rule built_prepared [OF \<open>shape_ok ?c\<close> built_refl]) (auto simp: operand_ok_def insn_kinds)
    ultimately show ?thesis
      using parsed_append [of sts ?c "vma_insn_build INSN_SUBEND" ?c line] assms(4) Subend_stmt by (simp add: vma_insn_build_def)
  next
    case (Const_stmt name a line)
    obtain i c1 where a: "build_expr a ctx = (i, c1)" by fastforce
    have b: "built ctx c1" "Suc i = next_expr c1" "next_expr ctx \<le> i" using built_expr [OF _ a] assms(3) Const_stmt by auto
    note f = built_fields [OF b(1)]
    have shape1: "shape_ok c1" by (rule built_shape [OF b(1) shape])
    obtain sc c2 where d: "vma_symbol_define name SYM_CONSTANT line c1 = Inr (sc, c2)"
      and c': "ctx' = append_insn ((vma_insn_build INSN_CONST)\<lparr>insn_line := line\<rparr>)
          (update_symbol sc name (\<lambda>symb. symb\<lparr>sym_u := Value_expr i\<rparr>) c2)"
      using assms(4) Const_stmt a by (auto simp: bind_res_eq_Inr Let_def)
    have scope1: "scope_ok c1" using shape1 by (simp add: shape_ok_def)
    obtain k tab where c2: "c2 = set_symtab sc tab (c1\<lparr>vma_errors := k\<rparr>)" and k: "vma_errors c1 \<le> k"
      and sc: "sc = Globals \<or> sc = lookup_stack c1"
      and tab: "tab = get_symtab sc c1 \<and> vma_errors c1 < k \<or>
        tab = get_symtab sc c1 @ [fresh_symbol name SYM_CONSTANT line] \<and> (\<forall>symb \<in> set (get_symtab sc c1). sym_name symb \<noteq> name)"
      by (rule symbol_defined [OF d _ scope1]) (simp, rule that)
    let ?c = "c1\<lparr>vma_errors := k\<rparr>" and ?tab = "attach name (Value_expr i) tab"
    have ok: "scope_ok ?c" "sc = Globals \<or> sc = lookup_stack ?c" using scope1 sc by simp_all
    have c3: "update_symbol sc name (\<lambda>symb. symb\<lparr>sym_u := Value_expr i\<rparr>) c2 = set_symtab sc ?tab ?c"
      by (simp add: update_symbol_def attach_def c2 get_set_symtab [OF ok] set_set_symtab [OF ok])
    have old: "set (get_symtab sc c1) \<subseteq> all_symbols ctx" using get_symtab_symbols [OF scope1 sc] f(9) by simp
    have shape3: "shape_ok (set_symtab sc ?tab ?c)"
    proof (rule set_symtab_shape [OF shape_k [OF shape1] ok(2)])
      fix symb v assume s: "symb \<in> set ?tab" "sym_u symb = Value_expr v"
      then consider "v = i" | "symb \<in> all_symbols ctx"
        using attach_symbol [OF s(1)] tab old s(2) by (fastforce simp: fresh_symbol_def)
      then show "v < next_expr ?c \<and> ((\<exists>symb \<in> all_symbols ?c. sym_u symb = Value_expr v) \<or> (\<forall>insn \<in> set (insns ?c). v \<notin> operands insn))"
      proof cases
        case 1
        have "operands insn \<subseteq> {..<next_expr ctx}" if "insn \<in> set (insns ctx)" for insn
          using shape that by (simp add: shape_ok_def insns_ok_def)
        then show ?thesis using 1 b(2,3) by (fastforce simp: f)
      next
        case 2
        then have "v < next_expr ctx" using shape s(2) by (auto simp: shape_ok_def values_ok_def)
        then show ?thesis using 2 s(2) b f(9) by (auto simp: syms_k)
      qed
    qed
    have syms3: "all_symbols (set_symtab sc ?tab ?c) \<subseteq> all_symbols ctx \<union> set ?tab"
      using all_symbols_set [of sc ?c ?tab] ok f(9) by (auto simp: scope_ok_def syms_k split: scope.splits)
    have decl: "declared sts symb" if symb: "symb \<in> set ?tab" for symb
    proof -
      obtain s where s: "s \<in> set tab" "sym_type symb = sym_type s" "sym_name symb = sym_name s" using attach_symbol [OF symb] by blast
      have "declared sts (fresh_symbol name SYM_CONSTANT line)"
        using assms(2) Const_stmt by (auto simp: declared_def fresh_symbol_def)
      moreover have "s = fresh_symbol name SYM_CONSTANT line \<or> s \<in> all_symbols ctx" using s(1) tab old by auto
      ultimately have "declared sts s" using assms(1) by (auto simp: parsed_def)
      then show ?thesis using s(2,3) by (simp add: declared_def)
    qed
    have "symbols_ok (set_symtab sc ?tab ?c)" if "k = 0"
    proof -
      have "?tab = get_symtab sc c1 @ [(fresh_symbol name SYM_CONSTANT line)\<lparr>sym_u := Value_expr i\<rparr>]"
        using tab k that attach_fresh by auto
      moreover have "\<forall>symb \<in> all_symbols ctx. symbol_ok (length (insns c1)) (next_expr c1) symb"
        using assms(1) k that b f by (auto simp: parsed_def symbols_ok_def intro: symbol_ok_mono)
      moreover have "symbol_ok (length (insns c1)) (next_expr c1) ((fresh_symbol name SYM_CONSTANT line)\<lparr>sym_u := Value_expr i\<rparr>)"
        using b(2) by (simp add: symbol_ok_def fresh_symbol_def)
      ultimately have "\<forall>symb \<in> all_symbols ctx \<union> set ?tab. symbol_ok (length (insns c1)) (next_expr c1) symb"
        using old by auto
      then show ?thesis using syms3 by (auto simp: symbols_ok_def)
    qed
    then have p3: "parsed sts (set_symtab sc ?tab ?c)"
      using shape3 syms3 decl assms(1) by (auto simp: parsed_def)
    have "prepared (set_symtab sc ?tab ?c) ((vma_insn_build INSN_CONST)\<lparr>insn_u := No_operand\<rparr>) (set_symtab sc ?tab ?c)"
      by (rule built_prepared [OF shape3 built_refl]) (auto simp: operand_ok_def insn_kinds)
    then show ?thesis
      using parsed_append [OF p3, of "vma_insn_build INSN_CONST" _ line] c' c3 by (simp add: vma_insn_build_def)
  next
    case (Insn_stmt label body line)
    show ?thesis
    proof (cases label)
      case None
      obtain insn c where b: "build_body body ctx = (insn, c)" by fastforce
      then have "prepared ctx insn c" using build_body_prepared [OF shape _ b] assms(3) Insn_stmt by simp
      then show ?thesis using parsed_append [OF assms(1), of insn c line] assms(4) Insn_stmt None b by simp
    next
      case (Some nl)
      obtain name l where nl: "nl = (name, l)" by fastforce
      obtain sc c1 where d: "vma_symbol_define name SYM_LABEL l ctx = Inr (sc, c1)"
        using assms(4) Insn_stmt Some nl by (cases "vma_symbol_define name SYM_LABEL l ctx") auto
      obtain insn c2 where b: "build_body body c1 = (insn, c2)" by fastforce
      have c': "ctx' = append_insn (insn\<lparr>insn_line := line\<rparr>)
            (update_symbol sc name (\<lambda>symb. symb\<lparr>sym_u := Location (length (insns c2))\<rparr>) c2)"
        using assms(4) Insn_stmt Some nl d b by (simp add: Let_def)
      obtain k tab where c1: "c1 = set_symtab sc tab (ctx\<lparr>vma_errors := k\<rparr>)" and k: "vma_errors ctx \<le> k"
        and sc: "sc = Globals \<or> sc = lookup_stack ctx"
        and tab: "tab = get_symtab sc ctx \<and> vma_errors ctx < k \<or>
          tab = get_symtab sc ctx @ [fresh_symbol name SYM_LABEL l] \<and> (\<forall>symb \<in> set (get_symtab sc ctx). sym_name symb \<noteq> name)"
        by (rule symbol_defined [OF d _ scope]) (simp, rule that)
      let ?c = "ctx\<lparr>vma_errors := k\<rparr>"
      have ok: "scope_ok ?c" "sc = Globals \<or> sc = lookup_stack ?c" using scope sc by simp_all
      have old: "set (get_symtab sc ctx) \<subseteq> all_symbols ctx" by (rule get_symtab_symbols [OF scope sc])
      have tab_old: "sym_u symb = No_value \<or> symb \<in> all_symbols ctx" if "symb \<in> set tab" for symb
        using that tab old by (auto simp: fresh_symbol_def)
      have shape1: "shape_ok c1"
        unfolding c1
      proof (rule set_symtab_shape [OF shape_k [OF shape] ok(2)])
        fix symb v assume "symb \<in> set tab" "sym_u symb = Value_expr v"
        then have "symb \<in> all_symbols ctx" using tab_old by fastforce
        then show "v < next_expr ?c \<and> ((\<exists>symb \<in> all_symbols ?c. sym_u symb = Value_expr v) \<or> (\<forall>insn \<in> set (insns ?c). v \<notin> operands insn))"
          using shape \<open>sym_u symb = Value_expr v\<close> by (auto simp: shape_ok_def values_ok_def syms_k)
      qed
      have p: "prepared c1 insn c2" using build_body_prepared [OF shape1 _ b] assms(3) Insn_stmt by simp
      have len: "length (insns c2) = length (insns ctx)" "vma_errors c2 = k" "next_expr ctx \<le> next_expr c2"
        using p unfolding prepared_def c1 by auto
      have scope1: "scope_ok c1" "sc = Globals \<or> sc = lookup_stack c1" using shape1 sc c1 by (auto simp: shape_ok_def)
      have get2: "get_symtab sc c2 = tab"
      proof -
        have "get_symtab sc c2 = get_symtab sc c1"
          using p by (auto simp: prepared_def get_symtab_def sub_symtab_def split: scope.splits)
        then show ?thesis using get_set_symtab [OF ok] by (simp add: c1)
      qed
      let ?tab = "attach name (Location (length (insns ctx))) tab"
      have c3: "update_symbol sc name (\<lambda>symb. symb\<lparr>sym_u := Location (length (insns c2))\<rparr>) c2 = set_symtab sc ?tab c2"
        by (simp add: update_symbol_def attach_def get2 len)
      have syms1: "all_symbols c1 \<subseteq> all_symbols ctx \<union> set tab"
        using all_symbols_set [of sc ?c tab] ok by (auto simp: c1 scope_ok_def syms_k split: scope.splits)
      have tab_in: "set tab \<subseteq> all_symbols c1"
        using get_symtab_symbols [OF scope1] get_set_symtab [OF ok, of tab] by (simp add: c1)
      have shape': "shape_ok ctx'"
        unfolding c' c3
        by (rule prepared_append(1) [OF shape1 p scope1(2)]) (use attach_symbol tab_in in fastforce)
      have "all_symbols ctx' = all_symbols (set_symtab sc ?tab c2)"
        unfolding c' c3 by (rule all_symbols_append) (use p in \<open>simp add: prepared_def\<close>)
      also have "\<dots> = all_symbols (set_symtab sc ?tab ?c)"
      proof -
        have "set_symtab sc ?tab c1 = set_symtab sc ?tab ?c" unfolding c1 by (rule set_set_symtab [OF ok])
        moreover have "all_symbols (set_symtab sc ?tab c2) = all_symbols (set_symtab sc ?tab c1)"
          by (rule all_symbols_cong) (use p in \<open>simp_all add: prepared_def set_symtab_def split: scope.splits\<close>)
        ultimately show ?thesis by simp
      qed
      also have "\<dots> \<subseteq> all_symbols ctx \<union> set ?tab"
        using all_symbols_set [of sc ?c ?tab] ok by (auto simp: scope_ok_def syms_k split: scope.splits)
      finally have syms': "all_symbols ctx' \<subseteq> all_symbols ctx \<union> set ?tab" .
      have decl: "declared sts symb" if "symb \<in> set tab" for symb
      proof -
        have "declared sts (fresh_symbol name SYM_LABEL l)"
          using assms(2) Insn_stmt Some nl by (auto simp: declared_def fresh_symbol_def)
        moreover have "symb = fresh_symbol name SYM_LABEL l \<or> symb \<in> all_symbols ctx" using that tab old by auto
        ultimately show ?thesis using assms(1) by (auto simp: parsed_def)
      qed
      have decl': "declared sts symb" if symb: "symb \<in> set ?tab" for symb
        using attach_symbol [OF symb] decl by (metis declared_cong)
      have errors': "vma_errors ctx' = k" unfolding c' c3 by (simp add: len)
      have "symbols_ok ctx'" if "k = 0"
      proof -
        have tab': "?tab = get_symtab sc ctx @ [(fresh_symbol name SYM_LABEL l)\<lparr>sym_u := Location (length (insns ctx))\<rparr>]"
          using tab k that attach_fresh by auto
        have len': "length (insns ctx') = Suc (length (insns ctx))" "next_expr ctx \<le> next_expr ctx'"
          unfolding c' c3 using len by simp_all
        have "\<forall>symb \<in> all_symbols ctx. symbol_ok (length (insns ctx')) (next_expr ctx') symb"
          using assms(1) k that len' by (auto simp: parsed_def symbols_ok_def intro: symbol_ok_mono)
        moreover have "symbol_ok (length (insns ctx')) (next_expr ctx')
            ((fresh_symbol name SYM_LABEL l)\<lparr>sym_u := Location (length (insns ctx))\<rparr>)"
          using len' by (simp add: symbol_ok_def fresh_symbol_def)
        ultimately have "\<forall>symb \<in> all_symbols ctx \<union> set ?tab. symbol_ok (length (insns ctx')) (next_expr ctx') symb"
          using old unfolding tab' by auto
        then show ?thesis using syms' by (auto simp: symbols_ok_def)
      qed
      moreover have "\<forall>symb \<in> all_symbols ctx'. declared sts symb"
        using syms' decl' assms(1) unfolding parsed_def by blast
      ultimately show ?thesis
        using shape' errors' by (simp add: parsed_def)
    qed
  qed
qed

lemma parsed_stmts:
  "parsed sts ctx \<Longrightarrow> set sts' \<subseteq> set sts \<Longrightarrow> \<forall>st \<in> set sts'. stmt_ok st \<Longrightarrow> parse_stmts sts' ctx = Inr ctx' \<Longrightarrow> parsed sts ctx'"
  by (induction sts' arbitrary: ctx) (auto simp: bind_res_eq_Inr dest: parsed_stmt)

lemma parsed_init: "parsed sts (vma_context_init junk)"
  by (simp add: parsed_def shape_ok_def exprs_ok_def scope_ok_def insns_ok_def roots_ok_def values_ok_def ncalls_ok_def
      symbols_ok_def all_symbols_def vma_context_init_def)

end
