(* ===== verification/Vma_Emit.thy ===== *)
theory Vma_Emit
  imports Vma_Parse
begin

text \<open>
  Pass 2, one operation at a time: how many bytes it writes when it counts no error, which nodes it
  may change, and that it keeps the program well formed and comes to an end.
\<close>

section \<open>Well-formed programs\<close>

definition program_ok :: "vma_context \<Rightarrow> bool" where
  "program_ok ctx \<longleftrightarrow> data_ok ctx \<and> insns_ok ctx \<and> roots_ok ctx \<and> ncalls_ok ctx"

lemma program_ok_parsed: "parsed sts ctx \<Longrightarrow> vma_errors ctx = 0 \<Longrightarrow> program_ok ctx"
  by (simp add: parsed_def shape_ok_def program_ok_def data_ok_def)

text \<open>With fuel for every node after every reference, and with names no symbol's bytes spell.\<close>

definition runs_ok :: "asm_env \<Rightarrow> vma_context \<Rightarrow> bool" where
  "runs_ok E ctx \<longleftrightarrow> program_ok ctx \<and> foreign (raw E) ctx \<and> Suc (next_expr ctx) * Suc (next_expr ctx) \<le> fuel E"

lemma unresolved_le: "unresolved ctx \<le> next_expr ctx"
proof -
  have "unresolved ctx \<le> card {..<next_expr ctx}"
    unfolding unresolved_def by (rule card_mono) auto
  then show ?thesis by simp
qed

lemma evaluate_ends:
  assumes "runs_ok E ctx" and "e < next_expr ctx"
  shows "well_ended (evaluate_expr E e ctx)"
  unfolding evaluate_expr_def
proof (rule evaluate_well_ended)
  show "data_ok ctx" "foreign (raw E) ctx" using assms(1) by (simp_all add: runs_ok_def program_ok_def)
  have "unresolved ctx * Suc (next_expr ctx) \<le> next_expr ctx * Suc (next_expr ctx)"
    by (rule mult_le_mono1 [OF unresolved_le])
  then show "unresolved ctx * Suc (next_expr ctx) + e < fuel E"
    using assms by (simp add: runs_ok_def)
qed (rule assms(2))

section \<open>The effect of an operation\<close>

text \<open>
  \<open>n\<close> bytes are written unless an error is counted, and the values of unreached nodes outside
  \<open>S\<close> stay.
\<close>

definition writes :: "nat set \<Rightarrow> nat \<Rightarrow> vma_context \<Rightarrow> vma_context \<Rightarrow> bool" where
  "writes S n ctx ctx' \<longleftrightarrow>
     ctx' = ctx\<lparr>exprs := exprs ctx', vma_errors := vma_errors ctx', vma_output := vma_output ctx', lookup_stack := lookup_stack ctx'\<rparr> \<and>
     vma_errors ctx \<le> vma_errors ctx' \<and> (scope_ok ctx \<longrightarrow> scope_ok ctx') \<and>
     (\<forall>k. expr_type (exprs ctx' k) = expr_type (exprs ctx k) \<and> resolved_from (expr_u (exprs ctx k)) (expr_u (exprs ctx' k))) \<and>
     (\<forall>r. unreached ctx r \<and> r \<notin> S \<longrightarrow> value_of ctx' r = value_of ctx r) \<and>
     (\<exists>bs. vma_output ctx' = vma_output ctx @ bs \<and> (vma_errors ctx' = vma_errors ctx \<longrightarrow> length bs = n))"

lemma writes_fields:
  assumes "writes S n ctx ctx'"
  shows "globals ctx' = globals ctx" "ncalls ctx' = ncalls ctx" "insns ctx' = insns ctx" "start_va ctx' = start_va ctx"
    "bss_va ctx' = bss_va ctx" "end_va ctx' = end_va ctx" "next_expr ctx' = next_expr ctx" "start_symbol ctx' = start_symbol ctx"
    "sub_symtab ctx' = sub_symtab ctx" "all_symbols ctx' = all_symbols ctx" "vma_errors ctx \<le> vma_errors ctx'"
    "expr_type (exprs ctx' k) = expr_type (exprs ctx k)" "unreached ctx r \<Longrightarrow> r \<notin> S \<Longrightarrow> value_of ctx' r = value_of ctx r"
proof -
  have "ctx' = ctx\<lparr>exprs := exprs ctx', vma_errors := vma_errors ctx', vma_output := vma_output ctx', lookup_stack := lookup_stack ctx'\<rparr>"
    using assms by (simp add: writes_def)
  then show *: "globals ctx' = globals ctx" "ncalls ctx' = ncalls ctx" "insns ctx' = insns ctx" "start_va ctx' = start_va ctx"
    "bss_va ctx' = bss_va ctx" "end_va ctx' = end_va ctx" "next_expr ctx' = next_expr ctx" "start_symbol ctx' = start_symbol ctx"
    by (cases ctx; cases ctx'; simp)+
  show "sub_symtab ctx' = sub_symtab ctx" by (simp add: sub_symtab_def fun_eq_iff *)
  then show "all_symbols ctx' = all_symbols ctx" by (simp add: all_symbols_def *)
qed (use assms in \<open>simp_all add: writes_def\<close>)

lemma kids_resolved: "expr_type y = expr_type x \<Longrightarrow> resolved_from (expr_u x) (expr_u y) \<Longrightarrow> kids y = kids x"
  by (auto simp: kids_def resolved_from_def)

lemma writes_unreached:
  assumes "writes S n ctx ctx'" shows "unreached ctx' r \<longleftrightarrow> unreached ctx r"
proof -
  have "kids (exprs ctx' k) = kids (exprs ctx k)" for k
    using assms by (intro kids_resolved) (simp_all add: writes_def)
  then show ?thesis by (simp add: unreached_def writes_fields [OF assms])
qed

lemma writes_program:
  assumes "writes S n ctx ctx'" and "program_ok ctx" shows "program_ok ctx'"
proof -
  note f = writes_fields [OF assms(1)]
  have "exprs_ok ctx'"
    using assms by (auto simp: program_ok_def data_ok_def exprs_ok_def f(7) writes_def intro: node_ok_resolved)
  then show ?thesis
    using assms by (simp add: program_ok_def data_ok_def symbols_ok_def insns_ok_def roots_ok_def ncalls_ok_def
        writes_unreached [OF assms(1)] f writes_def)
qed

lemma writes_runs: "writes S n ctx ctx' \<Longrightarrow> runs_ok E ctx \<Longrightarrow> runs_ok E ctx'"
  using writes_program by (auto simp: runs_ok_def foreign_def writes_fields)

lemma writes_refl [simp]: "writes S 0 ctx ctx"
  by (simp add: writes_def)

lemma writes_trans:
  assumes "writes S m c1 c2" "writes S n c2 c3" shows "writes S (m + n) c1 c3"
proof -
  have frame: "c3 = c1\<lparr>exprs := exprs c3, vma_errors := vma_errors c3, vma_output := vma_output c3, lookup_stack := lookup_stack c3\<rparr>"
    using assms unfolding writes_def by (cases c1; cases c2; cases c3) auto
  obtain bs bs' where bs: "vma_output c2 = vma_output c1 @ bs" "vma_errors c2 = vma_errors c1 \<longrightarrow> length bs = m"
      "vma_output c3 = vma_output c2 @ bs'" "vma_errors c3 = vma_errors c2 \<longrightarrow> length bs' = n"
    using assms unfolding writes_def by auto
  have le: "vma_errors c1 \<le> vma_errors c2" "vma_errors c2 \<le> vma_errors c3" using assms by (simp_all add: writes_def)
  have "vma_output c3 = vma_output c1 @ (bs @ bs') \<and> (vma_errors c3 = vma_errors c1 \<longrightarrow> length (bs @ bs') = m + n)"
    using bs le by auto
  moreover have "resolved_from (expr_u (exprs c1 k)) (expr_u (exprs c3 k))" for k
    using assms resolved_from_trans unfolding writes_def by blast
  ultimately show ?thesis
    using frame assms writes_unreached [OF assms(1)] unfolding writes_def by (metis le_trans)
qed

lemma writes_mono: "writes S n c c' \<Longrightarrow> S \<subseteq> T \<Longrightarrow> writes T n c c'"
  by (auto simp: writes_def)

lemma writes_error: "vma_error ctx = Inr ctx' \<Longrightarrow> writes S n ctx ctx'"
  by (auto simp: vma_error_eq writes_def)

lemma writes_output: "output_bytes E xs ctx = Inr ctx' \<Longrightarrow> writes S (length xs) ctx ctx'"
  by (auto simp: output_bytes_def vma_abort_def writes_def value_of_def unreached_def scope_ok_def split: if_splits scope.splits)

lemma writes_evaluate:
  assumes "evaluate_expr E e ctx = Inr (ok, ctx')" and "program_ok ctx" and "e < next_expr ctx"
  shows "writes {e} 0 ctx ctx'"
proof -
  have eq: "vma_passx_evaluate_expr (raw E) (fuel E) e ctx = Inr (ok, ctx')" using assms(1) by (simp add: evaluate_expr_def)
  have ev: "evaluates ctx ctx'" by (rule evaluate_evaluates [OF eq])
  note f = evaluates_fields [OF ev]
  have data: "data_ok ctx" using assms(2) by (simp add: program_ok_def)
  have "ctx' = ctx\<lparr>exprs := exprs ctx', vma_errors := vma_errors ctx', vma_output := vma_output ctx', lookup_stack := lookup_stack ctx'\<rparr>"
    using ev unfolding evaluates_def by (cases ctx; cases ctx') simp
  moreover have "scope_ok ctx'" using evaluates_ok [OF ev data] by (simp add: data_ok_def)
  ultimately show ?thesis
    using ev evaluate_frame [OF eq data assms(3)] by (simp add: writes_def evaluates_def f)
qed

section \<open>Sizes\<close>

text \<open>The bytes of an instruction, and those of the padding before it.\<close>

definition byte_size :: "vma_context \<Rightarrow> vma_insn \<Rightarrow> nat" where
  "byte_size ctx insn =
     (let t = insn_type insn in
      if t \<in> no_size then 0
      else if t \<in> one_byte then 1
      else if t \<in> byte_operand \<union> branches then 2
      else if t = INSN_NCALL then 3
      else if t \<in> {INSN_LDC_W, INSN_LEA, INSN_CALL} then 5
      else (case insn_u insn of
              Text_bytes xs \<Rightarrow> length xs
            | Expr_list es \<Rightarrow> element_size t * length es
            | Expr e \<Rightarrow> element_size t * unat (value_of ctx e)
            | _ \<Rightarrow> 0))"

definition padding :: "vma_insn \<Rightarrow> nat" where
  "padding insn = (if insn_type insn \<in> {INSN_DEFH, INSN_RESH, INSN_DEFW, INSN_RESW} then unat (align_bytes insn) else 0)"

text \<open>The machine instructions, and what is not left to the memory behind the file.\<close>

lemma machine_insn: "t < INSN_ASM_KEYWORDS \<longleftrightarrow> t \<in> one_byte \<union> expr_operand \<union> {INSN_NCALL}"
  by (cases t) (simp_all add: less_vma_insn_type_def insn_number_def insn_types_def insn_kinds)

lemma initialised_insn: "t < INSN_ALLOCATE \<longleftrightarrow> t < INSN_ASM_KEYWORDS \<or> t \<in> data_insns \<union> {INSN_DEFS, INSN_ASM_KEYWORDS}"
  by (cases t) (simp_all add: machine_insn less_vma_insn_type_def [of _ INSN_ALLOCATE] insn_number_def insn_types_def insn_kinds)

section \<open>Pass 2\<close>

lemma writes_u8: "vma_output_u8 E v ctx = Inr ctx' \<Longrightarrow> writes S 1 ctx ctx'"
  unfolding vma_output_u8_def by (drule writes_output [of _ _ _ _ S]) simp

lemma writes_u16: "vma_output_u16 E w ctx = Inr ctx' \<Longrightarrow> writes S 2 ctx ctx'"
  unfolding vma_output_u16_def by (drule writes_output [of _ _ _ _ S]) (simp add: eval_nat_numeral)

lemma writes_u32: "vma_output_u32 E d ctx = Inr ctx' \<Longrightarrow> writes S 4 ctx ctx'"
  unfolding vma_output_u32_def by (drule writes_output [of _ _ _ _ S]) (simp add: eval_nat_numeral)

lemma writes_times:
  assumes "\<And>c c'. out c = Inr c' \<Longrightarrow> writes S n c c'"
  shows "output_times k out ctx = Inr ctx' \<Longrightarrow> writes S (k * n) ctx ctx'"
  by (induction k arbitrary: ctx) (auto simp: bind_res_eq_Inr intro: writes_trans assms)

lemma writes_text: "output_text E xs ctx = Inr ctx' \<Longrightarrow> writes S (length xs) ctx ctx'"
proof (induction xs arbitrary: ctx)
  case (Cons x xs)
  then obtain c where "vma_output_u8 E x ctx = Inr c" "output_text E xs c = Inr ctx'" by (auto simp: bind_res_eq_Inr)
  then show ?case using writes_trans [OF writes_u8 Cons.IH, of E x ctx c] by simp
qed simp

lemma writes_evaluated:
  assumes "evaluated E e f ctx = Inr ctx'" and "program_ok ctx" and "e < next_expr ctx"
    and "\<And>v c. f v c = Inr ctx' \<Longrightarrow> writes {e} n c ctx'"
  shows "writes {e} n ctx ctx'"
proof -
  obtain ok c where "evaluate_expr E e ctx = Inr (ok, c)" "f (value_of c e) c = Inr ctx'"
    using assms(1) by (auto simp: evaluated_def bind_res_eq_Inr)
  then show ?thesis using writes_trans [OF writes_evaluate [OF _ assms(2,3)] assms(4)] by fastforce
qed

lemma writes_exprs:
  assumes "\<And>v c c' S. out v c = Inr c' \<Longrightarrow> writes S n c c'"
  shows "output_exprs E out es ctx = Inr ctx' \<Longrightarrow> program_ok ctx \<Longrightarrow> set es \<subseteq> {..<next_expr ctx}
    \<Longrightarrow> writes (set es) (n * length es) ctx ctx'"
proof (induction es arbitrary: ctx)
  case (Cons e es)
  then obtain c where c: "evaluated E e out ctx = Inr c" "output_exprs E out es c = Inr ctx'" by (auto simp: bind_res_eq_Inr)
  have e: "writes {e} n ctx c" using Cons.prems by (intro writes_evaluated [OF c(1)] assms) auto
  have "writes (set es) (n * length es) c ctx'"
    using Cons.IH [OF c(2) writes_program [OF e]] Cons.prems by (simp add: writes_fields [OF e])
  then show ?case using writes_trans [OF writes_mono [OF e, of "set (e # es)"] writes_mono [of "set es" _ c ctx' "set (e # es)"]] by auto
qed simp

lemma writes_expr_lists:
  assumes "program_ok ctx" "set es \<subseteq> {..<next_expr ctx}"
  shows "output_exprs E (\<lambda>v. vma_output_u8 E (ucast v)) es ctx = Inr ctx' \<Longrightarrow> writes (set es) (length es) ctx ctx'"
    and "output_exprs E (\<lambda>v. vma_output_u16 E (ucast v)) es ctx = Inr ctx' \<Longrightarrow> writes (set es) (2 * length es) ctx ctx'"
    and "output_exprs E (vma_output_u32 E) es ctx = Inr ctx' \<Longrightarrow> writes (set es) (4 * length es) ctx ctx'"
  using writes_exprs [of "\<lambda>v. vma_output_u8 E (ucast v)" 1 E es ctx ctx', OF writes_u8 _ assms]
    writes_exprs [of "\<lambda>v. vma_output_u16 E (ucast v)" 2 E es ctx ctx', OF writes_u16 _ assms]
    writes_exprs [of "vma_output_u32 E" 4 E es ctx ctx', OF writes_u32 _ assms] by simp_all

lemma writes_reserved:
  "output_times k (vma_output_u8 E x) ctx = Inr ctx' \<Longrightarrow> writes S k ctx ctx'"
  "output_times k (vma_output_u16 E y) ctx = Inr ctx' \<Longrightarrow> writes S (2 * k) ctx ctx'"
  "output_times k (vma_output_u32 E z) ctx = Inr ctx' \<Longrightarrow> writes S (4 * k) ctx ctx'"
  using writes_times [of "vma_output_u8 E x" S 1 k ctx ctx', OF writes_u8]
    writes_times [of "vma_output_u16 E y" S 2 k ctx ctx', OF writes_u16]
    writes_times [of "vma_output_u32 E z" S 4 k ctx ctx', OF writes_u32] by (simp_all add: mult.commute)

lemma writes_byte_operand: "emit_byte_operand E v ctx = Inr ctx' \<Longrightarrow> writes S 1 ctx ctx'"
  by (auto simp: emit_byte_operand_def simp del: One_nat_def split: if_splits intro: writes_error writes_u8)

lemma writes_branch: "emit_branch E start v ctx = Inr ctx' \<Longrightarrow> writes S 1 ctx ctx'"
proof -
  assume "emit_branch E start v ctx = Inr ctx'"
  then obtain c where "(if sint (v - (start + 2)) > 127 \<or> sint (v - (start + 2)) < - 128 then vma_error ctx else Inr ctx) = Inr c"
    "vma_output_u8 E (ucast (v - (start + 2))) c = Inr ctx'"
    by (auto simp: emit_branch_def Let_def bind_res_eq_Inr)
  then have "writes S 0 ctx c" "writes S 1 c ctx'" by (auto simp del: One_nat_def split: if_splits intro: writes_error writes_u8)
  then show ?thesis using writes_trans by fastforce
qed

lemma enter_scope_emits:
  assumes "i < length (insns ctx)" shows "writes S 0 ctx (enter_scope i ctx)"
  using assms by (auto simp: enter_scope_def writes_def value_of_def scope_ok_def split: vma_insn_type.splits)

text \<open>The operand of an instruction.\<close>

lemma operand_okD:
  "operand_ok t u \<Longrightarrow> t \<in> expr_operand \<union> res_insns \<Longrightarrow> \<exists>e. u = Expr e"
  "operand_ok t u \<Longrightarrow> t \<in> data_insns \<Longrightarrow> \<exists>es. u = Expr_list es \<and> es \<noteq> []"
  "operand_ok INSN_NCALL u \<Longrightarrow> \<exists>symb k. u = Symref (Sym symb) \<and> sym_u symb = Ncall_id k"
  "operand_ok INSN_DEFS u \<Longrightarrow> \<exists>xs. u = Text_bytes xs"
  "operand_ok INSN_SUBSTART u \<Longrightarrow> \<exists>tab. u = Symtab tab"
  "operand_ok t u \<Longrightarrow> t \<in> one_byte \<union> expr_operand \<union> data_insns \<union> res_insns \<union> no_size \<union> {INSN_NCALL, INSN_DEFS}"
  by (auto simp: operand_ok_def insn_kinds split: if_splits)

lemma insn_in:
  assumes "program_ok ctx" and "i < length (insns ctx)"
  shows "operand_ok (insn_type (insns ctx ! i)) (insn_u (insns ctx ! i))" and "operands (insns ctx ! i) \<subseteq> {..<next_expr ctx}"
  using assms nth_mem by (auto simp: program_ok_def insns_ok_def)

definition operand_size :: "vma_context \<Rightarrow> vma_insn \<Rightarrow> nat" where
  "operand_size ctx insn = byte_size ctx insn - (if insn_type insn < INSN_ASM_KEYWORDS then 1 else 0)"

lemma writes_reservation:
  assumes "emit_operand E i insn ctx = Inr ctx'" and "program_ok ctx" and "i < length (insns ctx)" and "insn = insns ctx ! i"
    and "insn_type insn \<in> res_insns"
  shows "writes {} (operand_size ctx insn) ctx ctx'"
proof -
  obtain e where "insn_u insn = Expr e" using operand_okD(1) insn_in(1) [OF assms(2,3)] assms(4,5) by blast
  moreover have "insn_type insn = INSN_RESB \<or> insn_type insn = INSN_RESH \<or> insn_type insn = INSN_RESW"
    using assms(5) by (simp add: res_insns_def)
  ultimately show ?thesis
    using assms(1)
    by (elim disjE) (simp_all add: emit_operand_def Let_def operand_expr_def operand_size_def byte_size_def machine_insn
        insn_kinds element_size_def writes_reserved)
qed

lemma writes_operand:
  assumes "emit_operand E i insn ctx = Inr ctx'" and "program_ok ctx" and "i < length (insns ctx)" and "insn = insns ctx ! i"
  shows "writes (operands insn) (operand_size ctx insn) ctx ctx'"
proof -
  let ?t = "insn_type insn"
  note ok = insn_in [OF assms(2,3), folded assms(4)]
  consider "?t \<in> no_size" | "?t \<in> one_byte" | "?t \<in> byte_operand" | "?t \<in> branches" | "?t = INSN_NCALL" | "?t = INSN_LDC_W"
    | "?t = INSN_LEA \<or> ?t = INSN_CALL" | "?t = INSN_DEFS" | "?t \<in> data_insns" | "?t \<in> res_insns"
    using operand_okD(6) [OF ok(1)] by (auto simp: expr_operand_def)
  then show ?thesis
  proof cases
    case 1
    then show ?thesis
      using assms(1) enter_scope_emits [OF assms(3)]
      by (auto simp: emit_operand_def Let_def operand_size_def byte_size_def insn_kinds)
  next
    case 2
    then show ?thesis
      using assms(1) by (auto simp: emit_operand_def Let_def operand_size_def byte_size_def machine_insn insn_kinds)
  next
    case 3
    then obtain e where e: "insn_u insn = Expr e" using operand_okD(1) [OF ok(1)] by (auto simp: expr_operand_def)
    have "evaluated E e (emit_byte_operand E) ctx = Inr ctx'"
      using assms(1) 3 e by (auto simp: emit_operand_def Let_def operand_expr_def insn_kinds)
    moreover have "operand_size ctx insn = 1" using 3 by (auto simp: operand_size_def byte_size_def Let_def machine_insn insn_kinds)
    ultimately show ?thesis
      using ok(2) e writes_evaluated [where f = "emit_byte_operand E" and n = 1] assms(2) writes_byte_operand by (simp add: operands_def del: One_nat_def)
  next
    case 4
    then obtain e where e: "insn_u insn = Expr e" using operand_okD(1) [OF ok(1)] by (auto simp: expr_operand_def)
    have "evaluated E e (emit_branch E (start_addr insn)) ctx = Inr ctx'"
      using assms(1) 4 e by (auto simp: emit_operand_def Let_def operand_expr_def insn_kinds)
    moreover have "operand_size ctx insn = 1" using 4 by (auto simp: operand_size_def byte_size_def Let_def machine_insn insn_kinds)
    ultimately show ?thesis
      using ok(2) e writes_evaluated [where f = "emit_branch E (start_addr insn)" and n = 1] assms(2) writes_branch by (simp add: operands_def del: One_nat_def)
  next
    case 5
    then obtain symb k where "insn_u insn = Symref (Sym symb)" "sym_u symb = Ncall_id k"
      using operand_okD(3) [of "insn_u insn"] ok(1) by auto
    then have "vma_output_u16 E (ucast k) ctx = Inr ctx'" using assms(1) 5 by (simp add: emit_operand_def Let_def insn_kinds)
    moreover have "operand_size ctx insn = 2" using 5 by (simp add: operand_size_def byte_size_def Let_def machine_insn insn_kinds)
    ultimately show ?thesis by (simp add: writes_u16)
  next
    case 6
    then obtain e where e: "insn_u insn = Expr e" using operand_okD(1) [OF ok(1)] by (auto simp: expr_operand_def)
    have "evaluated E e (vma_output_u32 E) ctx = Inr ctx'"
      using assms(1) 6 e by (simp add: emit_operand_def Let_def operand_expr_def insn_kinds)
    moreover have "operand_size ctx insn = 4" using 6 by (simp add: operand_size_def byte_size_def Let_def machine_insn insn_kinds)
    ultimately show ?thesis
      using ok(2) e writes_evaluated [where f = "vma_output_u32 E" and n = 4] assms(2) writes_u32 by (simp add: operands_def del: One_nat_def)
  next
    case 7
    then obtain e where e: "insn_u insn = Expr e" using operand_okD(1) [OF ok(1)] by (auto simp: expr_operand_def)
    let ?f = "\<lambda>v. vma_output_u32 E (v - (start_addr insn + 5))"
    have "evaluated E e ?f ctx = Inr ctx'"
      using assms(1) 7 e by (auto simp: emit_operand_def Let_def operand_expr_def insn_kinds)
    moreover have "operand_size ctx insn = 4" using 7 by (auto simp: operand_size_def byte_size_def Let_def machine_insn insn_kinds)
    ultimately show ?thesis
      using ok(2) e writes_evaluated [where f = "?f" and n = 4] assms(2) writes_u32 by (simp add: operands_def del: One_nat_def)
  next
    case 8
    then obtain xs where "insn_u insn = Text_bytes xs" using operand_okD(4) [of "insn_u insn"] ok(1) by auto
    then show ?thesis
      using assms(1) 8 by (simp add: emit_operand_def Let_def operand_size_def byte_size_def machine_insn insn_kinds writes_text)
  next
    case 9
    then obtain es where es: "insn_u insn = Expr_list es" using operand_okD(2) [OF ok(1)] by auto
    then have "set es \<subseteq> {..<next_expr ctx}" "operands insn = set es" using ok(2) by (auto simp: operands_def)
    note out = this writes_expr_lists [OF assms(2) this(1)]
    have "?t = INSN_DEFB \<or> ?t = INSN_DEFH \<or> ?t = INSN_DEFW" using 9 by (simp add: data_insns_def)
    then show ?thesis
      using assms(1) es out
      by (elim disjE) (simp_all add: emit_operand_def Let_def operand_list_def operand_size_def byte_size_def machine_insn
          insn_kinds element_size_def)
  next
    case 10
    then show ?thesis by (intro writes_mono [OF writes_reservation [OF assms 10]]) simp
  qed
qed

text \<open>The nodes an instruction evaluates in pass 2.\<close>

definition touched :: "vma_insn \<Rightarrow> nat set" where
  "touched insn = (if insn_type insn \<in> res_insns then {} else operands insn)"

lemma writes_touched:
  assumes "emit_operand E i insn ctx = Inr ctx'" and "program_ok ctx" and "i < length (insns ctx)" and "insn = insns ctx ! i"
  shows "writes (touched insn) (operand_size ctx insn) ctx ctx'"
  using writes_reservation [OF assms] writes_operand [OF assms] by (simp add: touched_def)

lemma writes_opcode:
  "emit_opcode E insn ctx = Inr ctx' \<Longrightarrow> writes S (if insn_type insn < INSN_ASM_KEYWORDS then 1 else 0) ctx ctx'"
  by (auto simp: emit_opcode_def simp del: One_nat_def split: if_splits intro: writes_u8)

lemma writes_padding: "emit_padding E insn ctx = Inr ctx' \<Longrightarrow> writes S (padding insn) ctx ctx'"
  by (auto simp: emit_padding_def padding_def split: if_splits intro: writes_reserved(1))

lemma byte_size_cong:
  assumes "program_ok c" and "i < length (insns c)"
    and "\<And>e. insn_type (insns c ! i) \<in> res_insns \<Longrightarrow> insn_u (insns c ! i) = Expr e \<Longrightarrow> value_of c' e = value_of c e"
  shows "byte_size c' (insns c ! i) = byte_size c (insns c ! i)"
proof (cases "insn_type (insns c ! i) \<in> res_insns")
  case True
  then obtain e where e: "insn_u (insns c ! i) = Expr e" using operand_okD(1) [OF insn_in(1) [OF assms(1,2)]] by auto
  then have "value_of c' e = value_of c e" using assms(3) True by blast
  then show ?thesis by (simp only: byte_size_def Let_def e insn_union.case)
next
  case False
  then show ?thesis
    using operand_okD(6) [OF insn_in(1) [OF assms(1,2)]] operand_okD(2) [OF insn_in(1) [OF assms(1,2)]]
      operand_okD(4) [of "insn_u (insns c ! i)"] insn_in(1) [OF assms(1,2)]
    by (auto simp: byte_size_def Let_def expr_operand_def split: insn_union.splits)
qed

lemma size_stays:
  assumes "writes S n ctx c" and "program_ok ctx" and "i < length (insns ctx)"
    and "insn_type (insns ctx ! i) \<in> res_insns \<Longrightarrow> operands (insns ctx ! i) \<inter> S = {}"
  shows "byte_size c (insns ctx ! i) = byte_size ctx (insns ctx ! i)"
proof (rule byte_size_cong [OF assms(2,3)])
  fix e assume e: "insn_type (insns ctx ! i) \<in> res_insns" "insn_u (insns ctx ! i) = Expr e"
  then have "unreached ctx e" "e \<notin> S" using assms(2-4) by (auto simp: program_ok_def roots_ok_def operands_def)
  then show "value_of c e = value_of ctx e" by (rule writes_fields(13) [OF assms(1)])
qed

lemma writes_insn:
  assumes "vma_emit_insn E i ctx = Inr ctx'" and "program_ok ctx" and "i < length (insns ctx)"
  shows "writes (touched (insns ctx ! i)) (padding (insns ctx ! i) + byte_size ctx (insns ctx ! i)) ctx ctx'"
    and "insn_type (insns ctx ! i) < INSN_ASM_KEYWORDS \<Longrightarrow>
      \<exists>bs. vma_output ctx' = vma_output ctx @ vm_insn_to_opcode ! insn_number (insn_type (insns ctx ! i)) # bs"
proof -
  let ?insn = "insns ctx ! i"
  obtain c1 c2 where c1: "emit_opcode E ?insn ctx = Inr c1" and c2: "emit_padding E ?insn c1 = Inr c2"
    and c3: "emit_operand E i ?insn c2 = Inr ctx'"
    using assms(1) by (auto simp: vma_emit_insn_def Let_def bind_res_eq_Inr)
  let ?m = "(if insn_type ?insn < INSN_ASM_KEYWORDS then 1 else 0) + padding ?insn"
  have e12: "writes {} ?m ctx c2" by (rule writes_trans [OF writes_opcode [OF c1] writes_padding [OF c2]])
  note f = writes_fields [OF e12]
  have "writes (touched ?insn) (operand_size c2 ?insn) c2 ctx'"
    by (rule writes_touched [OF c3 writes_program [OF e12 assms(2)]]) (simp_all add: f assms(3))
  moreover have "writes (touched ?insn) ?m ctx c2" using e12 by (rule writes_mono) simp
  ultimately have e: "writes (touched ?insn) (?m + operand_size c2 ?insn) ctx ctx'" by (rule writes_trans [rotated])
  have "byte_size c2 ?insn = byte_size ctx ?insn" by (rule size_stays [OF e12 assms(2,3)]) simp
  moreover have "1 \<le> byte_size ctx ?insn" if "insn_type ?insn < INSN_ASM_KEYWORDS"
    using that by (auto simp: machine_insn byte_size_def Let_def insn_kinds)
  ultimately have "?m + operand_size c2 ?insn = padding ?insn + byte_size ctx ?insn"
    by (cases "insn_type ?insn < INSN_ASM_KEYWORDS") (simp_all add: operand_size_def)
  then show "writes (touched ?insn) (padding ?insn + byte_size ctx ?insn) ctx ctx'" using e by metis
  show "\<exists>bs. vma_output ctx' = vma_output ctx @ vm_insn_to_opcode ! insn_number (insn_type ?insn) # bs"
    if "insn_type ?insn < INSN_ASM_KEYWORDS"
  proof -
    have "vma_output c1 = vma_output ctx @ [vm_insn_to_opcode ! insn_number (insn_type ?insn)]"
      using c1 that by (auto simp: emit_opcode_def vma_output_u8_def output_bytes_def vma_abort_def split: if_splits)
    moreover obtain bs where "vma_output ctx' = vma_output c1 @ bs"
    proof -
      have "writes (touched ?insn) (padding ?insn + operand_size c2 ?insn) c1 ctx'"
        by (rule writes_trans [OF writes_padding [OF c2]]) fact
      then show ?thesis using that by (auto simp: writes_def)
    qed
    ultimately show ?thesis by simp
  qed
qed

section \<open>Pass 2 comes to an end\<close>

lemma ends_output [simp]: "well_ended (output_bytes E xs ctx)" "well_ended (vma_output_u8 E v ctx)"
  "well_ended (vma_output_u16 E w ctx)" "well_ended (vma_output_u32 E d ctx)"
  by (simp_all add: output_bytes_def vma_output_u8_def vma_output_u16_def vma_output_u32_def)

lemma ends_times: "(\<And>c. well_ended (out c)) \<Longrightarrow> well_ended (output_times k out ctx)"
  by (induction k arbitrary: ctx) (auto intro!: well_ended_bind)

lemma ends_text: "well_ended (output_text E xs ctx)"
  by (induction xs arbitrary: ctx) (auto intro!: well_ended_bind)

lemma ends_evaluated:
  assumes "runs_ok E ctx" and "e < next_expr ctx" and "\<And>v c. well_ended (f v c)"
  shows "well_ended (evaluated E e f ctx)"
  unfolding evaluated_def by (rule well_ended_bind [OF evaluate_ends [OF assms(1,2)]]) (auto simp: assms(3))

lemma ends_exprs:
  assumes "\<And>v c. well_ended (out v c)" and "\<And>v c c' S. out v c = Inr c' \<Longrightarrow> writes S n c c'"
  shows "runs_ok E ctx \<Longrightarrow> set es \<subseteq> {..<next_expr ctx} \<Longrightarrow> well_ended (output_exprs E out es ctx)"
proof (induction es arbitrary: ctx)
  case (Cons e es)
  have "program_ok ctx" using Cons.prems by (simp add: runs_ok_def)
  then have "writes {e} n ctx c" if "evaluated E e out ctx = Inr c" for c
    using Cons.prems by (intro writes_evaluated [OF that] assms(2)) auto
  then show ?case
    using Cons by (auto intro!: well_ended_bind ends_evaluated assms(1) Cons.IH dest: writes_runs simp: writes_fields)
qed simp

lemma ends_operand:
  assumes "runs_ok E ctx" and "i < length (insns ctx)" and "insn = insns ctx ! i"
  shows "well_ended (emit_operand E i insn ctx)"
proof -
  have p: "program_ok ctx" using assms(1) by (simp add: runs_ok_def)
  note ok = insn_in [OF p assms(2), folded assms(3)]
  have expr: "well_ended (evaluated E e f ctx)" if "insn_u insn = Expr e" "\<And>v c. well_ended (f v c)" for e f
    using that ok(2) by (intro ends_evaluated [OF assms(1)]) (auto simp: operands_def)
  have lists: "well_ended (output_exprs E out es ctx)"
    if "insn_u insn = Expr_list es" "\<And>v c. well_ended (out v c)" "\<And>v c c' S. out v c = Inr c' \<Longrightarrow> writes S n c c'" for es out n
    using that ok(2) by (intro ends_exprs [OF that(2,3) assms(1)]) (auto simp: operands_def)
  have byte: "well_ended (emit_byte_operand E v c)" and br: "well_ended (emit_branch E a v c)" for v c a
    by (auto simp: emit_byte_operand_def emit_branch_def Let_def intro!: well_ended_bind)
  have operand: "well_ended (operand_expr insn f ctx)" if "insn_type insn \<in> expr_operand \<union> res_insns" "\<And>e. insn_u insn = Expr e \<Longrightarrow> well_ended (f e ctx)" for f
    using operand_okD(1) [OF ok(1) that(1)] that(2) by (auto simp: operand_expr_def)
  have operands: "well_ended (operand_list insn f ctx)" if "insn_type insn \<in> data_insns" "\<And>es. insn_u insn = Expr_list es \<Longrightarrow> well_ended (f es ctx)" for f
    using operand_okD(2) [OF ok(1) that(1)] that(2) by (auto simp: operand_list_def)
  have u8: "well_ended (output_exprs E (\<lambda>v. vma_output_u8 E (ucast v)) es ctx)"
    and u16: "well_ended (output_exprs E (\<lambda>v. vma_output_u16 E (ucast v)) es ctx)"
    and u32: "well_ended (output_exprs E (vma_output_u32 E) es ctx)" if "insn_u insn = Expr_list es" for es
    using lists [OF that _ writes_u8] lists [OF that _ writes_u16] lists [OF that _ writes_u32] by simp_all
  show ?thesis
    using operand_okD(3) [of "insn_u insn"] operand_okD(4) [of "insn_u insn"] ok(1)
    by (auto simp: emit_operand_def Let_def expr_operand_def data_insns_def res_insns_def ends_text ends_times
        intro!: operand operands expr byte br u8 u16 u32)
qed

lemma ends_insn:
  assumes "runs_ok E ctx" and "i < length (insns ctx)"
  shows "well_ended (vma_emit_insn E i ctx)"
  unfolding vma_emit_insn_def Let_def
proof (intro well_ended_bind)
  show "well_ended (emit_opcode E (insns ctx ! i) ctx)" by (simp add: emit_opcode_def)
  show "well_ended (emit_padding E (insns ctx ! i) c)" for c by (simp add: emit_padding_def ends_times)
  fix c1 c2 assume "emit_opcode E (insns ctx ! i) ctx = Inr c1" "emit_padding E (insns ctx ! i) c1 = Inr c2"
  then have "writes {} ((if insn_type (insns ctx ! i) < INSN_ASM_KEYWORDS then 1 else 0) + padding (insns ctx ! i)) ctx c2"
    by (intro writes_trans [OF writes_opcode writes_padding])
  then show "well_ended (emit_operand E i (insns ctx ! i) c2)"
    using assms by (intro ends_operand) (auto simp: writes_fields dest: writes_runs)
qed

lemma ends_loop:
  "runs_ok E ctx \<Longrightarrow> i + n \<le> length (insns ctx) \<Longrightarrow> well_ended (emit_loop E n i ctx)"
proof (induction n arbitrary: i ctx)
  case (Suc n)
  have p: "program_ok ctx" using Suc.prems by (simp add: runs_ok_def)
  have "well_ended (emit_loop E n (Suc i) c)" if "vma_emit_insn E i ctx = Inr c" for c
  proof -
    have e: "writes (touched (insns ctx ! i)) (padding (insns ctx ! i) + byte_size ctx (insns ctx ! i)) ctx c"
      using that p Suc.prems by (intro writes_insn) simp_all
    show ?thesis using Suc.IH [OF writes_runs [OF e]] Suc.prems by (simp add: writes_fields [OF e])
  qed
  then show ?case using ends_insn [OF Suc.prems(1)] Suc.prems(2) by (auto intro!: well_ended_bind)
qed simp

end
