(* ===== verification/Vma_Layout.thy ===== *)
theory Vma_Layout
  imports Vma_Emit
begin

text \<open>
  The layout of an image: pass 1 places every instruction behind the padding of its alignment and
  the bytes of the instructions before it, and pass 2 writes exactly these bytes.
\<close>

section \<open>What pass 1 changes\<close>

text \<open>Addresses, alignment and the allocated flag of instructions; and what an evaluation changes.\<close>

definition advances :: "vma_context \<Rightarrow> vma_context \<Rightarrow> bool" where
  "advances ctx ctx' \<longleftrightarrow>
     globals ctx' = globals ctx \<and> ncalls ctx' = ncalls ctx \<and> next_expr ctx' = next_expr ctx \<and>
     start_symbol ctx' = start_symbol ctx \<and> start_va ctx' = start_va ctx \<and> vma_output ctx' = vma_output ctx \<and>
     length (insns ctx') = length (insns ctx) \<and>
     (\<forall>i < length (insns ctx). insn_type (insns ctx' ! i) = insn_type (insns ctx ! i) \<and> insn_u (insns ctx' ! i) = insn_u (insns ctx ! i)) \<and>
     vma_errors ctx \<le> vma_errors ctx' \<and> (scope_ok ctx \<longrightarrow> scope_ok ctx') \<and>
     (\<forall>k. expr_type (exprs ctx' k) = expr_type (exprs ctx k) \<and> resolved_from (expr_u (exprs ctx k)) (expr_u (exprs ctx' k)))"

lemma advances_refl [simp]: "advances ctx ctx"
  by (simp add: advances_def)

lemma advances_trans [trans]: "advances c1 c2 \<Longrightarrow> advances c2 c3 \<Longrightarrow> advances c1 c3"
  unfolding advances_def by (auto intro: resolved_from_trans)

lemma advances_symbols:
  assumes "advances ctx ctx'" shows "all_symbols ctx' = all_symbols ctx"
proof -
  have "sub_symtab ctx' i = sub_symtab ctx i" if "i < length (insns ctx)" for i
    using assms that by (simp add: advances_def sub_symtab_def)
  then show ?thesis using assms by (simp add: all_symbols_def advances_def)
qed

lemma advances_unreached:
  assumes "advances ctx ctx'" shows "unreached ctx' r \<longleftrightarrow> unreached ctx r"
proof -
  have "kids (exprs ctx' k) = kids (exprs ctx k)" for k
    using assms by (intro kids_resolved) (simp_all add: advances_def)
  then show ?thesis using assms advances_symbols [OF assms] by (simp add: unreached_def advances_def)
qed

lemma advances_operands: "advances ctx ctx' \<Longrightarrow> i < length (insns ctx) \<Longrightarrow> operands (insns ctx' ! i) = operands (insns ctx ! i)"
  by (simp add: advances_def operands_def)

lemma advances_program:
  assumes "advances ctx ctx'" and "program_ok ctx" shows "program_ok ctx'"
proof -
  have f: "next_expr ctx' = next_expr ctx" "length (insns ctx') = length (insns ctx)" "ncalls ctx' = ncalls ctx"
    and i: "\<And>i. i < length (insns ctx) \<Longrightarrow> insn_type (insns ctx' ! i) = insn_type (insns ctx ! i) \<and> insn_u (insns ctx' ! i) = insn_u (insns ctx ! i)"
    using assms(1) by (simp_all add: advances_def)
  have "exprs_ok ctx'"
    using assms by (auto simp: program_ok_def data_ok_def exprs_ok_def f advances_def intro: node_ok_resolved)
  moreover have "insns_ok ctx'"
    using assms(2) i advances_operands [OF assms(1)] by (simp add: program_ok_def insns_ok_def all_set_conv_all_nth f)
  moreover have "roots_ok ctx'"
    using assms(2) i advances_operands [OF assms(1)] by (simp add: program_ok_def roots_ok_def f advances_unreached [OF assms(1)])
  ultimately show ?thesis
    using assms by (simp add: program_ok_def data_ok_def symbols_ok_def ncalls_ok_def advances_symbols [OF assms(1)] f advances_def)
qed

lemma advances_runs: "advances ctx ctx' \<Longrightarrow> runs_ok E ctx \<Longrightarrow> runs_ok E ctx'"
proof -
  assume a: "advances ctx ctx'" and r: "runs_ok E ctx"
  have n: "next_expr ctx' = next_expr ctx" using a by (simp add: advances_def)
  have "program_ok ctx'" using r advances_program [OF a] by (simp add: runs_ok_def)
  moreover have "foreign (raw E) ctx'" using r by (simp add: runs_ok_def foreign_def advances_symbols [OF a])
  ultimately show "runs_ok E ctx'" using r unfolding runs_ok_def n by blast
qed

lemma evaluates_advances: "evaluates ctx ctx' \<Longrightarrow> advances ctx ctx'"
proof -
  assume ev: "evaluates ctx ctx'"
  note f = evaluates_fields [OF ev]
  have "scope_ok ctx' \<longleftrightarrow> scope_ok ctx" unfolding scope_ok_def f ..
  then show "advances ctx ctx'"
    using ev unfolding advances_def evaluates_def f by blast
qed

lemma advances_set_insn:
  assumes "\<And>x. insn_type (f x) = insn_type x \<and> insn_u (f x) = insn_u x"
  shows "advances ctx (set_insn i f ctx)"
proof -
  have "insn_type ((insns ctx)[i := f (insns ctx ! i)] ! j) = insn_type (insns ctx ! j) \<and>
      insn_u ((insns ctx)[i := f (insns ctx ! i)] ! j) = insn_u (insns ctx ! j)" if "j < length (insns ctx)" for j
    using assms that by (cases "i = j") auto
  then show ?thesis
    by (auto simp: advances_def set_insn_def scope_ok_def split: scope.splits)
qed

section \<open>Pass 1 on one instruction\<close>

text \<open>The size that is estimated is the size of the instruction afterwards, when no error was counted.\<close>

lemma estimate_effect:
  assumes "vma_pass1_insn_estimate_size E insn ctx = Inr (sz, ctx')" and "program_ok ctx"
    and "i < length (insns ctx)" and "insn = insns ctx ! i"
  shows "evaluates ctx ctx'"
    and "unreached ctx r \<Longrightarrow> r \<notin> operands insn \<Longrightarrow> value_of ctx' r = value_of ctx r"
    and "vma_errors ctx' = vma_errors ctx \<Longrightarrow> sz = of_nat (byte_size ctx' insn)"
proof -
  let ?t = "insn_type insn"
  note ok = insn_in [OF assms(2,3), folded assms(4)]
  have "evaluates ctx ctx' \<and> (unreached ctx r \<longrightarrow> r \<notin> operands insn \<longrightarrow> value_of ctx' r = value_of ctx r) \<and>
    (vma_errors ctx' = vma_errors ctx \<longrightarrow> sz = of_nat (byte_size ctx' insn))"
  proof (cases "?t \<in> res_insns")
    case True
    then obtain e where e: "insn_u insn = Expr e" using operand_okD(1) [OF ok(1)] by auto
    then have less: "e < next_expr ctx" and ops: "operands insn = {e}" using ok(2) by (auto simp: operands_def)
    have "bind_res (evaluate_expr E e ctx) (\<lambda>(ok, ctx). if \<not> ok then bind_res (vma_error ctx) (\<lambda>ctx. Inr (0, ctx))
        else Inr (of_nat (element_size ?t) * value_of ctx e, ctx)) = Inr (sz, ctx')"
      using assms(1) True e by (auto simp: vma_pass1_insn_estimate_size_def Let_def insn_kinds)
    then obtain b c where ev: "evaluate_expr E e ctx = Inr (b, c)"
      and rest: "(if \<not> b then bind_res (vma_error c) (\<lambda>ctx. Inr (0, ctx)) else Inr (of_nat (element_size ?t) * value_of c e, c)) = Inr (sz, ctx')"
      by (auto simp: bind_res_eq_Inr)
    have t: "tells ctx b c" using evaluate_tells ev by (simp add: evaluate_expr_def)
    have keep: "value_of c r = value_of ctx r" if "unreached ctx r" "r \<notin> operands insn"
      using writes_fields(13) [OF writes_evaluate [OF ev assms(2) less]] that ops by simp
    have size: "byte_size c insn = element_size ?t * unat (value_of c e)"
      using True e by (auto simp: byte_size_def insn_kinds)
    show ?thesis
    proof (cases b)
      case True
      then show ?thesis using rest t keep size by (auto simp: tells_def)
    next
      case False
      then have "evaluates c ctx'" "vma_errors c < vma_errors ctx'" "value_of ctx' r = value_of c r"
        using rest by (auto simp: bind_res_eq_Inr vma_error_eq)
      then show ?thesis using t keep False evaluates_trans by (auto simp: tells_def)
    qed
  next
    case False
    note est = assms(1) [unfolded vma_pass1_insn_estimate_size_def Let_def]
    consider "?t \<in> no_size" | "?t \<in> one_byte" | "?t \<in> byte_operand \<union> branches" | "?t = INSN_NCALL"
      | "?t \<in> {INSN_LDC_W, INSN_LEA, INSN_CALL}" | "?t = INSN_DEFS" | "?t \<in> data_insns"
      using operand_okD(6) [OF ok(1)] False by (auto simp: expr_operand_def)
    then have "ctx' = ctx \<and> sz = of_nat (byte_size ctx insn)"
    proof cases
      case 1
      then show ?thesis using est by (simp add: byte_size_def)
    next
      case 2
      then have "?t \<notin> no_size" by (auto simp: insn_kinds)
      then show ?thesis using est 2 by (simp add: byte_size_def)
    next
      case 3
      then have "?t \<notin> no_size" "?t \<notin> one_byte" by (auto simp: insn_kinds)
      then show ?thesis using est 3 by (simp add: byte_size_def)
    next
      case 4
      then have "?t \<notin> no_size" "?t \<notin> one_byte" "?t \<notin> byte_operand \<union> branches" by (simp_all add: insn_kinds)
      then show ?thesis using est 4 by (simp add: byte_size_def)
    next
      case 5
      then have "?t \<notin> no_size" "?t \<notin> one_byte" "?t \<notin> byte_operand \<union> branches" "?t \<noteq> INSN_NCALL" by (auto simp: insn_kinds)
      then show ?thesis using est 5 by (simp add: byte_size_def)
    next
      case 6
      then obtain xs where "insn_u insn = Text_bytes xs" using operand_okD(4) [of "insn_u insn"] ok(1) by auto
      then show ?thesis using est 6 by (simp add: byte_size_def insn_kinds)
    next
      case 7
      then obtain es where "insn_u insn = Expr_list es" using operand_okD(2) [OF ok(1)] by auto
      moreover have "?t \<notin> no_size" "?t \<notin> one_byte" "?t \<notin> byte_operand \<union> branches" "?t \<noteq> INSN_NCALL"
          "?t \<notin> {INSN_LDC_W, INSN_LEA, INSN_CALL}" "?t \<noteq> INSN_DEFS" "?t \<in> {INSN_DEFB, INSN_DEFH, INSN_DEFW}"
        using 7 by (auto simp: insn_kinds)
      ultimately show ?thesis using est by (simp add: byte_size_def)
    qed
    then show ?thesis by simp
  qed
  then show "evaluates ctx ctx'" "unreached ctx r \<Longrightarrow> r \<notin> operands insn \<Longrightarrow> value_of ctx' r = value_of ctx r"
    "vma_errors ctx' = vma_errors ctx \<Longrightarrow> sz = of_nat (byte_size ctx' insn)" by auto
qed

lemma set_insn_simps [simp]:
  "exprs (set_insn i f ctx) = exprs ctx" "next_expr (set_insn i f ctx) = next_expr ctx"
  "vma_errors (set_insn i f ctx) = vma_errors ctx" "length (insns (set_insn i f ctx)) = length (insns ctx)"
  "lookup_stack (set_insn i f ctx) = lookup_stack ctx"
  "i < length (insns ctx) \<Longrightarrow> insns (set_insn i f ctx) ! i = f (insns ctx ! i)"
  "j \<noteq> i \<Longrightarrow> insns (set_insn i f ctx) ! j = insns ctx ! j"
  by (simp_all add: set_insn_def)

lemma advances_scope:
  assumes "i < length (insns ctx)"
  shows "advances ctx ((enter_scope i ctx)\<lparr>current_va := nva\<rparr>)" and "insns (enter_scope i ctx) = insns ctx"
    "exprs (enter_scope i ctx) = exprs ctx" "vma_errors (enter_scope i ctx) = vma_errors ctx"
proof -
  have "enter_scope i ctx = ctx \<or> enter_scope i ctx = ctx\<lparr>lookup_stack := Globals\<rparr> \<or>
      enter_scope i ctx = ctx\<lparr>lookup_stack := Sub i\<rparr> \<and> insn_type (insns ctx ! i) = INSN_SUBSTART"
    by (cases "insn_type (insns ctx ! i)") (simp_all add: enter_scope_def)
  then consider "enter_scope i ctx = ctx" | "enter_scope i ctx = ctx\<lparr>lookup_stack := Globals\<rparr>"
    | "enter_scope i ctx = ctx\<lparr>lookup_stack := Sub i\<rparr>" "insn_type (insns ctx ! i) = INSN_SUBSTART" by blast
  note which = this
  show "advances ctx ((enter_scope i ctx)\<lparr>current_va := nva\<rparr>)"
    using which assms by cases (simp_all add: advances_def scope_ok_def split: scope.splits)
  show "insns (enter_scope i ctx) = insns ctx" "exprs (enter_scope i ctx) = exprs ctx" "vma_errors (enter_scope i ctx) = vma_errors ctx"
    using which by (cases; simp)+
qed

lemma pass1_align_effect:
  assumes "pass1_align i nva ctx = (nva1, c)" and "i < length (insns ctx)"
  shows "advances ctx c" and "\<And>j. j \<noteq> i \<Longrightarrow> insns c ! j = insns ctx ! j" and "exprs c = exprs ctx" and "vma_errors c = vma_errors ctx"
    and "nva1 = nva + of_nat (padding (insns c ! i))"
proof -
  let ?t = "insn_type (insns ctx ! i)"
  let ?a = "if ?t \<in> {INSN_DEFH, INSN_RESH} then 2 else if ?t \<in> {INSN_DEFW, INSN_RESW} then 4 else 1 :: u32"
  let ?f = "\<lambda>insn. insn\<lparr>align_bytes := VMA_ALIGN nva ?a - nva\<rparr>"
  have eq: "(nva1, c) = (if ?a = 1 then (nva, ctx) else (VMA_ALIGN nva ?a, set_insn i ?f ctx))"
    using assms(1) unfolding pass1_align_def Let_def by (simp only:)
  have pad: "padding (?f x) = (if ?t \<in> {INSN_DEFH, INSN_RESH, INSN_DEFW, INSN_RESW} then unat (VMA_ALIGN nva ?a - nva) else 0)"
    if "insn_type x = ?t" for x
    using that by (simp add: padding_def)
  consider "?a = 1" "c = ctx" "nva1 = nva" "?t \<notin> {INSN_DEFH, INSN_RESH, INSN_DEFW, INSN_RESW}"
    | "c = set_insn i ?f ctx" "nva1 = VMA_ALIGN nva ?a" "?t \<in> {INSN_DEFH, INSN_RESH, INSN_DEFW, INSN_RESW}"
    using eq by (auto split: if_splits)
  note which = this
  show "advances ctx c"
    using which by cases (simp_all add: advances_set_insn)
  show "\<And>j. j \<noteq> i \<Longrightarrow> insns c ! j = insns ctx ! j" "exprs c = exprs ctx" "vma_errors c = vma_errors ctx"
    using which by (cases; simp)+
  show "nva1 = nva + of_nat (padding (insns c ! i))"
    using which
  proof cases
    case 1
    then show ?thesis by (simp add: padding_def)
  next
    case 2
    then have "padding (insns c ! i) = unat (VMA_ALIGN nva ?a - nva)"
      using assms(2) by (simp only: set_insn_simps pad if_True)
    then show ?thesis using 2(2) by simp
  qed
qed

lemma pass1_insn_effect:
  assumes "pass1_insn E i (nva, bss) ctx = Inr ((nva', bss'), ctx')" and "program_ok ctx" and "i < length (insns ctx)"
  shows "advances ctx ctx'"
    and "\<And>j. j \<noteq> i \<Longrightarrow> insns ctx' ! j = insns ctx ! j"
    and "\<And>r. unreached ctx r \<Longrightarrow> r \<notin> operands (insns ctx ! i) \<Longrightarrow> value_of ctx' r = value_of ctx r"
    and "start_addr (insns ctx' ! i) = nva + of_nat (padding (insns ctx' ! i)) \<and> allocated (insns ctx' ! i)"
    and "vma_errors ctx' = vma_errors ctx \<Longrightarrow>
      nva' = nva + of_nat (padding (insns ctx' ! i) + byte_size ctx' (insns ctx' ! i))"
    and "bss' = (if insn_type (insns ctx' ! i) < INSN_ALLOCATE then nva' else bss)"
proof -
  obtain nva1 c1 where al: "pass1_align i nva ctx = (nva1, c1)" by fastforce
  let ?c2 = "(enter_scope i c1)\<lparr>current_va := nva1\<rparr>"
  let ?f = "\<lambda>insn. insn\<lparr>start_addr := nva1, allocated := True\<rparr>"
  let ?c3 = "set_insn i ?f ?c2"
  note al' = pass1_align_effect [OF al assms(3)]
  have i1: "i < length (insns c1)" using al'(1) assms(3) by (simp add: advances_def)
  note sc = advances_scope [OF i1]
  have i2: "i < length (insns ?c2)" using i1 by (simp add: sc)
  have adv3: "advances ctx ?c3"
    by (rule advances_trans [OF al'(1) advances_trans [OF sc(1) advances_set_insn]]) simp
  obtain sz where est: "vma_pass1_insn_estimate_size E (insns ?c3 ! i) ?c3 = Inr (sz, ctx')"
    and nva': "nva' = nva1 + sz" and bss': "bss' = (if insn_type (insns ctx' ! i) < INSN_ALLOCATE then nva' else bss)"
    using assms(1) by (auto simp: pass1_insn_def al Let_def bind_res_eq_Inr)
  have i3: "i < length (insns ?c3)" using i1 by (simp add: sc)
  note ef = estimate_effect [OF est advances_program [OF adv3 assms(2)] i3 refl]
  note fields = evaluates_fields [OF ef(1)]
  show "advances ctx ctx'" by (rule advances_trans [OF adv3 evaluates_advances [OF ef(1)]])
  show "insns ctx' ! j = insns ctx ! j" if "j \<noteq> i" for j
    using that al'(2) by (simp add: fields sc)
  have vals: "value_of ?c3 r = value_of ctx r" for r by (simp add: value_of_def sc al'(3))
  show "value_of ctx' r = value_of ctx r" if "unreached ctx r" "r \<notin> operands (insns ctx ! i)" for r
    using ef(2) [of r] that vals advances_unreached [OF adv3] advances_operands [OF adv3 assms(3)] by simp
  have at_i: "insns ctx' ! i = ?f (insns c1 ! i)" using i2 by (simp add: fields sc)
  then have pad: "padding (insns ctx' ! i) = padding (insns c1 ! i)" by (simp add: padding_def)
  show "start_addr (insns ctx' ! i) = nva + of_nat (padding (insns ctx' ! i)) \<and> allocated (insns ctx' ! i)"
    unfolding pad al'(5) [symmetric] by (simp add: at_i)
  show "nva' = nva + of_nat (padding (insns ctx' ! i) + byte_size ctx' (insns ctx' ! i))" if "vma_errors ctx' = vma_errors ctx"
  proof -
    have "sz = of_nat (byte_size ctx' (insns ctx' ! i))" using ef(3) that al'(4) by (simp add: fields sc)
    then show ?thesis by (simp add: nva' al'(5) pad)
  qed
  show "bss' = (if insn_type (insns ctx' ! i) < INSN_ALLOCATE then nva' else bss)" by (rule bss')
qed

section \<open>Pass 1 on all instructions\<close>

text \<open>The bytes an instruction takes, and those before it.\<close>

definition span :: "vma_context \<Rightarrow> nat \<Rightarrow> nat" where
  "span ctx j = padding (insns ctx ! j) + byte_size ctx (insns ctx ! j)"

definition insn_pos :: "vma_context \<Rightarrow> nat \<Rightarrow> nat" where
  "insn_pos ctx i = (\<Sum>j < i. span ctx j)"

abbreviation initialised :: "vma_context \<Rightarrow> nat \<Rightarrow> bool" where
  "initialised ctx j \<equiv> insn_type (insns ctx ! j) < INSN_ALLOCATE"

lemma pass1_loop_frame:
  "pass1_loop E n i x ctx = Inr (x', ctx') \<Longrightarrow> program_ok ctx \<Longrightarrow> i + n \<le> length (insns ctx) \<Longrightarrow>
     advances ctx ctx' \<and> (\<forall>j. j < i \<or> i + n \<le> j \<longrightarrow> insns ctx' ! j = insns ctx ! j) \<and>
     (\<forall>r. unreached ctx r \<and> (\<forall>j. i \<le> j \<and> j < i + n \<longrightarrow> r \<notin> operands (insns ctx ! j)) \<longrightarrow> value_of ctx' r = value_of ctx r)"
proof (induction n arbitrary: i x ctx)
  case (Suc n)
  obtain nva bss where x: "x = (nva, bss)" by fastforce
  obtain y c where p1: "pass1_insn E i x ctx = Inr (y, c)" and rest: "pass1_loop E n (Suc i) y c = Inr (x', ctx')"
    using Suc.prems(1) by (auto simp: bind_res_eq_Inr)
  obtain nva1 bss1 where y: "y = (nva1, bss1)" by fastforce
  have i: "i < length (insns ctx)" using Suc.prems(3) by simp
  note ef = pass1_insn_effect [OF p1 [unfolded x y] Suc.prems(2) i]
  have len: "length (insns c) = length (insns ctx)" using ef(1) by (simp add: advances_def)
  have IH: "advances c ctx'" "\<And>j. j < Suc i \<or> Suc i + n \<le> j \<Longrightarrow> insns ctx' ! j = insns c ! j"
      "\<And>r. unreached c r \<Longrightarrow> (\<And>j. Suc i \<le> j \<Longrightarrow> j < Suc i + n \<Longrightarrow> r \<notin> operands (insns c ! j)) \<Longrightarrow> value_of ctx' r = value_of c r"
    using Suc.IH [OF rest advances_program [OF ef(1) Suc.prems(2)]] Suc.prems(3) len by auto
  have "value_of ctx' r = value_of ctx r"
    if "unreached ctx r" "\<And>j. i \<le> j \<Longrightarrow> j < i + Suc n \<Longrightarrow> r \<notin> operands (insns ctx ! j)" for r
  proof -
    have "value_of ctx' r = value_of c r"
      using that IH(3) [of r] advances_unreached [OF ef(1)] ef(2) by simp
    then show ?thesis using ef(3) [of r] that by simp
  qed
  then show ?case
    using advances_trans [OF ef(1) IH(1)] IH(2) ef(2) by simp
qed simp

lemma span_stays:
  assumes "advances c ctx'" and "program_ok c" and "i < length (insns c)" and "insns ctx' ! i = insns c ! i"
    and "\<And>r. r \<in> operands (insns c ! i) \<Longrightarrow> unreached c r \<Longrightarrow> insn_type (insns c ! i) \<in> res_insns \<Longrightarrow> value_of ctx' r = value_of c r"
  shows "span ctx' i = span c i"
proof -
  have "byte_size ctx' (insns c ! i) = byte_size c (insns c ! i)"
  proof (rule byte_size_cong [OF assms(2,3)])
    fix e assume e: "insn_type (insns c ! i) \<in> res_insns" "insn_u (insns c ! i) = Expr e"
    then have "unreached c e" using assms(2,3) by (auto simp: program_ok_def roots_ok_def operands_def)
    then show "value_of ctx' e = value_of c e" using assms(5) e by (simp add: operands_def)
  qed
  then show ?thesis by (simp add: span_def assms(4))
qed

lemma pass1_loop_layout:
  "pass1_loop E n i (nva, bss) ctx = Inr ((nva', bss'), ctx') \<Longrightarrow> program_ok ctx \<Longrightarrow> i + n \<le> length (insns ctx) \<Longrightarrow>
     vma_errors ctx' = vma_errors ctx \<Longrightarrow>
     (\<forall>j. i \<le> j \<and> j < i + n \<longrightarrow>
        start_addr (insns ctx' ! j) = nva + of_nat ((\<Sum>k = i..<j. span ctx' k) + padding (insns ctx' ! j)) \<and> allocated (insns ctx' ! j)) \<and>
     nva' = nva + of_nat (\<Sum>k = i..<i + n. span ctx' k) \<and>
     (bss' = bss \<and> (\<forall>j. i \<le> j \<and> j < i + n \<longrightarrow> \<not> initialised ctx' j) \<or>
      (\<exists>m. i \<le> m \<and> m < i + n \<and> initialised ctx' m \<and> (\<forall>j. m < j \<and> j < i + n \<longrightarrow> \<not> initialised ctx' j) \<and>
         bss' = nva + of_nat (\<Sum>k = i..<Suc m. span ctx' k)))"
proof (induction n arbitrary: i nva bss ctx)
  case (Suc n)
  obtain nva1 bss1 c where p1: "pass1_insn E i (nva, bss) ctx = Inr ((nva1, bss1), c)"
    and rest: "pass1_loop E n (Suc i) (nva1, bss1) c = Inr ((nva', bss'), ctx')"
    using Suc.prems(1) by (auto simp: bind_res_eq_Inr)
  have i: "i < length (insns ctx)" using Suc.prems(3) by simp
  note ef = pass1_insn_effect [OF p1 Suc.prems(2) i]
  have len: "length (insns c) = length (insns ctx)" "vma_errors ctx \<le> vma_errors c" using ef(1) by (simp_all add: advances_def)
  have pc: "program_ok c" by (rule advances_program [OF ef(1) Suc.prems(2)])
  have "Suc i + n \<le> length (insns c)" using Suc.prems(3) len by simp
  note fr = pass1_loop_frame [OF rest pc this]
  have "vma_errors c \<le> vma_errors ctx'" using fr by (simp add: advances_def)
  then have err: "vma_errors c = vma_errors ctx" "vma_errors ctx' = vma_errors c" using Suc.prems(4) len(2) by simp_all
  have at_i: "insns ctx' ! i = insns c ! i" using fr by simp
  have span_i: "span ctx' i = span c i"
  proof (rule span_stays [OF _ pc _ at_i])
    show "advances c ctx'" using fr by simp
    show "i < length (insns c)" using i len by simp
    fix r assume r: "r \<in> operands (insns c ! i)" "unreached c r" "insn_type (insns c ! i) \<in> res_insns"
    have "r \<notin> operands (insns c ! j)" if "Suc i \<le> j" "j < Suc i + n" for j
    proof -
      have "i < length (insns c)" "j < length (insns c)" "j \<noteq> i" using that Suc.prems(3) len(1) i by simp_all
      then show ?thesis using pc r(1,3) unfolding program_ok_def roots_ok_def by blast
    qed
    then show "value_of ctx' r = value_of c r" using fr r(2) by blast
  qed
  have nva1: "nva1 = nva + of_nat (span ctx' i)" using ef(5) [OF err(1)] unfolding span_i by (simp add: span_def)
  note IH = Suc.IH [OF rest pc \<open>Suc i + n \<le> length (insns c)\<close> err(2)]
  have sums: "(\<Sum>k = i..<m. span ctx' k) = span ctx' i + (\<Sum>k = Suc i..<m. span ctx' k)" if "i < m" for m
    using that by (rule sum.atLeast_Suc_lessThan)
  have bss1: "bss1 = (if initialised ctx' i then nva1 else bss)" using ef(6) at_i by simp
  have starts: "start_addr (insns ctx' ! j) = nva + of_nat ((\<Sum>k = i..<j. span ctx' k) + padding (insns ctx' ! j)) \<and> allocated (insns ctx' ! j)"
    if "i \<le> j" "j < i + Suc n" for j
  proof (cases "j = i")
    case True
    then show ?thesis using ef(4) at_i by simp
  next
    case False
    then show ?thesis using IH that sums [of j] by (simp add: nva1 algebra_simps)
  qed
  have "bss' = bss \<and> (\<forall>j. i \<le> j \<and> j < i + Suc n \<longrightarrow> \<not> initialised ctx' j) \<or>
      (\<exists>m. i \<le> m \<and> m < i + Suc n \<and> initialised ctx' m \<and> (\<forall>j. m < j \<and> j < i + Suc n \<longrightarrow> \<not> initialised ctx' j) \<and>
         bss' = nva + of_nat (\<Sum>k = i..<Suc m. span ctx' k))"
  proof (cases "bss' = bss1 \<and> (\<forall>j. Suc i \<le> j \<and> j < Suc i + n \<longrightarrow> \<not> initialised ctx' j)")
    case none: True
    show ?thesis
    proof (cases "initialised ctx' i")
      case True
      then have "bss' = nva + of_nat (\<Sum>k = i..<Suc i. span ctx' k)" using none bss1 nva1 by simp
      then show ?thesis using True none by (intro disjI2 exI [of _ i]) auto
    next
      case False
      have "\<not> initialised ctx' j" if "i \<le> j" "j < i + Suc n" for j
        using False none that by (cases "j = i") auto
      then show ?thesis using False none bss1 by auto
    qed
  next
    case False
    then obtain m where m: "Suc i \<le> m" "m < Suc i + n" "initialised ctx' m"
        "\<forall>j. m < j \<and> j < Suc i + n \<longrightarrow> \<not> initialised ctx' j" "bss' = nva1 + of_nat (\<Sum>k = Suc i..<Suc m. span ctx' k)"
      using IH by blast
    then have "bss' = nva + of_nat (\<Sum>k = i..<Suc m. span ctx' k)" using sums [of "Suc m"] by (simp add: nva1)
    then show ?thesis using m by (intro disjI2 exI [of _ m]) auto
  qed
  moreover have "nva' = nva + of_nat (\<Sum>k = i..<i + Suc n. span ctx' k)"
    using IH sums [of "i + Suc n"] by (simp add: nva1)
  ultimately show ?case using starts by blast
qed auto

section \<open>The layout after pass 1\<close>

text \<open>
  Every instruction starts behind its padding; the file ends behind the last instruction that
  has contents, number \<open>nfile - 1\<close>.
\<close>

definition laid_out :: "vma_context \<Rightarrow> nat \<Rightarrow> bool" where
  "laid_out ctx nfile \<longleftrightarrow>
     nfile \<le> length (insns ctx) \<and>
     (\<forall>j < length (insns ctx). unat (start_addr (insns ctx ! j)) = insn_pos ctx j + padding (insns ctx ! j) \<and> allocated (insns ctx ! j)) \<and>
     (\<forall>j. nfile \<le> j \<and> j < length (insns ctx) \<longrightarrow> \<not> initialised ctx j) \<and> (0 < nfile \<longrightarrow> initialised ctx (nfile - 1)) \<and>
     unat (bss_va ctx) = insn_pos ctx nfile"

lemma insn_pos_mono: "i \<le> j \<Longrightarrow> insn_pos ctx i \<le> insn_pos ctx j"
  unfolding insn_pos_def by (rule sum_mono2) auto

lemma insn_pos_Suc: "insn_pos ctx (Suc i) = insn_pos ctx i + span ctx i"
  by (simp add: insn_pos_def)

lemma unat_small: "n < 2 ^ 32 \<Longrightarrow> unat (of_nat n :: u32) = n"
  by (simp add: unat_of_nat take_bit_nat_eq_self)

lemma pass1_laid_out:
  assumes "vma_pass1 E ctx = Inr ctx'" and "program_ok ctx" and "start_va ctx = 0" and "vma_errors ctx = 0"
    and "insn_pos ctx' (length (insns ctx')) < 2 ^ 32"
  obtains nfile where "laid_out ctx' nfile" "unat (end_va ctx') = insn_pos ctx' (length (insns ctx'))"
proof -
  obtain nva bss c where p: "pass1_loop E (length (insns ctx)) 0 (0, 0) ctx = Inr ((nva, bss), c)"
    and c: "vma_errors c = 0" "ctx' = c\<lparr>end_va := nva, bss_va := bss\<rparr>"
    using assms(1,3) by (auto simp: vma_pass1_def vma_abort_on_errors_def vma_abort_def bind_res_eq_Inr split: if_splits)
  have adv: "advances ctx c" using pass1_loop_frame [OF p assms(2)] by simp
  have len: "length (insns ctx') = length (insns ctx)" "insns ctx' = insns c" using adv by (simp_all add: c(2) advances_def)
  have vals: "value_of ctx' = value_of c" by (simp add: fun_eq_iff value_of_def c(2))
  have span: "span ctx' k = span c k" for k unfolding span_def byte_size_def vals len(2) ..
  then have pos: "insn_pos ctx' k = (\<Sum>k = 0..<k. span c k)" for k by (simp add: insn_pos_def lessThan_atLeast0)
  have start_le: "insn_pos ctx' j + padding (insns ctx' ! j) \<le> insn_pos ctx' (length (insns ctx'))" if "j < length (insns ctx')" for j
    using insn_pos_mono [of "Suc j" "length (insns ctx')" ctx'] that by (simp add: insn_pos_Suc span_def)
  have small: "unat (of_nat (insn_pos ctx' k) :: u32) = insn_pos ctx' k" if "k \<le> length (insns ctx')" for k
    using insn_pos_mono [OF that, of ctx'] assms(5) by (simp add: unat_small)
  have lay: "(\<forall>j < length (insns ctx). start_addr (insns c ! j) = of_nat ((\<Sum>k = 0..<j. span c k) + padding (insns c ! j)) \<and> allocated (insns c ! j))"
      "nva = of_nat (\<Sum>k = 0..<length (insns ctx). span c k)"
      "bss = 0 \<and> (\<forall>j < length (insns ctx). \<not> initialised c j) \<or>
        (\<exists>m < length (insns ctx). initialised c m \<and> (\<forall>j. m < j \<and> j < length (insns ctx) \<longrightarrow> \<not> initialised c j) \<and>
         bss = of_nat (\<Sum>k = 0..<Suc m. span c k))"
    using pass1_loop_layout [OF p assms(2)] assms(4) c(1) by simp_all
  have starts: "unat (start_addr (insns ctx' ! j)) = insn_pos ctx' j + padding (insns ctx' ! j) \<and> allocated (insns ctx' ! j)"
    if "j < length (insns ctx')" for j
  proof -
    have "start_addr (insns ctx' ! j) = of_nat (insn_pos ctx' j + padding (insns ctx' ! j))"
      using lay(1) that len pos [of j] by simp
    moreover have "insn_pos ctx' j + padding (insns ctx' ! j) < 2 ^ 32"
      using start_le [OF that] assms(5) by simp
    ultimately show ?thesis using lay(1) that len by (simp only: unat_small)
  qed
  obtain nfile where nfile: "nfile \<le> length (insns ctx')" "bss = of_nat (insn_pos ctx' nfile)"
      "\<And>j. nfile \<le> j \<Longrightarrow> j < length (insns ctx') \<Longrightarrow> \<not> initialised c j" "0 < nfile \<Longrightarrow> initialised c (nfile - 1)"
  proof (cases "\<forall>j < length (insns ctx). \<not> initialised c j")
    case True
    then show ?thesis using lay(3) len that [of 0] by (auto simp: insn_pos_def)
  next
    case False
    then obtain m where "m < length (insns ctx)" "initialised c m" "\<forall>j. m < j \<and> j < length (insns ctx) \<longrightarrow> \<not> initialised c j"
        "bss = of_nat (\<Sum>k = 0..<Suc m. span c k)" using lay(3) by blast
    then show ?thesis using that [of "Suc m"] len pos [of "Suc m"] by auto
  qed
  have "laid_out ctx' nfile"
    unfolding laid_out_def
  proof (intro conjI allI impI)
    have "bss_va ctx' = bss" by (simp add: c(2))
    then show "unat (bss_va ctx') = insn_pos ctx' nfile" by (simp only: nfile(2) small [OF nfile(1)])
    show "\<not> initialised ctx' j" if "nfile \<le> j \<and> j < length (insns ctx')" for j using nfile(3) [of j] that len(2) by simp
    show "initialised ctx' (nfile - 1)" if "0 < nfile" using nfile(4) that len(2) by simp
  qed (use nfile(1) starts in simp_all)
  moreover have "unat (end_va ctx') = insn_pos ctx' (length (insns ctx'))"
  proof -
    have "end_va ctx' = nva" by (simp add: c(2))
    then have "end_va ctx' = of_nat (insn_pos ctx' (length (insns ctx')))"
      by (simp only: lay(2) pos len(1))
    then show ?thesis using small [of "length (insns ctx')"] by simp
  qed
  ultimately show ?thesis by (rule that)
qed

section \<open>Pass 2 writes the layout\<close>

lemma writes_span:
  assumes "writes (touched (insns ctx ! i)) n ctx c" and "program_ok ctx" and "i < length (insns ctx)" and "j < length (insns ctx)"
  shows "span c j = span ctx j"
proof -
  have "operands (insns ctx ! j) \<inter> touched (insns ctx ! i) = {}" if "insn_type (insns ctx ! j) \<in> res_insns"
    using assms(2-4) that by (cases "i = j") (auto simp: touched_def program_ok_def roots_ok_def)
  then show ?thesis
    using size_stays [OF assms(1,2,4)] by (simp add: span_def writes_fields [OF assms(1)])
qed

lemma machine_padding: "insn_type insn < INSN_ASM_KEYWORDS \<Longrightarrow> padding insn = 0"
  by (auto simp: machine_insn padding_def insn_kinds)

lemma initialised_size:
  assumes "program_ok ctx" and "j < length (insns ctx)" and "initialised ctx j" and "insn_u (insns ctx ! j) \<noteq> Text_bytes []"
  shows "0 < byte_size ctx (insns ctx ! j)"
proof -
  let ?t = "insn_type (insns ctx ! j)" and ?u = "insn_u (insns ctx ! j)"
  have ok: "operand_ok ?t ?u" using insn_in(1) [OF assms(1,2)] .
  consider "?t < INSN_ASM_KEYWORDS" | "?t \<in> data_insns" | "?t = INSN_DEFS"
    using assms(3) operand_okD(6) [OF ok] by (auto simp: initialised_insn insn_kinds)
  then show ?thesis
  proof cases
    case 1
    then show ?thesis by (auto simp: machine_insn byte_size_def Let_def insn_kinds)
  next
    case 2
    then obtain es where "?u = Expr_list es" "es \<noteq> []" using operand_okD(2) [OF ok] by auto
    moreover have "?t = INSN_DEFB \<or> ?t = INSN_DEFH \<or> ?t = INSN_DEFW" using 2 by (simp add: data_insns_def)
    ultimately show ?thesis by (elim disjE) (simp_all add: byte_size_def Let_def insn_kinds element_size_def)
  next
    case 3
    then obtain xs where "?u = Text_bytes xs" using operand_okD(4) [of ?u] ok by auto
    then show ?thesis using 3 assms(4) by (simp add: byte_size_def insn_kinds)
  qed
qed

definition texts_filled :: "vma_context \<Rightarrow> bool" where
  "texts_filled ctx \<longleftrightarrow> (\<forall>j < length (insns ctx). insn_u (insns ctx ! j) \<noteq> Text_bytes [])"

text \<open>An instruction is in the file when its number is below \<open>nfile\<close>, and then only.\<close>

lemma in_file:
  assumes "program_ok ctx" and "laid_out ctx nfile" and "texts_filled ctx" and "i < length (insns ctx)" and "i \<le> nfile"
  shows "start_addr (insns ctx ! i) < bss_va ctx \<longleftrightarrow> i < nfile"
proof -
  have start: "unat (start_addr (insns ctx ! i)) = insn_pos ctx i + padding (insns ctx ! i)" "unat (bss_va ctx) = insn_pos ctx nfile"
    using assms(2,4) by (simp_all add: laid_out_def)
  show ?thesis
  proof (cases "i < nfile")
    case True
    define m where "m = nfile - 1"
    have m: "nfile = Suc m" "i \<le> m" "m < length (insns ctx)" "initialised ctx m"
      using True assms(2) by (auto simp: m_def laid_out_def)
    have size: "0 < byte_size ctx (insns ctx ! m)"
      using initialised_size [OF assms(1) m(3,4)] assms(3) m(3) by (simp add: texts_filled_def)
    have "insn_pos ctx i + padding (insns ctx ! i) < insn_pos ctx nfile"
    proof (cases "i = m")
      case True
      then show ?thesis using size by (simp add: m(1) insn_pos_Suc span_def)
    next
      case False
      then have "insn_pos ctx (Suc i) \<le> insn_pos ctx m" using m(2) by (intro insn_pos_mono) simp
      then show ?thesis using size by (simp add: m(1) insn_pos_Suc span_def)
    qed
    then show ?thesis using True start by (simp add: word_less_nat_alt)
  next
    case False
    then show ?thesis using assms(5) start by (simp add: word_less_nat_alt)
  qed
qed

lemma writes_layout:
  assumes "writes (touched (insns ctx ! i)) n ctx c" and "program_ok ctx" and "i < length (insns ctx)"
  shows "\<And>k. k \<le> length (insns ctx) \<Longrightarrow> insn_pos c k = insn_pos ctx k"
    and "laid_out c nfile \<longleftrightarrow> laid_out ctx nfile" and "texts_filled c \<longleftrightarrow> texts_filled ctx"
proof -
  note f = writes_fields [OF assms(1)]
  show pos: "insn_pos c k = insn_pos ctx k" if "k \<le> length (insns ctx)" for k
    unfolding insn_pos_def using that writes_span [OF assms] by (intro sum.cong) auto
  show "laid_out c nfile \<longleftrightarrow> laid_out ctx nfile"
    unfolding laid_out_def f using pos by auto
  show "texts_filled c \<longleftrightarrow> texts_filled ctx" by (simp add: texts_filled_def f)
qed

text \<open>The bytes pass 2 writes, and where the opcode of each machine instruction is among them.\<close>

definition opcode_at :: "vma_context \<Rightarrow> nat \<Rightarrow> u8 list \<Rightarrow> nat \<Rightarrow> bool" where
  "opcode_at ctx j bs k \<longleftrightarrow> insn_type (insns ctx ! j) < INSN_ASM_KEYWORDS \<longrightarrow>
     k < length bs \<and> bs ! k = vm_insn_to_opcode ! insn_number (insn_type (insns ctx ! j))"

lemma loop_errors:
  "emit_loop E n i ctx = Inr ctx' \<Longrightarrow> program_ok ctx \<Longrightarrow> i + n = length (insns ctx) \<Longrightarrow> vma_errors ctx \<le> vma_errors ctx'"
proof (induction n arbitrary: i ctx)
  case (Suc n)
  show ?case
  proof (cases "start_addr (insns ctx ! i) < bss_va ctx")
    case True
    then obtain c where c: "vma_emit_insn E i ctx = Inr c" "emit_loop E n (Suc i) c = Inr ctx'"
      using Suc.prems(1) by (auto simp: bind_res_eq_Inr)
    have w: "writes (touched (insns ctx ! i)) (padding (insns ctx ! i) + byte_size ctx (insns ctx ! i)) ctx c"
      using Suc.prems by (intro writes_insn(1) [OF c(1)]) simp_all
    have "vma_errors c \<le> vma_errors ctx'"
      using Suc.IH [OF c(2) writes_program [OF w Suc.prems(2)]] Suc.prems(3) by (simp add: writes_fields [OF w])
    then show ?thesis using writes_fields(11) [OF w] by simp
  qed (use Suc.prems in simp)
qed simp

lemma emit_loop_bytes:
  "emit_loop E n i ctx = Inr ctx' \<Longrightarrow> program_ok ctx \<Longrightarrow> laid_out ctx nfile \<Longrightarrow> texts_filled ctx \<Longrightarrow>
     i + n = length (insns ctx) \<Longrightarrow> i \<le> nfile \<Longrightarrow> vma_errors ctx' = vma_errors ctx \<Longrightarrow>
   \<exists>bs. vma_output ctx' = vma_output ctx @ bs \<and> length bs = insn_pos ctx nfile - insn_pos ctx i \<and> ncalls ctx' = ncalls ctx \<and>
     (\<forall>j. i \<le> j \<and> j < nfile \<longrightarrow> opcode_at ctx j bs (insn_pos ctx j - insn_pos ctx i))"
proof (induction n arbitrary: i ctx)
  case 0
  then have "i = nfile" by (simp add: laid_out_def)
  then show ?case using 0 by auto
next
  case (Suc n)
  have i: "i < length (insns ctx)" using Suc.prems(5) by simp
  note within = in_file [OF Suc.prems(2-4) i Suc.prems(6)]
  show ?case
  proof (cases "i < nfile")
    case False
    then show ?thesis using Suc.prems(1,6) within by auto
  next
    case True
    then obtain c where c: "vma_emit_insn E i ctx = Inr c" and rest: "emit_loop E n (Suc i) c = Inr ctx'"
      using Suc.prems(1) within by (auto simp: bind_res_eq_Inr)
    let ?S = "touched (insns ctx ! i)"
    have w: "writes ?S (span ctx i) ctx c" unfolding span_def by (rule writes_insn(1) [OF c Suc.prems(2) i])
    note f = writes_fields [OF w] and lay = writes_layout [OF w Suc.prems(2) i]
    have "vma_errors c \<le> vma_errors ctx'"
      using loop_errors [OF rest writes_program [OF w Suc.prems(2)]] Suc.prems(5) f by simp
    then have err: "vma_errors c = vma_errors ctx" "vma_errors ctx' = vma_errors c" using f(11) Suc.prems(7) by simp_all
    obtain bs where bs: "vma_output ctx' = vma_output c @ bs" "length bs = insn_pos c nfile - insn_pos c (Suc i)" "ncalls ctx' = ncalls c"
        "\<And>j. Suc i \<le> j \<Longrightarrow> j < nfile \<Longrightarrow> opcode_at c j bs (insn_pos c j - insn_pos c (Suc i))"
      using Suc.IH [OF rest writes_program [OF w Suc.prems(2)], of ] lay(2,3) Suc.prems f True err(2) by auto
    obtain as where as: "vma_output c = vma_output ctx @ as" "length as = span ctx i" using w err(1) by (auto simp: writes_def)
    have nfile: "nfile \<le> length (insns ctx)" using Suc.prems(3) by (simp add: laid_out_def)
    have pos: "insn_pos c k = insn_pos ctx k" if "k \<le> nfile" for k using lay(1) that nfile by simp
    have pos_i: "insn_pos ctx (Suc i) = insn_pos ctx i + span ctx i" by (rule insn_pos_Suc)
    have len: "length (as @ bs) = insn_pos ctx nfile - insn_pos ctx i"
      using as(2) bs(2) pos [of nfile] pos [of "Suc i"] True pos_i insn_pos_mono [of "Suc i" nfile ctx] by simp
    have "opcode_at ctx j (as @ bs) (insn_pos ctx j - insn_pos ctx i)" if j: "i \<le> j" "j < nfile" for j
    proof (cases "j = i")
      case True
      show ?thesis
      proof (cases "insn_type (insns ctx ! i) < INSN_ASM_KEYWORDS")
        case machine: True
        then obtain xs where "vma_output c = vma_output ctx @ vm_insn_to_opcode ! insn_number (insn_type (insns ctx ! i)) # xs"
          using writes_insn(2) [OF c Suc.prems(2) i] by blast
        then show ?thesis using as True by (auto simp: opcode_at_def)
      qed (simp add: opcode_at_def True)
    next
      case False
      then have "opcode_at c j bs (insn_pos c j - insn_pos c (Suc i))" using bs(4) j by simp
      moreover have "insn_pos ctx j - insn_pos ctx i = length as + (insn_pos c j - insn_pos c (Suc i))"
        using False j pos [of j] pos [of "Suc i"] pos_i as(2) insn_pos_mono [of "Suc i" j ctx] by simp
      ultimately show ?thesis by (simp add: opcode_at_def f nth_append)
    qed
    then show ?thesis using as(1) bs(1,3) f(2) len by (intro exI [of _ "as @ bs"]) simp
  qed
qed

section \<open>Pass 1 comes to an end\<close>

lemma ends_estimate:
  assumes "runs_ok E ctx" and "i < length (insns ctx)" and "insn = insns ctx ! i"
  shows "well_ended (vma_pass1_insn_estimate_size E insn ctx)"
proof -
  have p: "program_ok ctx" using assms(1) by (simp add: runs_ok_def)
  note ok = insn_in [OF p assms(2), folded assms(3)]
  show ?thesis
  proof (cases "insn_type insn \<in> res_insns")
    case True
    then obtain e where "insn_u insn = Expr e" using operand_okD(1) [OF ok(1)] by auto
    moreover from this have "well_ended (evaluate_expr E e ctx)" using ok(2) by (intro evaluate_ends [OF assms(1)]) (simp add: operands_def)
    ultimately show ?thesis
      by (auto simp: vma_pass1_insn_estimate_size_def Let_def intro!: well_ended_bind split: if_splits) (use True in \<open>simp_all add: insn_kinds\<close>)
  next
    case False
    then show ?thesis
      using operand_okD(2) [OF ok(1)] operand_okD(4) [of "insn_u insn"] ok(1)
      by (auto simp: vma_pass1_insn_estimate_size_def Let_def res_insns_def data_insns_def)
  qed
qed

lemma ends_pass1_insn:
  assumes "runs_ok E ctx" and "i < length (insns ctx)"
  shows "well_ended (pass1_insn E i x ctx)"
proof -
  obtain nva bss where x: "x = (nva, bss)" by fastforce
  obtain nva1 c1 where al: "pass1_align i nva ctx = (nva1, c1)" by fastforce
  let ?f = "\<lambda>insn. insn\<lparr>start_addr := nva1, allocated := True\<rparr>"
  let ?c3 = "set_insn i ?f ((enter_scope i c1)\<lparr>current_va := nva1\<rparr>)"
  have adv: "advances ctx c1" by (rule pass1_align_effect(1) [OF al assms(2)])
  then have i1: "i < length (insns c1)" using assms(2) by (simp add: advances_def)
  have adv3: "advances ctx ?c3"
    by (rule advances_trans [OF adv advances_trans [OF advances_scope(1) [OF i1] advances_set_insn]]) simp
  then have "i < length (insns ?c3)" using assms(2) by (simp add: advances_def)
  then have "well_ended (vma_pass1_insn_estimate_size E (insns ?c3 ! i) ?c3)"
    by (rule ends_estimate [OF advances_runs [OF adv3 assms(1)] _ refl])
  then show ?thesis by (auto simp: pass1_insn_def x al Let_def intro!: well_ended_bind)
qed

lemma ends_pass1_loop:
  "runs_ok E ctx \<Longrightarrow> i + n \<le> length (insns ctx) \<Longrightarrow> well_ended (pass1_loop E n i x ctx)"
proof (induction n arbitrary: i x ctx)
  case (Suc n)
  have i: "i < length (insns ctx)" using Suc.prems(2) by simp
  have "well_ended (pass1_loop E n (Suc i) y c)" if "pass1_insn E i x ctx = Inr (y, c)" for y c
  proof -
    obtain nva bss nva' bss' where "x = (nva, bss)" "y = (nva', bss')" by fastforce
    then have adv: "advances ctx c"
      using that Suc.prems(1) i by (auto intro: pass1_insn_effect(1) simp: runs_ok_def)
    show ?thesis using Suc.IH [OF advances_runs [OF adv Suc.prems(1)]] adv Suc.prems(2) by (simp add: advances_def)
  qed
  then show ?case using ends_pass1_insn [OF Suc.prems(1) i, of x] by (auto intro!: well_ended_bind)
qed simp

end
