(* ===== verification/Vma_Correct.thy ===== *)
theory Vma_Correct
  imports Vma_Layout
begin

text \<open>
  Properties of the assembler: it comes to an end on every program of the grammar, and the image it
  writes has the announced layout.
\<close>

section \<open>The size of a source\<close>

text \<open>The number of expression nodes the parser builds.\<close>

primrec ast_nodes :: "ast \<Rightarrow> nat" where
  "ast_nodes (Int_lit v) = 1"
| "ast_nodes (Ident name) = 1"
| "ast_nodes (Binary op a b) = ast_nodes a + ast_nodes b + 1"
| "ast_nodes (Unary op a) = ast_nodes a + 1"

primrec body_nodes :: "body \<Rightarrow> nat" where
  "body_nodes (Machine t) = 0"
| "body_nodes (Machine_expr t a) = ast_nodes a"
| "body_nodes (Machine_ncall name) = 0"
| "body_nodes (Data t as) = sum_list (map ast_nodes as)"
| "body_nodes (Data_text xs) = 0"
| "body_nodes (Reserve t a) = ast_nodes a"
| "body_nodes Substart = 0"

primrec stmt_nodes :: "stmt \<Rightarrow> nat" where
  "stmt_nodes (Insn_stmt label body line) = body_nodes body"
| "stmt_nodes (Const_stmt name a line) = ast_nodes a"
| "stmt_nodes (Subend_stmt line) = 0"

definition source_nodes :: "stmt list \<Rightarrow> nat" where
  "source_nodes sts = sum_list (map stmt_nodes sts)"

lemma build_expr_next: "build_expr a ctx = (i, ctx') \<Longrightarrow> next_expr ctx' = next_expr ctx + ast_nodes a"
  by (induction a arbitrary: ctx i ctx')
    (auto simp: vma_expr_build_literal_def vma_expr_build_symref_def vma_expr_build_parent_def new_expr_def Let_def split: prod.splits)

lemma build_expr_list_next:
  "build_expr_list es as ctx = (es', ctx') \<Longrightarrow> next_expr ctx' = next_expr ctx + sum_list (map ast_nodes as)"
  by (induction "as" arbitrary: es ctx) (auto split: prod.splits dest: build_expr_next)

text \<open>A statement adds its nodes and an instruction; it leaves the start symbol and the output alone.\<close>

definition filled :: "vma_context \<Rightarrow> bool" where
  "filled ctx \<longleftrightarrow> (\<forall>insn \<in> set (insns ctx). insn_u insn \<noteq> Text_bytes [])"

lemma filled_symtab: "filled ctx \<Longrightarrow> filled (set_symtab sc tab ctx)"
  using set_update_subset_insert [of "insns ctx"]
  by (fastforce simp: filled_def set_symtab_def split: scope.splits)

lemma build_expr_keeps:
  "build_expr a ctx = (i, ctx') \<Longrightarrow> insns ctx' = insns ctx \<and> start_symbol ctx' = start_symbol ctx \<and> vma_output ctx' = vma_output ctx"
  by (induction a arbitrary: ctx i ctx')
    (auto simp: vma_expr_build_literal_def vma_expr_build_symref_def vma_expr_build_parent_def new_expr_def Let_def split: prod.splits)

lemma build_expr_list_keeps:
  "build_expr_list es as ctx = (es', ctx') \<Longrightarrow>
     insns ctx' = insns ctx \<and> start_symbol ctx' = start_symbol ctx \<and> vma_output ctx' = vma_output ctx"
  by (induction "as" arbitrary: es ctx) (auto split: prod.splits dest: build_expr_keeps)

lemma build_body_adds:
  "build_body body ctx = (insn, ctx') \<Longrightarrow>
     next_expr ctx' = next_expr ctx + body_nodes body \<and> insns ctx' = insns ctx \<and> start_symbol ctx' = start_symbol ctx \<and>
     vma_output ctx' = vma_output ctx \<and> (insn_u insn = Text_bytes [] \<longrightarrow> body = Data_text [])"
  by (cases body) (auto simp: Let_def vma_insn_build_def split: prod.splits
      dest: build_expr_next build_expr_keeps build_expr_list_next build_expr_list_keeps)

lemma update_symbol_keeps:
  "next_expr (update_symbol sc name f ctx) = next_expr ctx" "start_symbol (update_symbol sc name f ctx) = start_symbol ctx"
  "vma_output (update_symbol sc name f ctx) = vma_output ctx" "filled ctx \<Longrightarrow> filled (update_symbol sc name f ctx)"
  by (simp_all add: update_symbol_def filled_symtab)

definition stmt_filled :: "stmt \<Rightarrow> bool" where
  "stmt_filled st \<longleftrightarrow> (\<forall>label line. st \<noteq> Insn_stmt label (Data_text []) line)"

definition adds :: "nat \<Rightarrow> vma_context \<Rightarrow> vma_context \<Rightarrow> bool" where
  "adds n ctx ctx' \<longleftrightarrow> next_expr ctx' = next_expr ctx + n \<and> start_symbol ctx' = start_symbol ctx \<and> vma_output ctx' = vma_output ctx"

lemma filled_append: "filled ctx \<Longrightarrow> insn_u insn \<noteq> Text_bytes [] \<Longrightarrow> filled (append_insn insn ctx)"
  by (simp add: filled_def)

lemma append_adds [simp]: "adds n ctx (append_insn insn c) \<longleftrightarrow> adds n ctx c"
  by (simp add: adds_def append_insn_def)

lemma update_adds [simp]: "adds n ctx (update_symbol sc name f c) \<longleftrightarrow> adds n ctx c"
  by (simp add: adds_def update_symbol_keeps)

lemma adds_trans: "adds m c1 c2 \<Longrightarrow> adds n c2 c3 \<Longrightarrow> adds (m + n) c1 c3"
  by (simp add: adds_def)

lemma define_adds:
  assumes "vma_symbol_define name type line ctx = Inr (sc, ctx')" and "type \<noteq> SYM_NCALL" and "scope_ok ctx"
  shows "adds 0 ctx ctx' \<and> (filled ctx \<longrightarrow> filled ctx')"
proof -
  obtain k tab where "ctx' = set_symtab sc tab (ctx\<lparr>vma_errors := k\<rparr>)"
    by (rule symbol_defined [OF assms])
  moreover have "filled (ctx\<lparr>vma_errors := k\<rparr>) = filled ctx" by (simp add: filled_def)
  ultimately show ?thesis by (auto simp: adds_def filled_symtab)
qed

lemma stmt_adds:
  assumes "listed_stmt st ctx = Inr ctx'" and "shape_ok ctx" and "stmt_ok st"
  shows "adds (stmt_nodes st) ctx ctx'" and "filled ctx \<Longrightarrow> stmt_filled st \<Longrightarrow> filled ctx'"
proof -
  have scope: "scope_ok ctx" using assms(2) by (simp add: shape_ok_def)
  have "adds (stmt_nodes st) ctx ctx' \<and> (filled ctx \<and> stmt_filled st \<longrightarrow> filled ctx')"
  proof (cases st)
    case (Subend_stmt line)
    then have "ctx' = append_insn ((vma_insn_build INSN_SUBEND)\<lparr>insn_line := line\<rparr>) (ctx\<lparr>lookup_stack := Globals\<rparr>)"
      using assms(1) by simp
    then show ?thesis using Subend_stmt by (simp add: adds_def filled_def vma_insn_build_def) (simp add: append_insn_def)
  next
    case (Const_stmt name a line)
    obtain i c where a: "build_expr a ctx = (i, c)" by fastforce
    obtain sc c1 where d: "vma_symbol_define name SYM_CONSTANT line c = Inr (sc, c1)"
      using assms(1) Const_stmt a by (cases "vma_symbol_define name SYM_CONSTANT line c") auto
    have ctx': "ctx' = append_insn ((vma_insn_build INSN_CONST)\<lparr>insn_line := line\<rparr>) (update_symbol sc name (\<lambda>symb. symb\<lparr>sym_u := Value_expr i\<rparr>) c1)"
      using assms(1) Const_stmt a d by (simp add: Let_def)
    have "built ctx c" using built_expr [OF _ a] assms(3) Const_stmt by simp
    then have "scope_ok c" using built_shape assms(2) by (auto simp: shape_ok_def)
    then have "adds 0 c c1 \<and> (filled c \<longrightarrow> filled c1)" by (intro define_adds [OF d]) simp_all
    moreover have "adds (ast_nodes a) ctx c \<and> (filled ctx \<longrightarrow> filled c)"
      using build_expr_next [OF a] build_expr_keeps [OF a] by (simp add: adds_def filled_def)
    ultimately show ?thesis
      unfolding ctx' using Const_stmt adds_trans [of "ast_nodes a" ctx c 0 c1]
      by (auto simp: vma_insn_build_def intro!: filled_append update_symbol_keeps(4))
  next
    case (Insn_stmt label body line)
    have fill: "insn_u insn \<noteq> Text_bytes []" if "build_body body c = (insn, c')" "stmt_filled st" for insn c c'
      using build_body_adds [OF that(1)] that(2) Insn_stmt by (auto simp: stmt_filled_def)
    show ?thesis
    proof (cases label)
      case None
      obtain insn c where b: "build_body body ctx = (insn, c)" by fastforce
      have "adds (body_nodes body) ctx c \<and> (filled ctx \<longrightarrow> filled c)" using build_body_adds [OF b] by (simp add: adds_def filled_def)
      then show ?thesis
        using assms(1) Insn_stmt None b fill [OF b] by (auto intro!: filled_append)
    next
      case (Some nl)
      obtain name l where nl: "nl = (name, l)" by fastforce
      obtain sc c1 where d: "vma_symbol_define name SYM_LABEL l ctx = Inr (sc, c1)"
        using assms(1) Insn_stmt Some nl by (cases "vma_symbol_define name SYM_LABEL l ctx") auto
      obtain insn c2 where b: "build_body body c1 = (insn, c2)" by fastforce
      have ctx': "ctx' = append_insn (insn\<lparr>insn_line := line\<rparr>)
          (update_symbol sc name (\<lambda>symb. symb\<lparr>sym_u := Location (length (insns c2))\<rparr>) c2)"
        using assms(1) Insn_stmt Some nl d b by (simp add: Let_def)
      have "adds 0 ctx c1 \<and> (filled ctx \<longrightarrow> filled c1)" by (rule define_adds [OF d _ scope]) simp
      moreover have "adds (body_nodes body) c1 c2 \<and> (filled c1 \<longrightarrow> filled c2)"
        using build_body_adds [OF b] by (simp add: adds_def filled_def)
      ultimately show ?thesis
        unfolding ctx' using Insn_stmt adds_trans [of 0 ctx c1 "body_nodes body" c2] fill [OF b]
        by (auto intro!: filled_append update_symbol_keeps(4))
    qed
  qed
  then show "adds (stmt_nodes st) ctx ctx'" "filled ctx \<Longrightarrow> stmt_filled st \<Longrightarrow> filled ctx'" by auto
qed

section \<open>Parsing comes to an end\<close>

lemma ends_define: "well_ended (vma_symbol_define name type line ctx)"
  by (auto simp: vma_symbol_define_def Let_def intro!: well_ended_bind split: prod.splits option.splits)

lemma ends_parse: "well_ended (parse_stmts sts ctx)"
proof (induction sts arbitrary: ctx)
  case (Cons st sts)
  have "well_ended (listed_stmt st ctx)"
    by (cases st) (auto simp: Let_def intro!: well_ended_bind ends_define split: option.splits prod.splits)
  then show ?case using Cons.IH by (auto intro!: well_ended_bind)
qed simp

section \<open>The image comes to an end\<close>

lemma writes_header:
  "output_header E a b e ctx = Inr ctx' \<Longrightarrow> \<exists>n. writes {} n ctx ctx'"
  unfolding output_header_def bind_res_eq_Inr
  by (elim exE conjE) (blast intro: writes_trans writes_text writes_u32 writes_u16)

lemma ends_header: "well_ended (output_header E a b e ctx)"
  by (auto simp: output_header_def intro!: well_ended_bind ends_text)

lemma ends_ncalls: "well_ended (output_ncalls E tab ctx)"
  by (induction tab arbitrary: ctx) (auto intro!: well_ended_bind)

lemma ends_generate:
  assumes "runs_ok E ctx" and "\<And>symb. vma_symtab_lookup (globals ctx) (start_symbol ctx) = Some symb \<Longrightarrow> sym_type symb = SYM_LABEL"
  shows "well_ended (vma_generate E ctx)"
proof (cases "vma_symtab_lookup (globals ctx) (start_symbol ctx)")
  case (Some symb)
  then have "symb \<in> all_symbols ctx" using lookup_in by (fastforce simp: all_symbols_def)
  then obtain i where i: "sym_u symb = Location i"
    using assms(1) assms(2) [OF Some]
    unfolding runs_ok_def program_ok_def data_ok_def symbols_ok_def symbol_ok_def
    by (cases "sym_u symb") (fastforce dest: bspec [where x = symb])+
  have "well_ended (emit_loop E (length (insns c)) 0 c)" if "output_header E a b e ctx = Inr c" for a b e c
    using writes_header [OF that] writes_runs assms(1) by (auto intro!: ends_loop)
  then show ?thesis
    using Some i by (auto simp: vma_generate_def Let_def intro!: well_ended_bind ends_header ends_ncalls)
qed (simp add: vma_generate_def Let_def)

section \<open>The whole run\<close>

text \<open>The names a source declares, and those it declares as constants.\<close>

definition declared_names :: "stmt list \<Rightarrow> string set" where
  "declared_names sts = {name. (\<exists>l body line. Insn_stmt (Some (name, l)) body line \<in> set sts) \<or> (\<exists>a line. Const_stmt name a line \<in> set sts)}"

definition constant_names :: "stmt list \<Rightarrow> string set" where
  "constant_names sts = {name. \<exists>a line. Const_stmt name a line \<in> set sts}"

lemma parse_adds:
  "parse_stmts sts' ctx = Inr ctx' \<Longrightarrow> parsed sts ctx \<Longrightarrow> set sts' \<subseteq> set sts \<Longrightarrow> \<forall>st \<in> set sts'. stmt_ok st \<Longrightarrow>
     adds (source_nodes sts') ctx ctx' \<and> (filled ctx \<and> (\<forall>st \<in> set sts'. stmt_filled st) \<longrightarrow> filled ctx')"
proof (induction sts' arbitrary: ctx)
  case Nil
  then show ?case by (simp add: adds_def source_nodes_def)
next
  case (Cons st sts')
  obtain c where c: "listed_stmt st ctx = Inr c" "parse_stmts sts' c = Inr ctx'"
    using Cons.prems(1) by (auto simp: bind_res_eq_Inr)
  have "parsed sts c" using Cons.prems by (intro parsed_stmt [OF _ _ _ c(1)]) simp_all
  then have "adds (source_nodes sts') c ctx' \<and> (filled c \<and> (\<forall>st \<in> set sts'. stmt_filled st) \<longrightarrow> filled ctx')"
    using Cons.IH [OF c(2)] Cons.prems by simp
  moreover have "adds (stmt_nodes st) ctx c" "filled ctx \<Longrightarrow> stmt_filled st \<Longrightarrow> filled c"
    using stmt_adds [OF c(1)] Cons.prems by (simp_all add: parsed_def)
  ultimately show ?case using adds_trans by (fastforce simp: source_nodes_def)
qed

text \<open>What is known of the program when parsing is over.\<close>

lemma parse_result:
  assumes "parse_stmts sts (vma_context_init junk) = Inr ctx" and "\<forall>st \<in> set sts. stmt_ok st"
  shows "parsed sts ctx" and "next_expr ctx = source_nodes sts" and "start_symbol ctx = ''start''" and "vma_output ctx = []"
    and "\<forall>st \<in> set sts. stmt_filled st \<Longrightarrow> filled ctx"
proof -
  show "parsed sts ctx" by (rule parsed_stmts [OF parsed_init _ assms(2,1)]) simp
  have "adds (source_nodes sts) (vma_context_init junk) ctx \<and> (filled (vma_context_init junk) \<and> (\<forall>st \<in> set sts. stmt_filled st) \<longrightarrow> filled ctx)"
    by (rule parse_adds [OF assms(1) parsed_init [of sts] subset_refl assms(2)])
  then show "next_expr ctx = source_nodes sts" "start_symbol ctx = ''start''" "vma_output ctx = []"
      "\<forall>st \<in> set sts. stmt_filled st \<Longrightarrow> filled ctx"
    by (auto simp: adds_def vma_context_init_def filled_def)
qed

definition assembled :: "asm_env \<Rightarrow> (nat \<Rightarrow> vma_expr) \<Rightarrow> stmt list \<Rightarrow> abort + vma_context" where
  "assembled E junk sts =
     bind_res (parse_stmts sts (vma_context_init junk)) (\<lambda>ctx.
     bind_res (vma_abort_on_errors ctx) (\<lambda>ctx.
     vma_assemble E (ctx\<lparr>start_va := 0, bss_va := 0, end_va := 0\<rparr>)))"

lemma vma_main_stages:
  "vma_main E junk sts =
     bind_res (assembled E junk sts) (\<lambda>ctx. bind_res (vma_abort_on_errors ctx) (\<lambda>ctx.
     bind_res (vma_generate E ctx) (\<lambda>ctx. bind_res (vma_abort_on_errors ctx) (\<lambda>ctx. Inr (vma_output ctx)))))"
  by (simp add: vma_main_def assembled_def bind_res_assoc)

text \<open>The start of pass 1.\<close>

lemma program_reset: "program_ok (ctx\<lparr>start_va := a, bss_va := b, end_va := e\<rparr>) = program_ok ctx"
  by (simp add: program_ok_def data_ok_def exprs_ok_def symbols_ok_def scope_ok_def insns_ok_def roots_ok_def ncalls_ok_def
      unreached_def all_symbols_def sub_symtab_def cong: scope.case_cong)

lemma no_errors: "vma_abort_on_errors ctx = Inr ctx' \<longleftrightarrow> ctx' = ctx \<and> vma_errors ctx = 0"
  by (auto simp: vma_abort_on_errors_def vma_abort_def)

lemma symbols_reset: "all_symbols (ctx\<lparr>start_va := a, bss_va := b, end_va := e\<rparr>) = all_symbols ctx"
  by (simp add: all_symbols_def sub_symtab_def)

lemma pass1_advances:
  assumes "vma_pass1 E ctx = Inr ctx'" and "program_ok ctx"
  shows "advances ctx ctx'" and "vma_errors ctx' = 0"
proof -
  obtain nva bss c where p: "pass1_loop E (length (insns ctx)) 0 (start_va ctx, start_va ctx) ctx = Inr ((nva, bss), c)"
    and c: "vma_errors c = 0" "ctx' = c\<lparr>end_va := nva, bss_va := bss\<rparr>"
    using assms(1) by (auto simp: vma_pass1_def vma_abort_on_errors_def vma_abort_def bind_res_eq_Inr split: if_splits)
  have "advances ctx c" using pass1_loop_frame [OF p assms(2)] by simp
  moreover have "scope_ok (c\<lparr>end_va := nva, bss_va := bss\<rparr>) = scope_ok c" by (simp add: scope_ok_def cong: scope.case_cong)
  ultimately show "advances ctx ctx'" by (simp add: c(2) advances_def)
  show "vma_errors ctx' = 0" using c by simp
qed

lemma assembled_result:
  assumes "assembled E junk sts = Inr ctx" and "\<forall>st \<in> set sts. stmt_ok st"
  obtains c0 where "parse_stmts sts (vma_context_init junk) = Inr c0" "vma_errors c0 = 0" "program_ok c0"
    "vma_pass1 E (c0\<lparr>start_va := 0, bss_va := 0, end_va := 0\<rparr>) = Inr ctx"
    "advances (c0\<lparr>start_va := 0, bss_va := 0, end_va := 0\<rparr>) ctx" "program_ok ctx" "vma_errors ctx = 0"
proof -
  obtain c0 where c0: "parse_stmts sts (vma_context_init junk) = Inr c0" "vma_errors c0 = 0"
      "vma_pass1 E (c0\<lparr>start_va := 0, bss_va := 0, end_va := 0\<rparr>) = Inr ctx"
    using assms(1) by (auto simp: assembled_def bind_res_eq_Inr no_errors vma_assemble_def)
  have p0: "program_ok c0" using parse_result(1) [OF c0(1) assms(2)] c0(2) by (rule program_ok_parsed)
  then have p1: "program_ok (c0\<lparr>start_va := 0, bss_va := 0, end_va := 0\<rparr>)" by (simp only: program_reset)
  show ?thesis
    using that c0 p0 pass1_advances [OF c0(3) p1] advances_program [OF pass1_advances(1) [OF c0(3) p1] p1] by blast
qed

lemma parsed_runs:
  assumes "parsed sts c" and "vma_errors c = 0" and "next_expr c = source_nodes sts"
    and "Suc (source_nodes sts) * Suc (source_nodes sts) \<le> fuel E" and "\<forall>symb. raw E symb \<notin> declared_names sts"
  shows "runs_ok E (c\<lparr>start_va := a, bss_va := b, end_va := e\<rparr>)"
proof -
  have "sym_name symb \<in> declared_names sts" if "symb \<in> all_symbols c" for symb
    using assms(1) that by (auto simp: parsed_def declared_def declared_names_def)
  then have "foreign (raw E) (c\<lparr>start_va := a, bss_va := b, end_va := e\<rparr>)"
    using assms(5) unfolding foreign_def symbols_reset by fastforce
  moreover have "program_ok (c\<lparr>start_va := a, bss_va := b, end_va := e\<rparr>)"
    unfolding program_reset by (rule program_ok_parsed [OF assms(1,2)])
  ultimately show ?thesis using assms(3,4) by (simp add: runs_ok_def)
qed

section \<open>Properties\<close>

text \<open>C27. Assembling any program of the grammar comes to an end: it gives an image or stops with a
  message. No null or mistyped pointer is followed, and the recursion of the evaluation, which
  follows constants into constants, stays within the square of the number of expression nodes,
  cyclic constants included. It relies on the bytes of a symbol record not spelling a declared
  name, and on \<open>start\<close> not being a constant.\<close>

theorem assembler_ends:
  assumes "\<forall>st \<in> set sts. stmt_ok st" and "''start'' \<notin> constant_names sts"
    and "\<forall>symb. raw E symb \<notin> declared_names sts"
    and "Suc (source_nodes sts) * Suc (source_nodes sts) \<le> fuel E"
  shows "(\<exists>out. vma_main E junk sts = Inr out) \<or> (\<exists>msg. vma_main E junk sts = Inl (Aborted msg))"
proof -
  have pass1: "well_ended (vma_assemble E (c\<lparr>start_va := 0, bss_va := 0, end_va := 0\<rparr>))"
    if c: "parse_stmts sts (vma_context_init junk) = Inr c" "vma_errors c = 0" for c
  proof -
    note r = parse_result(1,2) [OF c(1) assms(1)]
    have "well_ended (pass1_loop E (length (insns c)) 0 (0, 0) (c\<lparr>start_va := 0, bss_va := 0, end_va := 0\<rparr>))"
      using parsed_runs [OF r(1) c(2) r(2) assms(4,3)] by (intro ends_pass1_loop) simp_all
    then show ?thesis by (auto simp: vma_assemble_def vma_pass1_def intro!: well_ended_bind)
  qed
  have generate: "well_ended (vma_generate E ctx)" if ctx: "assembled E junk sts = Inr ctx" for ctx
  proof -
    obtain c where c: "parse_stmts sts (vma_context_init junk) = Inr c" "vma_errors c = 0" "program_ok c"
      and adv: "advances (c\<lparr>start_va := 0, bss_va := 0, end_va := 0\<rparr>) ctx"
      by (rule assembled_result [OF ctx assms(1)])
    note r = parse_result [OF c(1) assms(1)]
    have "runs_ok E ctx"
      by (rule advances_runs [OF adv parsed_runs [OF r(1) c(2) r(2) assms(4,3)]])
    moreover have "sym_type symb = SYM_LABEL" if "vma_symtab_lookup (globals ctx) (start_symbol ctx) = Some symb" for symb
    proof -
      have "symb \<in> all_symbols c" "sym_name symb = ''start''"
        using lookup_in [OF that] adv r(3) by (auto simp: advances_def all_symbols_def)
      then show ?thesis using r(1) assms(2) by (auto simp: parsed_def declared_def constant_names_def)
    qed
    ultimately show ?thesis by (rule ends_generate)
  qed
  have "well_ended (assembled E junk sts)"
    unfolding assembled_def by (auto simp: no_errors intro!: well_ended_bind ends_parse pass1)
  then have "well_ended (vma_main E junk sts)"
    unfolding vma_main_stages by (auto simp: no_errors intro!: well_ended_bind generate)
  then show ?thesis
    by (cases "vma_main E junk sts"; cases "projl (vma_main E junk sts)") (auto simp: well_ended_def)
qed

text \<open>Two constants that refer to each other, with fuel for three nodes.\<close>

definition cyclic_source :: "stmt list" where
  "cyclic_source =
     [Const_stmt ''a'' (Ident ''b'') 1, Const_stmt ''b'' (Ident ''a'') 2,
      Insn_stmt (Some (''start'', 3)) (Machine_expr INSN_LDC_UB (Ident ''a'')) 3]"

definition plain_env :: "nat \<Rightarrow> asm_env" where
  "plain_env n = \<lparr>raw = \<lambda>symb. ''?'', fuel = n, io_ok = \<lambda>k. True\<rparr>"

theorem assembler_ends_witness:
  "(\<exists>out. vma_main (plain_env 16) (\<lambda>k. undefined) cyclic_source = Inr out) \<or>
   (\<exists>msg. vma_main (plain_env 16) (\<lambda>k. undefined) cyclic_source = Inl (Aborted msg))"
proof (rule assembler_ends)
  show "\<forall>st \<in> set cyclic_source. stmt_ok st" by (simp add: cyclic_source_def insn_kinds)
  show "''start'' \<notin> constant_names cyclic_source" by (simp add: cyclic_source_def constant_names_def)
  show "\<forall>symb. raw (plain_env 16) symb \<notin> declared_names cyclic_source"
    by (auto simp: cyclic_source_def declared_names_def plain_env_def)
  show "Suc (source_nodes cyclic_source) * Suc (source_nodes cyclic_source) \<le> fuel (plain_env 16)"
    by (simp add: cyclic_source_def source_nodes_def plain_env_def)
qed

section \<open>The bytes of an image\<close>

definition le16 :: "u16 \<Rightarrow> u8 list" where
  "le16 v = [ucast v, ucast (drop_bit 8 v)]"

definition le32 :: "u32 \<Rightarrow> u8 list" where
  "le32 v = [ucast v, ucast (drop_bit 8 v), ucast (drop_bit 16 v), ucast (drop_bit 24 v)]"

definition image_header :: "u32 \<Rightarrow> u32 \<Rightarrow> u32 \<Rightarrow> u16 \<Rightarrow> u8 list" where
  "image_header memsize filesize ep count =
     [66, 65, 82, 70] @ le32 memsize @ le32 filesize @ le32 ep @ le16 count @ le16 0xFFFF @
     le32 0xFFFF @ le32 0xFFFF @ le32 0xFFFF"

lemma output_exact:
  "output_bytes E xs ctx = Inr c \<Longrightarrow> c = ctx\<lparr>vma_output := vma_output ctx @ xs\<rparr>"
  "vma_output_u16 E w ctx = Inr c \<Longrightarrow> c = ctx\<lparr>vma_output := vma_output ctx @ le16 w\<rparr>"
  "vma_output_u32 E d ctx = Inr c \<Longrightarrow> c = ctx\<lparr>vma_output := vma_output ctx @ le32 d\<rparr>"
  "vma_output_u8 E v ctx = Inr c \<Longrightarrow> c = ctx\<lparr>vma_output := vma_output ctx @ [v]\<rparr>"
  by (auto simp: output_bytes_def vma_output_u16_def vma_output_u32_def vma_output_u8_def le16_def le32_def vma_abort_def split: if_splits)

lemma output_text_exact: "output_text E xs ctx = Inr c \<Longrightarrow> c = ctx\<lparr>vma_output := vma_output ctx @ xs\<rparr>"
proof (induction xs arbitrary: ctx)
  case (Cons x xs)
  then obtain c1 where c1: "vma_output_u8 E x ctx = Inr c1" "output_text E xs c1 = Inr c" by (auto simp: bind_res_eq_Inr)
  then show ?case using Cons.IH [OF c1(2)] output_exact(4) [OF c1(1)] by simp
qed simp

lemma output_header_exact:
  assumes "output_header E a b e ctx = Inr c"
  shows "c = ctx\<lparr>vma_output := vma_output ctx @ image_header a b e (of_nat (length (ncalls ctx)))\<rparr>"
proof -
  obtain c1 c2 c3 c4 c5 c6 c7 c8 where "output_text E [66, 65, 82, 70] ctx = Inr c1" "vma_output_u32 E a c1 = Inr c2"
    "vma_output_u32 E b c2 = Inr c3" "vma_output_u32 E e c3 = Inr c4" "vma_output_u16 E (of_nat (length (ncalls c4))) c4 = Inr c5"
    "vma_output_u16 E 0xFFFF c5 = Inr c6" "vma_output_u32 E 0xFFFF c6 = Inr c7" "vma_output_u32 E 0xFFFF c7 = Inr c8"
    "vma_output_u32 E 0xFFFF c8 = Inr c"
    using assms by (auto simp: output_header_def bind_res_eq_Inr)
  then have "c1 = ctx\<lparr>vma_output := vma_output ctx @ [66, 65, 82, 70]\<rparr>" "c2 = c1\<lparr>vma_output := vma_output c1 @ le32 a\<rparr>"
    "c3 = c2\<lparr>vma_output := vma_output c2 @ le32 b\<rparr>" "c4 = c3\<lparr>vma_output := vma_output c3 @ le32 e\<rparr>"
    "c5 = c4\<lparr>vma_output := vma_output c4 @ le16 (of_nat (length (ncalls c4)))\<rparr>" "c6 = c5\<lparr>vma_output := vma_output c5 @ le16 0xFFFF\<rparr>"
    "c7 = c6\<lparr>vma_output := vma_output c6 @ le32 0xFFFF\<rparr>" "c8 = c7\<lparr>vma_output := vma_output c7 @ le32 0xFFFF\<rparr>"
    "c = c8\<lparr>vma_output := vma_output c8 @ le32 0xFFFF\<rparr>"
    by (blast dest: output_text_exact output_exact(2,3))+
  then show ?thesis by (simp add: image_header_def)
qed

lemma output_ncalls_exact:
  "output_ncalls E tab ctx = Inr c \<Longrightarrow>
     c = ctx\<lparr>vma_output := vma_output ctx @ concat (map (\<lambda>symb. le32 (vma_hash_name (ascii (sym_name symb)))) tab)\<rparr>"
proof (induction tab arbitrary: ctx)
  case (Cons symb tab)
  then obtain c1 where c1: "vma_output_u32 E (vma_hash_name (ascii (sym_name symb))) ctx = Inr c1" "output_ncalls E tab c1 = Inr c"
    by (auto simp: bind_res_eq_Inr)
  then show ?case using Cons.IH [OF c1(2)] output_exact(3) [OF c1(1)] by simp
qed simp

lemma output_keeps:
  "program_ok (ctx\<lparr>vma_output := xs\<rparr>) = program_ok ctx" "laid_out (ctx\<lparr>vma_output := xs\<rparr>) n = laid_out ctx n"
  "texts_filled (ctx\<lparr>vma_output := xs\<rparr>) = texts_filled ctx" "insn_pos (ctx\<lparr>vma_output := xs\<rparr>) k = insn_pos ctx k"
  "opcode_at (ctx\<lparr>vma_output := xs\<rparr>) j bs k = opcode_at ctx j bs k"
proof -
  have vals: "value_of (ctx\<lparr>vma_output := xs\<rparr>) = value_of ctx" by (simp add: value_of_def fun_eq_iff)
  have ins: "insns (ctx\<lparr>vma_output := xs\<rparr>) = insns ctx" by simp
  have span: "span (ctx\<lparr>vma_output := xs\<rparr>) = span ctx" unfolding fun_eq_iff span_def byte_size_def vals ins by simp
  then show pos: "insn_pos (ctx\<lparr>vma_output := xs\<rparr>) k = insn_pos ctx k" for k by (simp add: insn_pos_def)
  show "program_ok (ctx\<lparr>vma_output := xs\<rparr>) = program_ok ctx"
    by (simp add: program_ok_def data_ok_def exprs_ok_def symbols_ok_def scope_ok_def insns_ok_def roots_ok_def ncalls_ok_def
      unreached_def all_symbols_def sub_symtab_def cong: scope.case_cong)
  show "laid_out (ctx\<lparr>vma_output := xs\<rparr>) n = laid_out ctx n" unfolding laid_out_def pos by simp
  show "texts_filled (ctx\<lparr>vma_output := xs\<rparr>) = texts_filled ctx" by (simp add: texts_filled_def)
  show "opcode_at (ctx\<lparr>vma_output := xs\<rparr>) j bs k = opcode_at ctx j bs k" by (simp add: opcode_at_def)
qed

text \<open>C28. The image of a program whose addresses fit in 32 bits: the header with the sizes, the
  entry point and the number of native names; then exactly as many bytes as the header announces,
  in which every instruction stands at the address pass 1 gave it and every machine instruction
  shows its opcode there; then the hashes of the native names.\<close>

theorem image_layout:
  assumes "\<forall>st \<in> set sts. stmt_ok st \<and> stmt_filled st" and "vma_main E junk sts = Inr out"
    and "assembled E junk sts = Inr ctx" and "insn_pos ctx (length (insns ctx)) < 2 ^ 32"
  shows "\<exists>entry code i symb.
    out = image_header (end_va ctx) (bss_va ctx) entry (of_nat (length (ncalls ctx))) @ code @
      concat (map (\<lambda>symb. le32 (vma_hash_name (ascii (sym_name symb)))) (ncalls ctx)) \<and>
    length code = unat (bss_va ctx) \<and> unat (end_va ctx) = insn_pos ctx (length (insns ctx)) \<and>
    vma_symtab_lookup (globals ctx) ''start'' = Some symb \<and> sym_u symb = Location i \<and> entry = start_addr (insns ctx ! i) \<and>
    (\<forall>j < length (insns ctx). unat (start_addr (insns ctx ! j)) = insn_pos ctx j + padding (insns ctx ! j)) \<and>
    (\<forall>j < length (insns ctx). start_addr (insns ctx ! j) < bss_va ctx \<longrightarrow> opcode_at ctx j code (unat (start_addr (insns ctx ! j))))"
proof -
  have ok: "\<forall>st \<in> set sts. stmt_ok st" using assms(1) by blast
  obtain c0 where c0: "parse_stmts sts (vma_context_init junk) = Inr c0" "vma_errors c0 = 0" "program_ok c0"
      "vma_pass1 E (c0\<lparr>start_va := 0, bss_va := 0, end_va := 0\<rparr>) = Inr ctx"
    and adv: "advances (c0\<lparr>start_va := 0, bss_va := 0, end_va := 0\<rparr>) ctx" and p: "program_ok ctx" and err: "vma_errors ctx = 0"
    by (rule assembled_result [OF assms(3) ok])
  note r = parse_result [OF c0(1) ok]
  obtain nfile where lay: "laid_out ctx nfile" and end_va: "unat (end_va ctx) = insn_pos ctx (length (insns ctx))"
    by (rule pass1_laid_out [OF c0(4) _ _ _ assms(4)]) (use c0(2,3) program_reset in simp_all)
  have texts: "texts_filled ctx"
    using r(5) assms(1) adv unfolding texts_filled_def advances_def filled_def by (auto simp: all_set_conv_all_nth)
  have start: "start_va ctx = 0" "start_symbol ctx = ''start''" "vma_output ctx = []"
    using adv r(3,4) by (simp_all add: advances_def)
  obtain c4 where gen: "vma_generate E ctx = Inr c4" "vma_errors c4 = 0" "out = vma_output c4"
    using assms(2,3) by (auto simp: vma_main_stages bind_res_eq_Inr no_errors)
  obtain symb i where s: "vma_symtab_lookup (globals ctx) ''start'' = Some symb" "sym_u symb = Location i"
    using gen(1) start by (auto simp: vma_generate_def Let_def vma_abort_def split: option.splits symbol_value.splits)
  let ?entry = "start_addr (insns ctx ! i)"
  obtain c1 c3 where h: "output_header E (end_va ctx) (bss_va ctx) ?entry ctx = Inr c1"
    and loop: "emit_loop E (length (insns c1)) 0 c1 = Inr c3" and nc: "output_ncalls E (ncalls c3) c3 = Inr c4"
    using gen(1) s start by (auto simp: vma_generate_def Let_def bind_res_eq_Inr)
  have c1: "c1 = ctx\<lparr>vma_output := image_header (end_va ctx) (bss_va ctx) ?entry (of_nat (length (ncalls ctx)))\<rparr>"
    using output_header_exact [OF h] start(3) by simp
  have c4: "c4 = c3\<lparr>vma_output := vma_output c3 @ concat (map (\<lambda>symb. le32 (vma_hash_name (ascii (sym_name symb)))) (ncalls c3))\<rparr>"
    by (rule output_ncalls_exact [OF nc])
  have "vma_errors c3 = vma_errors c1" using gen(2) c4 err c1 by simp
  moreover have "program_ok c1" "laid_out c1 nfile" "texts_filled c1" unfolding c1 output_keeps using p lay texts by simp_all
  ultimately obtain code where code: "vma_output c3 = vma_output c1 @ code" "length code = insn_pos c1 nfile" "ncalls c3 = ncalls c1"
      "\<forall>j < nfile. opcode_at c1 j code (insn_pos c1 j)"
    using emit_loop_bytes [OF loop] by (fastforce simp: insn_pos_def)
  have placed: "unat (start_addr (insns ctx ! j)) = insn_pos ctx j + padding (insns ctx ! j)" if "j < length (insns ctx)" for j
    using lay that by (simp add: laid_out_def)
  have "opcode_at ctx j code (unat (start_addr (insns ctx ! j)))"
    if j: "j < length (insns ctx)" "start_addr (insns ctx ! j) < bss_va ctx" for j
  proof -
    have "j < nfile"
    proof (rule ccontr)
      assume "\<not> j < nfile"
      then have "insn_pos ctx nfile \<le> insn_pos ctx j" by (intro insn_pos_mono) simp
      then show False using j(2) placed [OF j(1)] lay by (simp add: laid_out_def word_less_nat_alt)
    qed
    then have "opcode_at ctx j code (insn_pos ctx j)" using code(4) unfolding c1 output_keeps by blast
    then show ?thesis using placed [OF j(1)] machine_padding by (simp add: opcode_at_def)
  qed
  moreover have "length code = unat (bss_va ctx)" using code(2) lay unfolding c1 output_keeps by (simp add: laid_out_def)
  moreover have "out = image_header (end_va ctx) (bss_va ctx) ?entry (of_nat (length (ncalls ctx))) @ code @
      concat (map (\<lambda>symb. le32 (vma_hash_name (ascii (sym_name symb)))) (ncalls ctx))"
    using gen(3) c4 code(1,3) c1 by simp
  ultimately show ?thesis using s end_va placed by blast
qed

text \<open>A routine that loads a constant, calls a native procedure and has two words of memory behind the file.\<close>

definition image_source :: "stmt list" where
  "image_source =
     [Insn_stmt (Some (''start'', 1)) (Machine_expr INSN_LDC_UB (Int_lit 5)) 1,
      Insn_stmt None (Machine_ncall ''sys_exit'') 2,
      Insn_stmt None (Reserve INSN_RESW (Int_lit 2)) 3]"

definition blank :: vma_expr where
  "blank = \<lparr>expr_type = EXPR_LITERAL, expr_value = 0, expr_u = Children None None\<rparr>"

definition image_ctx :: vma_context where
  "image_ctx = projr (assembled (plain_env 9) (\<lambda>k. blank) image_source)"

lemma image_bytes:
  "vma_main (plain_env 9) (\<lambda>k. blank) image_source =
     Inr ([66, 65, 82, 70, 16, 0, 0, 0, 5, 0, 0, 0, 0, 0, 0, 0, 1, 0, 255, 255, 255, 255, 0, 0, 255, 255, 0, 0, 255, 255, 0, 0] @
       [21, 5, 46, 0, 0] @ [123, 246, 162, 243])"
  by code_simp

lemma image_assembled: "assembled (plain_env 9) (\<lambda>k. blank) image_source = Inr image_ctx"
proof -
  have "\<not> isl (assembled (plain_env 9) (\<lambda>k. blank) image_source)" by code_simp
  then show ?thesis by (simp add: image_ctx_def isl_def sum.collapse(2))
qed

lemma image_spans: "length (insns image_ctx) = 3" "span image_ctx 0 = 2" "span image_ctx 1 = 3" "span image_ctx 2 = 11"
  by code_simp+

theorem image_layout_witness:
  "\<exists>entry code i symb.
    projr (vma_main (plain_env 9) (\<lambda>k. blank) image_source) =
      image_header (end_va image_ctx) (bss_va image_ctx) entry (of_nat (length (ncalls image_ctx))) @ code @
      concat (map (\<lambda>symb. le32 (vma_hash_name (ascii (sym_name symb)))) (ncalls image_ctx)) \<and>
    length code = unat (bss_va image_ctx) \<and> unat (end_va image_ctx) = insn_pos image_ctx (length (insns image_ctx)) \<and>
    vma_symtab_lookup (globals image_ctx) ''start'' = Some symb \<and> sym_u symb = Location i \<and>
    entry = start_addr (insns image_ctx ! i) \<and>
    (\<forall>j < length (insns image_ctx). unat (start_addr (insns image_ctx ! j)) = insn_pos image_ctx j + padding (insns image_ctx ! j)) \<and>
    (\<forall>j < length (insns image_ctx). start_addr (insns image_ctx ! j) < bss_va image_ctx \<longrightarrow>
       opcode_at image_ctx j code (unat (start_addr (insns image_ctx ! j))))"
proof (rule image_layout)
  show "\<forall>st \<in> set image_source. stmt_ok st \<and> stmt_filled st" by (simp add: image_source_def insn_kinds stmt_filled_def)
  show "vma_main (plain_env 9) (\<lambda>k. blank) image_source = Inr (projr (vma_main (plain_env 9) (\<lambda>k. blank) image_source))"
    by (simp add: image_bytes)
  show "assembled (plain_env 9) (\<lambda>k. blank) image_source = Inr image_ctx" by (rule image_assembled)
  have "insn_pos image_ctx 3 = span image_ctx 0 + span image_ctx 1 + span image_ctx 2"
    by (simp add: insn_pos_def eval_nat_numeral lessThan_Suc)
  then show "insn_pos image_ctx (length (insns image_ctx)) < 2 ^ 32" unfolding image_spans by simp
qed

end
