(* ===== verification/Vma_Meaning.thy ===== *)
theory Vma_Meaning
  imports Vma_Correct
begin

text \<open>
  What expressions mean: the value of a source expression over the integers, and that evaluating
  its nodes gives it. A reference can be evaluated only once, because resolving it overwrites the
  name in \<open>vma_symref_t\<close>.
\<close>

section \<open>The meaning of an expression\<close>

text \<open>Operators over numbers from \<open>0\<close> to \<open>2^32 - 1\<close>; a division by zero means nothing.\<close>

definition binary_meaning :: "vma_expr_type \<Rightarrow> int \<Rightarrow> int \<Rightarrow> int option" where
  "binary_meaning op a b = (case op of
     EXPR_OR \<Rightarrow> Some (a OR b)
   | EXPR_AND \<Rightarrow> Some (a AND b)
   | EXPR_XOR \<Rightarrow> Some (a XOR b)
   | EXPR_ADD \<Rightarrow> Some ((a + b) mod 2 ^ 32)
   | EXPR_SUB \<Rightarrow> Some ((a - b) mod 2 ^ 32)
   | EXPR_MUL \<Rightarrow> Some ((a * b) mod 2 ^ 32)
   | EXPR_DIV \<Rightarrow> if b = 0 then None else Some (a div b)
   | _ \<Rightarrow> None)"

definition unary_meaning :: "vma_expr_type \<Rightarrow> int \<Rightarrow> int" where
  "unary_meaning op a = (if op = EXPR_NEG then (- a) mod 2 ^ 32 else 2 ^ 32 - 1 - a)"

primrec meaning :: "(string \<Rightarrow> int option) \<Rightarrow> ast \<Rightarrow> int option" where
  "meaning env (Int_lit v) = Some (uint v)"
| "meaning env (Ident name) = env name"
| "meaning env (Binary op a b) = Option.bind (meaning env a) (\<lambda>x. Option.bind (meaning env b) (binary_meaning op x))"
| "meaning env (Unary op a) = map_option (unary_meaning op) (meaning env a)"

text \<open>The value of a node whose tree, of depth less than \<open>n\<close>, holds no reference.\<close>

primrec closed_value :: "nat \<Rightarrow> vma_context \<Rightarrow> nat \<Rightarrow> int option" where
  "closed_value 0 ctx e = None"
| "closed_value (Suc n) ctx e =
     (let op = expr_type (exprs ctx e)
      in if op = EXPR_LITERAL then Some (uint (value_of ctx e))
         else if op = EXPR_SYMREF then None
         else (case expr_u (exprs ctx e) of
                 Children (Some a) (Some b) \<Rightarrow>
                   if is_binary op then Option.bind (closed_value n ctx a) (\<lambda>x. Option.bind (closed_value n ctx b) (binary_meaning op x))
                   else None
               | Children (Some a) None \<Rightarrow> if is_binary op then None else map_option (unary_meaning op) (closed_value n ctx a)
               | _ \<Rightarrow> None))"

text \<open>A name means the address of an allocated label, or the value of a constant without references.\<close>

definition name_meaning :: "vma_context \<Rightarrow> string \<Rightarrow> int option" where
  "name_meaning ctx name =
     (case vma_symtab_lookup_chain (lookup_tables ctx) name of
        None \<Rightarrow> None
      | Some symb \<Rightarrow> (case (sym_type symb, sym_u symb) of
            (SYM_LABEL, Location i) \<Rightarrow> if allocated (insns ctx ! i) then Some (uint (start_addr (insns ctx ! i))) else None
          | (SYM_CONSTANT, Value_expr v) \<Rightarrow> closed_value (next_expr ctx) ctx v
          | _ \<Rightarrow> None))"

lemma uint_small [simp]: "uint w mod 4294967296 = uint w" for w :: u32
  using uint_lt2p [of w] uint_ge_0 [of w] by (simp add: mod_pos_pos_trivial)

lemma binary_op_meaning:
  assumes "binary_meaning op (uint l) (uint r) = Some v" and "is_binary op"
  shows "\<exists>w. binary_op op l r ctx = Inr (w, ctx) \<and> uint w = v"
proof (cases "op = EXPR_DIV")
  case True
  then show ?thesis
    using assms(1) by (auto simp: binary_meaning_def binary_op_def uint_div_distrib split: if_splits)
next
  case False
  then show ?thesis
    using assms by (cases op)
      (simp_all add: binary_meaning_def binary_op_def is_binary_def uint_word_ariths unsigned_or_eq unsigned_and_eq unsigned_xor_eq)
qed

lemma uint_unary: "uint (- w) = (- uint w) mod 2 ^ 32" "uint (NOT w) = 2 ^ 32 - 1 - uint w" for w :: u32
proof -
  show "uint (- w) = (- uint w) mod 2 ^ 32" by (simp add: uint_word_ariths)
  have "NOT w = - 1 - w" by (simp add: not_eq_complement)
  then have "uint (NOT w) = (2 ^ 32 - 1 - uint w) mod 2 ^ 32" by (simp add: uint_word_ariths mod_simps)
  moreover have "0 \<le> 2 ^ 32 - 1 - uint w" "2 ^ 32 - 1 - uint w < 2 ^ 32"
    using uint_lt2p [of w] less_le_trans [of "- 1" 0 "uint w"] by simp_all
  ultimately show "uint (NOT w) = 2 ^ 32 - 1 - uint w" by (metis mod_pos_pos_trivial)
qed

lemma unary_op_meaning: "uint (if op = EXPR_NEG then - w else NOT w) = unary_meaning op (uint w)" for w :: u32
  by (simp add: unary_meaning_def uint_unary)

section \<open>Trees without references\<close>

lemma closed_mono: "closed_value n ctx e = Some v \<Longrightarrow> n \<le> m \<Longrightarrow> closed_value m ctx e = Some v"
proof (induction n arbitrary: e v m)
  case (Suc n)
  then obtain k where m: "m = Suc k" "n \<le> k" by (cases m) auto
  have later: "closed_value k ctx x = Some y" if "closed_value n ctx x = Some y" for x y
    using Suc.IH [OF that m(2)] .
  show ?case
    using Suc.prems(1) unfolding m(1)
    by (auto simp: Let_def bind_eq_Some_conv dest!: later split: if_splits expr_union.splits option.splits)
qed simp

lemma closed_unique: "closed_value n ctx e = Some v \<Longrightarrow> closed_value m ctx e = Some w \<Longrightarrow> v = w"
  using closed_mono [of n ctx e v "max n m"] closed_mono [of m ctx e w "max n m"] by simp

lemma closed_binary:
  assumes "closed_value n ctx e = Some v" and "is_binary (expr_type (exprs ctx e))"
  obtains k a b x y where "n = Suc k" "expr_u (exprs ctx e) = Children (Some a) (Some b)" "closed_value k ctx a = Some x"
    "closed_value k ctx b = Some y" "binary_meaning (expr_type (exprs ctx e)) x y = Some v"
  using assms by (cases n) (auto simp: Let_def is_binary_def bind_eq_Some_conv split: if_splits expr_union.splits option.splits)

lemma closed_unary:
  assumes "closed_value n ctx e = Some v" and "expr_type (exprs ctx e) = EXPR_NEG \<or> expr_type (exprs ctx e) = EXPR_NOT"
  obtains k a x where "n = Suc k" "expr_u (exprs ctx e) = Children (Some a) None" "closed_value k ctx a = Some x"
    "v = unary_meaning (expr_type (exprs ctx e)) x"
  using assms by (cases n) (auto simp: Let_def is_binary_def split: if_splits expr_union.splits option.splits)

text \<open>
  What an evaluation without errors does: it leaves literals alone, and outside the nodes from
  \<open>lo\<close> to \<open>e\<close> it only gives nodes without references their values.
\<close>

definition settles :: "nat \<Rightarrow> nat \<Rightarrow> vma_context \<Rightarrow> vma_context \<Rightarrow> bool" where
  "settles lo e ctx c \<longleftrightarrow> evaluates ctx c \<and> vma_errors c = vma_errors ctx \<and>
     (\<forall>n. (expr_type (exprs ctx n) = EXPR_LITERAL \<longrightarrow> value_of c n = value_of ctx n) \<and>
          (n < lo \<or> e < n \<longrightarrow> expr_u (exprs c n) = expr_u (exprs ctx n) \<and>
             (value_of c n = value_of ctx n \<or> (\<exists>k. closed_value k ctx n = Some (uint (value_of c n))))))"

lemma settles_refl [simp]: "settles lo e ctx ctx"
  by (simp add: settles_def)

lemma closed_stays:
  assumes "settles lo e ctx c" shows "closed_value n c x = closed_value n ctx x"
proof (induction n arbitrary: x)
  case (Suc n)
  have ev: "evaluates ctx c" using assms by (simp add: settles_def)
  have u: "expr_u (exprs c x) = expr_u (exprs ctx x) \<or> (\<exists>r r'. expr_u (exprs ctx x) = Ref r \<and> expr_u (exprs c x) = Ref r')"
    using ev by (auto simp: evaluates_def resolved_from_def)
  show ?case
  proof (cases "expr_type (exprs ctx x) = EXPR_LITERAL")
    case True
    then have "value_of c x = value_of ctx x" using assms by (simp add: settles_def)
    then show ?thesis using True evaluates_node(1) [OF ev] by (simp add: Let_def)
  next
    case False
    then show ?thesis
      using u evaluates_node(1) [OF ev] Suc.IH by (auto simp: Let_def split: expr_union.splits option.splits)
  qed
qed simp

lemma settles_trans:
  assumes "settles lo x c1 c2" "settles lo' y c2 c3" "lo \<le> lo'" "x \<le> e" "y \<le> e"
  shows "settles lo e c1 c3"
  unfolding settles_def
proof (intro conjI allI)
  have ev: "evaluates c1 c2" using assms(1) by (simp add: settles_def)
  show "evaluates c1 c3" using assms(1,2) by (auto simp: settles_def intro: evaluates_trans)
  show "vma_errors c3 = vma_errors c1" using assms(1,2) by (simp add: settles_def)
  fix n
  show "expr_type (exprs c1 n) = EXPR_LITERAL \<longrightarrow> value_of c3 n = value_of c1 n"
    using assms(1,2) evaluates_node(1) [OF ev] by (simp add: settles_def)
  show "n < lo \<or> e < n \<longrightarrow> expr_u (exprs c3 n) = expr_u (exprs c1 n) \<and>
     (value_of c3 n = value_of c1 n \<or> (\<exists>k. closed_value k c1 n = Some (uint (value_of c3 n))))"
  proof
    assume "n < lo \<or> e < n"
    then have "n < lo \<or> x < n" "n < lo' \<or> y < n" using assms(3-5) by auto
    then show "expr_u (exprs c3 n) = expr_u (exprs c1 n) \<and>
       (value_of c3 n = value_of c1 n \<or> (\<exists>k. closed_value k c1 n = Some (uint (value_of c3 n))))"
      using assms(1,2) unfolding settles_def closed_stays [OF assms(1)] by metis
  qed
qed

lemma settles_weaken: "settles 1 0 ctx c \<Longrightarrow> settles lo e ctx c"
  by (auto simp: settles_def)

lemma settles_grow: "settles lo x ctx c \<Longrightarrow> x \<le> e \<Longrightarrow> settles lo e ctx c"
  by (auto simp: settles_def)

lemma settles_set:
  assumes "settles lo hi ctx c" and "expr_type (exprs ctx e) \<noteq> EXPR_LITERAL"
    and "(lo \<le> e \<and> e \<le> hi) \<or> closed_value k ctx e = Some (uint v)"
  shows "settles lo hi ctx (set_value e v c)"
proof -
  have "evaluates ctx (set_value e v c)" using assms(1) by (auto simp: settles_def intro: evaluates_trans)
  moreover have "vma_errors (set_value e v c) = vma_errors c" by (simp add: set_value_def set_expr_def)
  moreover have "expr_u (exprs (set_value e v c) n) = expr_u (exprs c n)" for n by (simp add: set_value_def set_expr_def)
  ultimately show ?thesis using assms unfolding settles_def by auto
qed

text \<open>A value that is computed stays while another node is evaluated.\<close>

lemma settles_keeps:
  assumes "settles lo e ctx c" and "a < lo \<or> e < a" and "\<And>m w. closed_value m ctx a = Some w \<Longrightarrow> w = uint (value_of ctx a)"
  shows "value_of c a = value_of ctx a"
  using assms(1,2) assms(3) [of _ "uint (value_of c a)"] unfolding settles_def by (metis word_uint_eq_iff)

lemma closed_evaluates:
  "closed_value n ctx e = Some v \<Longrightarrow> n \<le> k \<Longrightarrow>
     \<exists>c. vma_passx_evaluate_expr names k e ctx = Inr (True, c) \<and> uint (value_of c e) = v \<and> settles 1 0 ctx c"
proof (induction n arbitrary: e ctx v k)
  case (Suc n)
  then obtain k' where k: "k = Suc k'" "n \<le> k'" by (cases k) auto
  show ?case
  proof (cases rule: node_kinds [of "expr_type (exprs ctx e)"])
    case 1
    then show ?thesis using Suc.prems unfolding k(1) by (simp add: evaluate_leaf)
  next
    case 2
    then show ?thesis using Suc.prems by simp
  next
    case 3
    from Suc.prems(1) this obtain m a b x y where u: "Suc n = Suc m" "expr_u (exprs ctx e) = Children (Some a) (Some b)"
      "closed_value m ctx a = Some x" "closed_value m ctx b = Some y" "binary_meaning (expr_type (exprs ctx e)) x y = Some v"
      by (rule closed_binary)
    obtain c1 where c1: "vma_passx_evaluate_expr names k' a ctx = Inr (True, c1)" "uint (value_of c1 a) = x" "settles 1 0 ctx c1"
      using Suc.IH [OF _ k(2), of ctx a x] u by auto
    obtain c2 where c2: "vma_passx_evaluate_expr names k' b c1 = Inr (True, c2)" "uint (value_of c2 b) = y" "settles 1 0 c1 c2"
      using Suc.IH [OF _ k(2), of c1 b y] u closed_stays [OF c1(3)] by auto
    have "value_of c2 a = value_of c1 a"
      using closed_unique [OF u(3)] by (intro settles_keeps [OF c2(3)]) (auto simp: c1(2) closed_stays [OF c1(3)])
    then obtain w where w: "binary_op (expr_type (exprs ctx e)) (value_of c2 a) (value_of c2 b) c2 = Inr (w, c2)" "uint w = v"
      using binary_op_meaning [OF _ 3, of "value_of c2 a" "value_of c2 b" v c2] u(5) c1(2) c2(2) by auto
    have "settles 1 0 ctx (set_value e w c2)"
      using settles_trans [OF c1(3) c2(3) order_refl order_refl order_refl] 3 Suc.prems(1) w(2)
      by (intro settles_set [where k = "Suc n"]) (auto simp: is_binary_def)
    then show ?thesis unfolding k(1) evaluate_binary [OF 3] using u(2) c1(1) c2(1) w by simp
  next
    case 4
    from Suc.prems(1) this obtain m a x where u: "Suc n = Suc m" "expr_u (exprs ctx e) = Children (Some a) None"
      "closed_value m ctx a = Some x" "v = unary_meaning (expr_type (exprs ctx e)) x"
      by (rule closed_unary)
    obtain c1 where c1: "vma_passx_evaluate_expr names k' a ctx = Inr (True, c1)" "uint (value_of c1 a) = x" "settles 1 0 ctx c1"
      using Suc.IH [OF _ k(2), of ctx a x] u by auto
    let ?w = "if expr_type (exprs ctx e) = EXPR_NEG then - value_of c1 a else NOT (value_of c1 a)"
    have w: "uint ?w = v" using u(4) c1(2) unary_op_meaning by simp
    have "settles 1 0 ctx (set_value e ?w c1)"
      using c1(3) 4 Suc.prems(1) w by (intro settles_set [where k = "Suc n"]) auto
    then show ?thesis unfolding k(1) evaluate_unary [OF 4] using u(2) c1(1) w by simp
  qed
qed simp

section \<open>Evaluation finds the meaning\<close>

lemma meaning_stays:
  assumes "settles lo e ctx c" shows "name_meaning c = name_meaning ctx"
proof
  fix name
  have ev: "evaluates ctx c" using assms by (simp add: settles_def)
  have same: "lookup_tables c = lookup_tables ctx" "insns c = insns ctx" "next_expr c = next_expr ctx"
    by (simp_all add: evaluates_fields [OF ev])
  show "name_meaning c name = name_meaning ctx name"
    unfolding name_meaning_def same closed_stays [OF assms] ..
qed

text \<open>The nodes from \<open>lo\<close> on, below \<open>hi\<close>, are still as they were built; computed values do not count.\<close>

definition same_tree :: "nat \<Rightarrow> nat \<Rightarrow> vma_context \<Rightarrow> vma_context \<Rightarrow> bool" where
  "same_tree lo hi ctx c \<longleftrightarrow> (\<forall>n. lo \<le> n \<and> n < hi \<longrightarrow>
     expr_type (exprs c n) = expr_type (exprs ctx n) \<and> expr_u (exprs c n) = expr_u (exprs ctx n) \<and>
     (expr_type (exprs ctx n) = EXPR_LITERAL \<longrightarrow> value_of c n = value_of ctx n))"

lemma settles_tree:
  assumes "same_tree lo' hi c1 ctx" and "settles lo e ctx d" and "e < lo'" shows "same_tree lo' hi c1 d"
proof -
  have ev: "evaluates ctx d" using assms(2) by (simp add: settles_def)
  show ?thesis
    using assms unfolding same_tree_def settles_def evaluates_node(1) [OF ev] by (metis le_less_trans not_le)
qed

lemma same_tree_part:
  assumes "same_tree lo hi c2 ctx" and "built c1 c2" and "lo \<le> lo'" and "hi' \<le> hi" and "hi' \<le> next_expr c1"
  shows "same_tree lo' hi' c1 ctx"
  using assms unfolding same_tree_def built_def value_of_def by (metis le_trans less_le_trans)

lemma symref_evaluates:
  assumes "expr_type (exprs ctx e) = EXPR_SYMREF" and "expr_u (exprs ctx e) = Ref (Name name)"
    and "name_meaning ctx name = Some v" and "next_expr ctx \<le> k"
  shows "\<exists>c. vma_passx_evaluate_expr names (Suc k) e ctx = Inr (True, c) \<and> uint (value_of c e) = v \<and> settles e e ctx c"
proof -
  obtain symb where symb: "vma_symtab_lookup_chain (lookup_tables ctx) name = Some symb"
    using assms(3) by (cases "vma_symtab_lookup_chain (lookup_tables ctx) name") (auto simp: name_meaning_def)
  let ?c = "set_expr e (\<lambda>node. node\<lparr>expr_u := Ref (Sym symb)\<rparr>) ctx"
  have res: "settles e e ctx ?c"
    using evaluates_resolve [OF assms(2), of symb] assms(1) by (auto simp: settles_def set_expr_def value_of_def)
  have step: "vma_passx_evaluate_expr names (Suc k) e ctx =
      (case sym_type symb of
         SYM_LABEL \<Rightarrow> (case sym_u symb of
             Location i \<Rightarrow> if allocated (insns ?c ! i) then Inr (True, set_value e (start_addr (insns ?c ! i)) ?c) else failed ?c
           | _ \<Rightarrow> Inl Bad_pointer)
       | SYM_CONSTANT \<Rightarrow> (case sym_u symb of
             Value_expr x \<Rightarrow> bind_res (vma_passx_evaluate_expr names k x ?c) (\<lambda>(ok, c).
               Inr (if ok then (True, set_value e (value_of c x) c) else (False, c)))
           | _ \<Rightarrow> Inl Bad_pointer)
       | SYM_NCALL \<Rightarrow> failed ?c
       | SYM_INVALID \<Rightarrow> vma_abort ''%s:%d: internal error: unhandled symbol type %d'')"
    using assms(1,2) symb
    by (simp add: evaluate_leaf vma_passx_evaluate_symref_def vma_symref_resolve_def symref_name_def Let_def)
  have ins: "insns ?c = insns ctx" by (simp add: set_expr_def)
  have cases: "sym_type symb = SYM_LABEL \<and> (\<exists>i. sym_u symb = Location i \<and> allocated (insns ctx ! i) \<and> v = uint (start_addr (insns ctx ! i))) \<or>
      sym_type symb = SYM_CONSTANT \<and> (\<exists>x. sym_u symb = Value_expr x \<and> closed_value (next_expr ctx) ctx x = Some v)"
    using assms(3) symb
    by (cases "sym_type symb"; cases "sym_u symb") (auto simp: name_meaning_def split: if_splits)
  then show ?thesis
  proof (elim disjE conjE exE)
    fix i assume "sym_type symb = SYM_LABEL" "sym_u symb = Location i" "allocated (insns ctx ! i)" "v = uint (start_addr (insns ctx ! i))"
    moreover have "settles e e ctx (set_value e (start_addr (insns ctx ! i)) ?c)" by (rule settles_set [OF res]) (simp_all add: assms(1))
    ultimately show ?thesis unfolding step ins by simp
  next
    fix x assume x: "sym_type symb = SYM_CONSTANT" "sym_u symb = Value_expr x" "closed_value (next_expr ctx) ctx x = Some v"
    obtain c where c: "vma_passx_evaluate_expr names k x ?c = Inr (True, c)" "uint (value_of c x) = v" "settles 1 0 ?c c"
      using closed_evaluates [OF _ assms(4), of ?c x v names] x(3) closed_stays [OF res] by auto
    have "settles e e ctx (set_value e (value_of c x) c)"
      using settles_trans [OF res settles_weaken [OF c(3)] order_refl order_refl order_refl] by (rule settles_set) (simp_all add: assms(1))
    then show ?thesis unfolding step using x(1,2) c(1,2) by simp
  qed
qed

text \<open>The nodes that the parser builds: the root is the last of them.\<close>

lemma build_literal:
  "vma_expr_build_literal v c0 = (e, c1) \<Longrightarrow> e = next_expr c0 \<and> expr_type (exprs c1 e) = EXPR_LITERAL \<and> value_of c1 e = v"
  by (auto simp: vma_expr_build_literal_def new_expr_def Let_def value_of_def)

lemma build_symref:
  "vma_expr_build_symref name c0 = (e, c1) \<Longrightarrow>
     e = next_expr c0 \<and> expr_type (exprs c1 e) = EXPR_SYMREF \<and> expr_u (exprs c1 e) = Ref (Name name)"
  by (auto simp: vma_expr_build_symref_def vma_symref_init_def new_expr_def Let_def)

lemma build_parent:
  "vma_expr_build_parent op a b c0 = (e, c1) \<Longrightarrow>
     e = next_expr c0 \<and> next_expr c1 = Suc e \<and> expr_type (exprs c1 e) = op \<and> expr_u (exprs c1 e) = Children a b \<and>
     (\<forall>n < e. exprs c1 n = exprs c0 n)"
  by (auto simp: vma_expr_build_parent_def new_expr_def Let_def)

lemma same_tree_root:
  "same_tree lo hi c1 ctx \<Longrightarrow> lo \<le> e \<Longrightarrow> e < hi \<Longrightarrow>
     expr_type (exprs ctx e) = expr_type (exprs c1 e) \<and> expr_u (exprs ctx e) = expr_u (exprs c1 e) \<and>
     (expr_type (exprs c1 e) = EXPR_LITERAL \<longrightarrow> value_of ctx e = value_of c1 e)"
  by (auto simp: same_tree_def)

lemma same_tree_before:
  "same_tree lo hi c2 ctx \<Longrightarrow> \<forall>n < hi'. exprs c2 n = exprs c1 n \<Longrightarrow> lo \<le> lo' \<Longrightarrow> hi' \<le> hi \<Longrightarrow> same_tree lo' hi' c1 ctx"
  by (auto simp: same_tree_def value_of_def)

lemma build_evaluates:
  "build_expr a c0 = (e, c1) \<Longrightarrow> ast_ok a \<Longrightarrow> same_tree (next_expr c0) (next_expr c1) c1 ctx \<Longrightarrow>
     meaning (name_meaning ctx) a = Some v \<Longrightarrow> ast_nodes a + next_expr ctx \<le> k \<Longrightarrow>
     (\<exists>c. vma_passx_evaluate_expr names k e ctx = Inr (True, c) \<and> uint (value_of c e) = v \<and> settles (next_expr c0) e ctx c) \<and>
     (\<forall>m w. closed_value m ctx e = Some w \<longrightarrow> w = v)"
proof (induction a arbitrary: c0 e c1 ctx v k)
  case (Int_lit x)
  then obtain k' where "k = Suc k'" by (cases k) auto
  moreover have "expr_type (exprs ctx e) = EXPR_LITERAL" "value_of ctx e = x"
    using Int_lit.prems build_literal [of x c0 e c1] built_expr [OF Int_lit.prems(2,1)] same_tree_root [OF Int_lit.prems(3), of e] by auto
  moreover have "w = uint x" if "closed_value m ctx e = Some w" for m w
    using that calculation by (cases m) simp_all
  ultimately show ?case using Int_lit.prems(4) by (simp add: evaluate_leaf)
next
  case (Ident name)
  then obtain k' where k: "k = Suc k'" "next_expr ctx \<le> k'" by (cases k) auto
  have e: "expr_type (exprs ctx e) = EXPR_SYMREF" "expr_u (exprs ctx e) = Ref (Name name)" "e = next_expr c0"
    using Ident.prems build_symref [of name c0 e c1] built_expr [OF Ident.prems(2,1)] same_tree_root [OF Ident.prems(3), of e] by auto
  have "closed_value m ctx e = None" for m using e(1) by (cases m) simp_all
  then show ?case using symref_evaluates [OF e(1,2) _ k(2)] Ident.prems(4) unfolding k(1) e(3) by simp
next
  case (Unary op a)
  obtain i c where a: "build_expr a c0 = (i, c)" by fastforce
  have B: "built c0 c" "Suc i = next_expr c" "next_expr c0 \<le> i" using built_expr [OF _ a] Unary.prems(2) by simp_all
  have p: "e = next_expr c" "next_expr c1 = Suc e" "expr_type (exprs c1 e) = op" "expr_u (exprs c1 e) = Children (Some i) None"
      "\<forall>n < e. exprs c1 n = exprs c n"
    using Unary.prems(1) a build_parent [of op "Some i" None c e c1] by auto
  have root: "expr_type (exprs ctx e) = op" "expr_u (exprs ctx e) = Children (Some i) None"
    using same_tree_root [OF Unary.prems(3), of e] p B by simp_all
  obtain x where x: "meaning (name_meaning ctx) a = Some x" "v = unary_meaning op x" using Unary.prems(4) by auto
  obtain k' where k: "k = Suc k'" "ast_nodes a + next_expr ctx \<le> k'" using Unary.prems(5) by (cases k) auto
  have sub: "same_tree (next_expr c0) (next_expr c) c ctx"
    by (rule same_tree_before [OF Unary.prems(3) p(5)[unfolded p(1)]]) (use p B in simp_all)
  note ih = Unary.IH [OF a _ sub x(1) k(2)]
  have op: "op = EXPR_NEG \<or> op = EXPR_NOT" using Unary.prems(2) by simp
  obtain d where d: "vma_passx_evaluate_expr names k' i ctx = Inr (True, d)" "uint (value_of d i) = x" "settles (next_expr c0) i ctx d"
    using ih Unary.prems(2) by auto
  let ?w = "if op = EXPR_NEG then - value_of d i else NOT (value_of d i)"
  have "settles (next_expr c0) e ctx (set_value e ?w d)"
    using settles_grow [OF d(3), of e] B p(1) op root(1) by (intro settles_set) auto
  moreover have "vma_passx_evaluate_expr names k e ctx = Inr (True, set_value e ?w d)"
    unfolding k(1) using evaluate_unary [of ctx e names k'] root op d(1) by simp
  moreover have "uint ?w = v" using unary_op_meaning x(2) d(2) by simp
  moreover have "w = v" if "closed_value m ctx e = Some w" for m w
    using closed_unary [OF that] root op ih Unary.prems(2) x(2) by (metis ast_ok.simps(4) expr_union.inject(1) option.inject)
  ultimately show ?case by auto
next
  case (Binary op a b)
  obtain i c where a: "build_expr a c0 = (i, c)" by fastforce
  obtain j c' where b: "build_expr b c = (j, c')" by fastforce
  have A: "built c0 c" "Suc i = next_expr c" "next_expr c0 \<le> i" using built_expr [OF _ a] Binary.prems(2) by simp_all
  have B: "built c c'" "Suc j = next_expr c'" "next_expr c \<le> j" using built_expr [OF _ b] Binary.prems(2) by simp_all
  have p: "e = next_expr c'" "next_expr c1 = Suc e" "expr_type (exprs c1 e) = op" "expr_u (exprs c1 e) = Children (Some i) (Some j)"
      "\<forall>n < e. exprs c1 n = exprs c' n"
    using Binary.prems(1) a b build_parent [of op "Some i" "Some j" c' e c1] by auto
  have root: "expr_type (exprs ctx e) = op" "expr_u (exprs ctx e) = Children (Some i) (Some j)"
    using same_tree_root [OF Binary.prems(3), of e] p A B by simp_all
  have bin: "is_binary op" "ast_ok a" "ast_ok b" using Binary.prems(2) by simp_all
  obtain x y where xy: "meaning (name_meaning ctx) a = Some x" "meaning (name_meaning ctx) b = Some y" "binary_meaning op x y = Some v"
    using Binary.prems(4) by (auto simp: bind_eq_Some_conv)
  obtain k' where k: "k = Suc k'" "ast_nodes a + next_expr ctx \<le> k'" "ast_nodes b + next_expr ctx \<le> k'"
    using Binary.prems(5) by (cases k) auto
  have tree: "same_tree (next_expr c0) e c' ctx"
    by (rule same_tree_before [OF Binary.prems(3) p(5)]) (use p in simp_all)
  have subs: "same_tree (next_expr c0) (next_expr c) c ctx" "same_tree (next_expr c) (next_expr c') c' ctx"
    using same_tree_before [OF tree, of "next_expr c" c] same_tree_before [OF tree, of e c'] A B p(1) by (auto simp: built_def)
  note iha = Binary.IH(1) [OF a bin(2) subs(1) xy(1) k(2)]
  obtain d where d: "vma_passx_evaluate_expr names k' i ctx = Inr (True, d)" "uint (value_of d i) = x" "settles (next_expr c0) i ctx d"
    using iha by auto
  have ev: "evaluates ctx d" using d(3) by (simp add: settles_def)
  have "same_tree (next_expr c) (next_expr c') c' d" by (rule settles_tree [OF subs(2) d(3)]) (use A in simp)
  then have ihb: "(\<exists>d'. vma_passx_evaluate_expr names k' j d = Inr (True, d') \<and> uint (value_of d' j) = y \<and> settles (next_expr c) j d d') \<and>
      (\<forall>m w. closed_value m d j = Some w \<longrightarrow> w = y)"
    using Binary.IH(2) [OF b bin(3), of d y k'] xy(2) k(3) unfolding meaning_stays [OF d(3)] evaluates_fields(8) [OF ev] by blast
  then obtain d' where d': "vma_passx_evaluate_expr names k' j d = Inr (True, d')" "uint (value_of d' j) = y" "settles (next_expr c) j d d'"
    by blast
  have "value_of d' i = value_of d i"
    by (rule settles_keeps [OF d'(3)]) (use A iha d(2) closed_stays [OF d(3)] in auto)
  then obtain w where w: "binary_op op (value_of d' i) (value_of d' j) d' = Inr (w, d')" "uint w = v"
    using binary_op_meaning [OF _ bin(1), of "value_of d' i" "value_of d' j" v d'] xy(3) d(2) d'(2) by auto
  have "settles (next_expr c0) e ctx d'"
    by (rule settles_trans [OF d(3) d'(3)]) (use A B p(1) in simp_all)
  then have "settles (next_expr c0) e ctx (set_value e w d')"
    by (rule settles_set) (use bin(1) root(1) A B p(1) in \<open>auto simp: is_binary_def\<close>)
  moreover have "vma_passx_evaluate_expr names k e ctx = Inr (True, set_value e w d')"
    unfolding k(1) using evaluate_binary [of ctx e names k'] root bin(1) d(1) d'(1) w(1) by simp
  moreover have "z = v" if "closed_value m ctx e = Some z" for m z
  proof -
    have "is_binary (expr_type (exprs ctx e))" using root(1) bin(1) by simp
    from that this obtain l i' j' x' y' where "m = Suc l" "expr_u (exprs ctx e) = Children (Some i') (Some j')" "closed_value l ctx i' = Some x'"
        "closed_value l ctx j' = Some y'" "binary_meaning (expr_type (exprs ctx e)) x' y' = Some z"
      by (rule closed_binary)
    then show ?thesis using iha ihb root xy(3) closed_stays [OF d(3)] by auto
  qed
  ultimately show ?case using w(2) by auto
qed

text \<open>C29. Evaluating the nodes that the parser built for a source expression gives its value over the
  integers modulo \<open>2^32\<close>, when it has one (each name is an allocated label or a constant without
  references, and nothing is divided by zero), with no error counted and, outside the nodes of the
  expression, nothing but such constants computed.\<close>

theorem evaluates_to_meaning:
  assumes "ast_ok a" and "build_expr a c0 = (e, c1)" and "same_tree (next_expr c0) (next_expr c1) c1 ctx"
    and "meaning (name_meaning ctx) a = Some v" and "ast_nodes a + next_expr ctx \<le> fuel E"
  shows "\<exists>c. evaluate_expr E e ctx = Inr (True, c) \<and> uint (value_of c e) = v \<and> settles (next_expr c0) e ctx c"
  using build_evaluates [OF assms(2,1,3-5)] by (simp add: evaluate_expr_def)

text \<open>The square of a constant, itself a sum, less the address of a label.\<close>

definition square_source :: "stmt list" where
  "square_source =
     [Const_stmt ''k'' (Binary EXPR_ADD (Int_lit 2) (Int_lit 3)) 1,
      Insn_stmt None (Machine INSN_DUP) 2, Insn_stmt (Some (''start'', 3)) (Machine INSN_RET) 3]"

definition square :: ast where
  "square = Binary EXPR_SUB (Binary EXPR_MUL (Ident ''k'') (Ident ''k'')) (Ident ''start'')"

definition square_ctx :: "vma_context" where
  "square_ctx = projr (assembled (plain_env 16) (\<lambda>k. blank) square_source)"

theorem evaluates_to_meaning_witness:
  "\<exists>c. evaluate_expr (plain_env 16) (fst (build_expr square square_ctx)) (snd (build_expr square square_ctx)) = Inr (True, c) \<and>
     uint (value_of c (fst (build_expr square square_ctx))) = 24 \<and>
     settles (next_expr square_ctx) (fst (build_expr square square_ctx)) (snd (build_expr square square_ctx)) c"
proof (rule evaluates_to_meaning)
  show "ast_ok square" by (simp add: square_def is_binary_def)
  show "build_expr square square_ctx = (fst (build_expr square square_ctx), snd (build_expr square square_ctx))" by simp
  show "same_tree (next_expr square_ctx) (next_expr (snd (build_expr square square_ctx)))
      (snd (build_expr square square_ctx)) (snd (build_expr square square_ctx))"
    by (simp add: same_tree_def)
  show "meaning (name_meaning (snd (build_expr square square_ctx))) square = Some 24" by code_simp
  show "ast_nodes square + next_expr (snd (build_expr square square_ctx)) \<le> fuel (plain_env 16)" by code_simp
qed





end
